(* ===== verification/Prelude.thy ===== *)
theory Prelude
  imports Main "HOL-Library.Word" "HOL-Library.Signed_Division"
begin

text \<open>
  Shared vocabulary of the development: the machine integers of Go on a 64-bit platform,
  the result shapes of its functions, and the generic lemmas on lists that several
  components use.

  \<^item> Go's \<open>int\<close>, \<open>int64\<close> and \<open>time.Duration\<close> are values of type \<^typ>\<open>int\<close> with the
    wrap-around written out by \<open>wrap64\<close> wherever the code computes;
  \<^item> \<open>uint64\<close> is \<^typ>\<open>64 word\<close>, whose arithmetic wraps by itself;
  \<^item> \<open>time.Time\<close> is an instant in nanoseconds, an unbounded \<^typ>\<open>int\<close> (Go keeps seconds
    and nanoseconds apart, so that instants do not overflow);
  \<^item> a function that returns \<open>(T, error)\<close> has a result in a sum type whose left
    summand is the error; a function that returns \<open>error\<close> has an option, \<^const>\<open>None\<close>
    for \<open>nil\<close>;
  \<^item> a run-time panic (division by zero) is \<^const>\<open>None\<close> of an option around the value.
\<close>

named_theorems go_arith \<open>wrap-around arithmetic in range\<close>
named_theorems run_inv \<open>what each operation keeps of a component's invariant\<close>

type_synonym u64 = "64 word"
type_synonym gotime = int
type_synonym duration = int

section \<open>Signed 64-bit integers\<close>

definition wrap64 :: "int \<Rightarrow> int" where
  "wrap64 x = (x + 2 ^ 63) mod 2 ^ 64 - 2 ^ 63"

definition in_i64 :: "int \<Rightarrow> bool" where
  "in_i64 x \<longleftrightarrow> - (2 ^ 63) \<le> x \<and> x < 2 ^ 63"

lemma wrap64_range [simp]: "in_i64 (wrap64 x)"
  by (simp add: wrap64_def in_i64_def)

lemma wrap64_id [go_arith]: "in_i64 x \<Longrightarrow> wrap64 x = x"
  by (simp add: wrap64_def in_i64_def)

lemma wrap64_small [go_arith]: "0 \<le> x \<Longrightarrow> x < 2 ^ 63 \<Longrightarrow> wrap64 x = x"
  by (rule wrap64_id) (simp add: in_i64_def)

lemma wrap64_wrap64 [simp]: "wrap64 (wrap64 x) = wrap64 x"
  by (rule wrap64_id) simp

lemma wrap64_cong: "wrap64 x mod 2 ^ 64 = x mod 2 ^ 64"
  by (simp add: wrap64_def mod_diff_left_eq)

text \<open>Conversions between \<open>int64\<close> and \<open>uint64\<close>.\<close>

definition to_u64 :: "int \<Rightarrow> u64" where
  "to_u64 x = word_of_int x"

definition to_i64 :: "u64 \<Rightarrow> int" where
  "to_i64 w = sint w"

lemma unat_to_u64: "0 \<le> x \<Longrightarrow> x < 2 ^ 64 \<Longrightarrow> unat (to_u64 x) = nat x"
  by (simp add: to_u64_def unat_eq_nat_uint uint_word_of_int_eq take_bit_int_eq_self)

lemma to_u64_eq_0_iff: "0 \<le> x \<Longrightarrow> x < 2 ^ 64 \<Longrightarrow> to_u64 x = 0 \<longleftrightarrow> x = 0"
  using unat_to_u64 [of x] unat_eq_zero [of "to_u64 x"] by simp

lemma to_i64_small: "unat w < 2 ^ 63 \<Longrightarrow> to_i64 w = int (unat w)"
proof -
  assume "unat w < 2 ^ 63"
  then have "int (unat w) < int (2 ^ 63)" by (simp only: of_nat_less_iff)
  then have u: "uint w < 2 ^ 63" by simp
  have "sint w = signed_take_bit 63 (uint w)" by (simp add: sint_uint)
  moreover have "signed_take_bit 63 (uint w) = uint w"
    by (rule signed_take_bit_int_eq_self) (use u uint_ge_0 [of w] in linarith)+
  ultimately show ?thesis by (simp only: to_i64_def uint_nat)
qed

text \<open>A signed quotient as Go computes it: truncated towards zero, and a panic on zero.\<close>

definition quot_i64 :: "int \<Rightarrow> int \<Rightarrow> int option" where
  "quot_i64 a b = (if b = 0 then None else Some (wrap64 (a sdiv b)))"

lemma quot_i64_pos:
  "0 \<le> a \<Longrightarrow> a < 2 ^ 63 \<Longrightarrow> 0 < b \<Longrightarrow> quot_i64 a b = Some (a div b)"
proof -
  assume a: "0 \<le> a" "a < 2 ^ 63" and b: "0 < b"
  have "a div b \<le> a" using a b by (metis div_by_1 int_one_le_iff_zero_less zdiv_mono2 zero_less_one)
  moreover have "0 \<le> a div b" using a b by (simp add: pos_imp_zdiv_nonneg_iff)
  ultimately show ?thesis using a b
    by (simp add: quot_i64_def signed_divide_int_def wrap64_small sgn_if)
qed

text \<open>Chains of guards that return an error, and options that do not matter.\<close>

lemma guard_None: "(if c then Some e else r) = None \<longleftrightarrow> \<not> c \<and> r = None"
  by simp

text \<open>\<open>if p != nil { s.f = *p }\<close>.\<close>

definition assign_some :: "('v \<Rightarrow> 's \<Rightarrow> 's) \<Rightarrow> 'v option \<Rightarrow> 's \<Rightarrow> 's" where
  "assign_some upd p s = (case p of None \<Rightarrow> s | Some v \<Rightarrow> upd v s)"

lemma assign_some_simps [simp]: "assign_some upd None s = s" "assign_some upd (Some v) s = upd v s"
  by (simp_all add: assign_some_def)

lemma assign_some_frame: "(\<And>v. f (upd v s) = f s) \<Longrightarrow> f (assign_some upd p s) = f s"
  by (cases p) simp_all

lemma case_option_same [simp]: "(case x of None \<Rightarrow> a | Some _ \<Rightarrow> a) = a"
  by (cases x) simp_all

lemma singleton_split [simp]: "xs @ x # ys = [y] \<longleftrightarrow> xs = [] \<and> ys = [] \<and> x = y"
  by (cases xs) auto

text \<open>\<open>time.Time.Sub\<close> saturates at the ends of the duration range.\<close>

definition time_sub :: "gotime \<Rightarrow> gotime \<Rightarrow> duration" where
  "time_sub t u = (if t - u > 2 ^ 63 - 1 then 2 ^ 63 - 1
                   else if t - u < - (2 ^ 63) then - (2 ^ 63) else t - u)"

lemma time_sub_range [simp]: "in_i64 (time_sub t u)"
  by (simp add: time_sub_def in_i64_def)

end
