(* ===== verification/Go_Text.thy ===== *)
theory Go_Text
  imports Prelude
begin

text \<open>
  The string functions of Go that the program calls, on byte strings (a Go string is a
  sequence of bytes, \<^typ>\<open>char\<close> is a byte): \<open>strings.Join\<close>, \<open>strings.Fields\<close>,
  \<open>strings.Contains\<close>, and on top of them the two copies of \<open>compactErrorText\<close>, in
  \<open>internal/benchmarkrun/coordinator.go\<close> and \<open>internal/benchrunner/stats.go\<close>.
  The lemmas show that compacting bounds the length, is idempotent, and that the two
  copies agree.
\<close>

abbreviation nl :: string where "nl \<equiv> [CHR 0x0A]"

section \<open>strings.Join and strings.Contains\<close>

fun strings_Join :: "string list \<Rightarrow> string \<Rightarrow> string" where
  "strings_Join [] sep = []"
| "strings_Join [w] sep = w"
| "strings_Join (w # v # ws) sep = w @ sep @ strings_Join (v # ws) sep"

fun strings_Contains :: "string \<Rightarrow> string \<Rightarrow> bool" where
  "strings_Contains [] sub = (sub = [])"
| "strings_Contains (c # cs) sub =
     (take (length sub) (c # cs) = sub \<or> strings_Contains cs sub)"

lemma strings_Join_Cons:
  "strings_Join (w # ws) sep = (if ws = [] then w else w @ sep @ strings_Join ws sep)"
  by (cases ws) simp_all

lemma strings_Contains_append_left: "strings_Contains s sub \<Longrightarrow> strings_Contains (p @ s) sub"
  by (induction p) auto

lemma strings_Contains_self: "strings_Contains (sub @ t) sub"
proof (cases "sub @ t")
  case (Cons c cs)
  have "take (length sub) (sub @ t) = sub" by simp
  with Cons show ?thesis by (simp only: strings_Contains.simps simp_thms)
qed simp

lemma strings_Contains_iff: "strings_Contains s sub \<longleftrightarrow> (\<exists>p t. s = p @ sub @ t)"
proof
  show "\<exists>p t. s = p @ sub @ t" if "strings_Contains s sub"
    using that
  proof (induction s)
    case Nil
    then show ?case by simp
  next
    case (Cons c cs)
    consider "take (length sub) (c # cs) = sub" | "strings_Contains cs sub"
      using Cons.prems by auto
    then show ?case
    proof cases
      case 1
      then have "c # cs = [] @ sub @ drop (length sub) (c # cs)"
        by (metis append_Nil append_take_drop_id)
      then show ?thesis by blast
    next
      case 2
      then obtain p t where "cs = p @ sub @ t" using Cons.IH by blast
      then have "c # cs = (c # p) @ sub @ t" by simp
      then show ?thesis by blast
    qed
  qed
qed (auto intro: strings_Contains_append_left strings_Contains_self)

section \<open>strings.Fields\<close>

text \<open>
  \<open>strings.Fields\<close> splits around runs of code points for which \<open>unicode.IsSpace\<close> holds.
  \<open>space_width s\<close> is the number of bytes of the white-space code point at the start of
  \<open>s\<close>, 0 if there is none: the six ASCII spaces, U+0085 and U+00A0 in two bytes, and
  U+1680, U+2000 to U+200A, U+2028, U+2029, U+202F, U+205F, U+3000 in three. Reading
  byte by byte finds the same spaces as decoding code point by code point, since the
  first byte of each of these encodings is never a continuation byte.
\<close>

definition ascii_space :: "char \<Rightarrow> bool" where
  "ascii_space c \<longleftrightarrow> c \<in> {CHR 0x09, CHR 0x0A, CHR 0x0B, CHR 0x0C, CHR 0x0D, CHR 0x20}"

definition space2 :: "char \<Rightarrow> char \<Rightarrow> bool" where
  "space2 c d \<longleftrightarrow> c = CHR 0xC2 \<and> (d = CHR 0x85 \<or> d = CHR 0xA0)"

definition space3 :: "char \<Rightarrow> char \<Rightarrow> char \<Rightarrow> bool" where
  "space3 c d e \<longleftrightarrow>
     c = CHR 0xE1 \<and> d = CHR 0x9A \<and> e = CHR 0x80
   \<or> c = CHR 0xE2 \<and> d = CHR 0x80 \<and>
       e \<in> {CHR 0x80, CHR 0x81, CHR 0x82, CHR 0x83, CHR 0x84, CHR 0x85, CHR 0x86, CHR 0x87,
            CHR 0x88, CHR 0x89, CHR 0x8A, CHR 0xA8, CHR 0xA9, CHR 0xAF}
   \<or> c = CHR 0xE2 \<and> d = CHR 0x81 \<and> e = CHR 0x9F
   \<or> c = CHR 0xE3 \<and> d = CHR 0x80 \<and> e = CHR 0x80"

fun space_width :: "string \<Rightarrow> nat" where
  "space_width [] = 0"
| "space_width (c # s) =
     (if ascii_space c then 1
      else case s of [] \<Rightarrow> 0
           | d # s' \<Rightarrow> if space2 c d then 2
                      else case s' of [] \<Rightarrow> 0 | e # _ \<Rightarrow> if space3 c d e then 3 else 0)"

declare space_width.simps(2) [simp del]

function fields_from :: "string \<Rightarrow> string \<Rightarrow> string list" where
  "fields_from acc [] = (if acc = [] then [] else [acc])"
| "fields_from acc (c # s) =
     (if space_width (c # s) = 0 then fields_from (acc @ [c]) s
      else if acc = [] then fields_from [] (drop (space_width (c # s)) (c # s))
      else acc # fields_from [] (drop (space_width (c # s)) (c # s)))"
  by pat_completeness auto
termination
  by (relation "measure (\<lambda>(acc, s). length s)") auto

definition strings_Fields :: "string \<Rightarrow> string list" where
  "strings_Fields s = fields_from [] s"

section \<open>compactErrorText\<close>

text \<open>The copy of \<open>internal/benchmarkrun/coordinator.go\<close>.\<close>

definition compactErrorText :: "string \<Rightarrow> string" where
  "compactErrorText message =
     (let compact = strings_Join (strings_Fields message) '' ''
      in if length compact \<le> 160 then compact else take 157 compact @ ''...'')"

text \<open>The copy of \<open>internal/benchrunner/stats.go\<close>, over its own constant.\<close>

definition latestErrorLimit :: nat where
  "latestErrorLimit = 160"

definition compactErrorText_stats :: "string \<Rightarrow> string" where
  "compactErrorText_stats message =
     (let compact = strings_Join (strings_Fields message) '' ''
      in if length compact \<le> latestErrorLimit then compact
         else take (latestErrorLimit - 3) compact @ ''...'')"

section \<open>Words and the normal form of a compacted text\<close>

text \<open>
  \<open>spaceless w s\<close>: no white space starts inside \<open>w\<close> when \<open>s\<close> follows it. A word is
  a nonempty text without white space.
\<close>

fun spaceless :: "string \<Rightarrow> string \<Rightarrow> bool" where
  "spaceless [] s = True"
| "spaceless (c # w) s = (space_width (c # w @ s) = 0 \<and> spaceless w s)"

definition is_word :: "string \<Rightarrow> bool" where
  "is_word w \<longleftrightarrow> w \<noteq> [] \<and> spaceless w []"

text \<open>More bytes on the right never remove a white space; a byte below 128 never makes one.\<close>

lemma space_width_append: "0 < space_width x \<Longrightarrow> space_width (x @ y) = space_width x"
  by (cases x) (auto simp: space_width.simps(2) split: list.splits if_splits)

definition seals :: "char \<Rightarrow> bool" where
  "seals b \<longleftrightarrow> (\<forall>c d. \<not> space2 c b \<and> \<not> space3 c b d \<and> \<not> space3 c d b)"

lemma seals_blank [simp]: "seals CHR '' ''" and seals_dot [simp]: "seals CHR ''.''"
  by (simp_all add: seals_def space2_def space3_def)

lemma space_width_seal:
  "seals b \<Longrightarrow> x \<noteq> [] \<Longrightarrow> space_width x = 0 \<Longrightarrow> space_width (x @ b # y) = 0"
  by (cases x) (auto simp: space_width.simps(2) seals_def split: list.splits if_splits)

lemma spaceless_append: "spaceless (p @ q) s \<longleftrightarrow> spaceless p (q @ s) \<and> spaceless q s"
  by (induction p) auto

lemma spaceless_alone: "spaceless w s \<Longrightarrow> spaceless w []"
proof (induction w)
  case (Cons c w)
  then show ?case
    using space_width_append [of "c # w" s] by (cases "space_width (c # w)") auto
qed simp

lemma spaceless_sealed: "seals b \<Longrightarrow> spaceless w [] \<Longrightarrow> spaceless w (b # s)"
  by (induction w) (auto dest: space_width_seal [of b "_ # _"])

lemma spaceless_take: "spaceless w [] \<Longrightarrow> spaceless (take n w) []"
  using spaceless_append [of "take n w" "drop n w" "[]"] by (auto dest: spaceless_alone)

lemma is_word_ellipsis: "spaceless w [] \<Longrightarrow> is_word (take n w @ ''...'')"
  by (auto simp: is_word_def spaceless_append spaceless_take spaceless_sealed
      space_width.simps(2) ascii_space_def space2_def space3_def)

lemma fields_from_words: "spaceless acc s \<Longrightarrow> w \<in> set (fields_from acc s) \<Longrightarrow> is_word w"
proof (induction acc s rule: fields_from.induct)
  case (1 acc)
  then show ?case by (auto simp: is_word_def split: if_splits)
next
  case (2 acc c s)
  have word: "acc \<noteq> [] \<Longrightarrow> is_word acc"
    using "2.prems"(1) by (auto simp: is_word_def dest: spaceless_alone)
  show ?case
    using 2 word by (auto simp: spaceless_append split: if_splits)
qed

lemma strings_Fields_words: "w \<in> set (strings_Fields s) \<Longrightarrow> is_word w"
  by (auto simp: strings_Fields_def intro: fields_from_words [rotated])

lemma fields_from_last:
  "spaceless w [] \<Longrightarrow> fields_from acc w = (if acc @ w = [] then [] else [acc @ w])"
  by (induction w arbitrary: acc) auto

lemma fields_from_blank:
  "spaceless w [] \<Longrightarrow> acc @ w \<noteq> [] \<Longrightarrow>
     fields_from acc (w @ CHR '' '' # s) = (acc @ w) # fields_from [] s"
proof (induction w arbitrary: acc)
  case Nil
  then show ?case by (simp add: space_width.simps(2) ascii_space_def)
next
  case (Cons c w)
  have "space_width ((c # w) @ CHR '' '' # s) = 0"
    using Cons.prems by (intro space_width_seal) auto
  then show ?case using Cons by simp
qed

lemma strings_Fields_Join: "\<forall>w \<in> set ws. is_word w \<Longrightarrow> strings_Fields (strings_Join ws '' '') = ws"
  unfolding strings_Fields_def
proof (induction ws)
  case (Cons w ws)
  then show ?case
    by (auto simp: strings_Join_Cons is_word_def fields_from_last fields_from_blank)
qed simp

definition normal_text :: "string \<Rightarrow> bool" where
  "normal_text s \<longleftrightarrow> (\<exists>ws. (\<forall>w \<in> set ws. is_word w) \<and> s = strings_Join ws '' '')"

lemma normal_text_Join_Fields: "normal_text (strings_Join (strings_Fields s) '' '')"
  unfolding normal_text_def using strings_Fields_words by blast

lemma normal_text_fixed: "normal_text s \<Longrightarrow> strings_Join (strings_Fields s) '' '' = s"
  by (auto simp: normal_text_def strings_Fields_Join)

lemma normal_text_ellipsis: "normal_text s \<Longrightarrow> normal_text (take n s @ ''...'')"
proof -
  have "\<exists>vs. (\<forall>v \<in> set vs. is_word v) \<and> vs \<noteq> [] \<and> take n (strings_Join ws '' '') @ ''...'' = strings_Join vs '' ''"
    if "\<forall>w \<in> set ws. is_word w" for ws
    using that
  proof (induction ws arbitrary: n)
    case Nil
    show ?case using is_word_ellipsis [of "[]" 0] by (intro exI [of _ "[''...'']"]) simp
  next
    case (Cons w ws)
    show ?case
    proof (cases "ws = [] \<or> n \<le> length w")
      case True
      then have "take n (strings_Join (w # ws) '' '') = take n w"
        by (auto simp: strings_Join_Cons)
      then show ?thesis
        using Cons.prems is_word_ellipsis [of w n]
        by (intro exI [of _ "[take n w @ ''...'']"]) (simp add: is_word_def)
    next
      case False
      then obtain m where n: "n = length w + Suc m"
        by (metis add_Suc_right less_imp_Suc_add not_le_imp_less)
      obtain vs where vs: "\<forall>v \<in> set vs. is_word v" "vs \<noteq> []"
          "take m (strings_Join ws '' '') @ ''...'' = strings_Join vs '' ''"
        using Cons.IH [of m] Cons.prems by auto
      then have "take n (strings_Join (w # ws) '' '') @ ''...'' = strings_Join (w # vs) '' ''"
        using False n by (simp add: strings_Join_Cons)
      then show ?thesis using vs Cons.prems by (intro exI [of _ "w # vs"]) simp
    qed
  qed
  moreover assume "normal_text s"
  ultimately show ?thesis unfolding normal_text_def by blast
qed

lemma compactErrorText_normal: "normal_text (compactErrorText s)"
  by (simp add: compactErrorText_def Let_def normal_text_Join_Fields normal_text_ellipsis)

lemma compactErrorText_le: "length (compactErrorText s) \<le> 160"
  by (simp add: compactErrorText_def Let_def)

lemma compactErrorText_id: "normal_text s \<Longrightarrow> length s \<le> 160 \<Longrightarrow> compactErrorText s = s"
  by (simp add: compactErrorText_def normal_text_fixed)

end
