(* ===== verification/Go_Errors.thy ===== *)
theory Go_Errors
  imports Go_Text
begin

text \<open>
  Go error values and what the program asks of them: \<open>Error()\<close>, \<open>errors.Is\<close> against a
  sentinel, \<open>errors.As\<close> for \<open>countedOperationError\<close> and \<open>*pgconn.PgError\<close>, and the
  functions of \<open>internal/benchrunner/operation_error.go\<close>.

  A value of \<open>errors.New\<close> or of \<open>fmt.Errorf\<close> without \<open>%w\<close> is \<open>Errorf\<close> with its text;
  the program's sentinels are compared by identity and are constructors of their own.
  Every \<open>%w\<close> of the program stands at the end of the format, after a colon and a blank,
  so a wrapped error is \<open>Wrap\<close> with the text before them.
\<close>

datatype sentinel =
    ErrRunActive          \<comment> \<open>benchmarkrun\<close>
  | ErrRunNotRunning      \<comment> \<open>benchmarkrun\<close>
  | Canceled              \<comment> \<open>context\<close>
  | DeadlineExceeded      \<comment> \<open>context\<close>
  | ErrTxDone             \<comment> \<open>database/sql\<close>
  | ErrNoRows             \<comment> \<open>database/sql\<close>
  | ErrServerClosed       \<comment> \<open>net/http\<close>
  | ErrEOF                \<comment> \<open>io\<close>

datatype goerror =
    Errorf string
  | Sentinel sentinel
  | Wrap string goerror
  | Counted goerror            \<comment> \<open>\<open>countedOperationError{err}\<close>\<close>
  | Joined "goerror list"      \<comment> \<open>\<open>errors.Join\<close> of errors that are not \<open>nil\<close>\<close>
  | PgError string string      \<comment> \<open>\<open>*pgconn.PgError\<close>: its \<open>Code\<close> and its \<open>Error()\<close>\<close>

fun sentinel_text :: "sentinel \<Rightarrow> string" where
  "sentinel_text ErrRunActive = ''benchmark run already active''"
| "sentinel_text ErrRunNotRunning = ''benchmark run is not running''"
| "sentinel_text Canceled = ''context canceled''"
| "sentinel_text DeadlineExceeded = ''context deadline exceeded''"
| "sentinel_text ErrTxDone = ''sql: transaction has already been committed or rolled back''"
| "sentinel_text ErrNoRows = ''sql: no rows in result set''"
| "sentinel_text ErrServerClosed = ''http: Server closed''"
| "sentinel_text ErrEOF = ''EOF''"

fun error_text :: "goerror \<Rightarrow> string" where
  "error_text (Errorf s) = s"
| "error_text (Sentinel s) = sentinel_text s"
| "error_text (Wrap p e) = p @ '': '' @ error_text e"
| "error_text (Counted e) = error_text e"
| "error_text (Joined es) = strings_Join (map error_text es) [CHR 0x0A]"
| "error_text (PgError code txt) = txt"

text \<open>\<open>errors.Is\<close>: some error of the tree that \<open>Unwrap\<close> spans is the target.\<close>

fun errors_Is :: "goerror \<Rightarrow> sentinel \<Rightarrow> bool" where
  "errors_Is (Sentinel s) t = (s = t)"
| "errors_Is (Wrap p e) t = errors_Is e t"
| "errors_Is (Counted e) t = errors_Is e t"
| "errors_Is (Joined es) t = list_ex (\<lambda>e. errors_Is e t) es"
| "errors_Is _ t = False"

section \<open>operation\_error.go\<close>

definition sqlStateLockNotAvailable :: string where
  "sqlStateLockNotAvailable = ''55P03''"

definition countFailedOperation :: "goerror option \<Rightarrow> goerror option" where
  "countFailedOperation err = (case err of None \<Rightarrow> None | Some e \<Rightarrow> Some (Counted e))"

fun isCountedOperationError :: "goerror \<Rightarrow> bool" where
  "isCountedOperationError (Counted e) = True"
| "isCountedOperationError (Wrap p e) = isCountedOperationError e"
| "isCountedOperationError (Joined es) = list_ex isCountedOperationError es"
| "isCountedOperationError _ = False"

text \<open>\<open>errors.As\<close> finds the first \<open>*pgconn.PgError\<close> of the tree in pre-order.\<close>

fun first_pg_code :: "goerror \<Rightarrow> string option"
  and first_pg_code_list :: "goerror list \<Rightarrow> string option" where
  "first_pg_code (PgError code txt) = Some code"
| "first_pg_code (Wrap p e) = first_pg_code e"
| "first_pg_code (Counted e) = first_pg_code e"
| "first_pg_code (Joined es) = first_pg_code_list es"
| "first_pg_code (Errorf s) = None"
| "first_pg_code (Sentinel s) = None"
| "first_pg_code_list [] = None"
| "first_pg_code_list (e # es) =
     (case first_pg_code e of Some c \<Rightarrow> Some c | None \<Rightarrow> first_pg_code_list es)"

definition isLockNotAvailableError :: "goerror \<Rightarrow> bool" where
  "isLockNotAvailableError err \<longleftrightarrow>
     first_pg_code err = Some sqlStateLockNotAvailable
   \<or> strings_Contains (error_text err) (''SQLSTATE '' @ sqlStateLockNotAvailable)"

text \<open>Wrapping keeps what the callers ask of an error.\<close>

lemma countFailedOperation_None [simp]: "countFailedOperation None = None"
  by (simp add: countFailedOperation_def)

lemma countFailedOperation_Some [simp]: "countFailedOperation (Some e) = Some (Counted e)"
  by (simp add: countFailedOperation_def)

lemma isLockNotAvailableError_Wrap: "isLockNotAvailableError e \<Longrightarrow> isLockNotAvailableError (Wrap p e)"
  unfolding isLockNotAvailableError_def
  by (auto intro: strings_Contains_append_left [of _ _ "p @ '': ''", simplified])

section \<open>Statements over a world\<close>

text \<open>\<open>if err := m; err != nil { return err }\<close> before the rest, and \<open>fmt.Errorf("label: %w", err)\<close>.\<close>

definition seqE :: "'w \<times> goerror option \<Rightarrow> ('w \<Rightarrow> 'w \<times> goerror option) \<Rightarrow> 'w \<times> goerror option" where
  "seqE m f = (case m of (w, Some e) \<Rightarrow> (w, Some e) | (w, None) \<Rightarrow> f w)"

definition wrapE :: "string \<Rightarrow> 'w \<times> goerror option \<Rightarrow> 'w \<times> goerror option" where
  "wrapE label m = (fst m, map_option (Wrap label) (snd m))"

end
