(* ===== verification/Go_Float.thy ===== *)
theory Go_Float
  imports Prelude "HOL-Library.Log_Nat"
begin

text \<open>
  Go's \<open>float64\<close>: IEEE 754 binary64 in the range the program uses. A finite value is the
  rational number it denotes; every operation rounds its exact result with \<open>fl\<close>, to the
  nearest value with a 53-bit significand, ties to even, with gradual underflow at
  \<open>2\<^sup>-\<^sup>1\<^sup>0\<^sup>7\<^sup>4\<close>. The program divides counters below \<open>2\<^sup>6\<^sup>4\<close> by durations of at least a
  nanosecond, so that nothing overflows to infinity and no operation yields a NaN.
  The lemmas show that rounding is monotone and exact on integers up to \<open>2\<^sup>5\<^sup>3\<close>.
\<close>

type_synonym float64 = rat

text \<open>The binary exponent of a positive number.\<close>

definition flog2 :: "rat \<Rightarrow> int" where
  "flog2 x = (let (a, b) = quotient_of x; e = bitlen a - bitlen b
              in if 2 powi e \<le> x then e else e - 1)"

definition rnd_even :: "rat \<Rightarrow> int" where
  "rnd_even x = (let f = \<lfloor>x\<rfloor>; d = x - of_int f
                 in if d < 1/2 then f else if 1/2 < d then f + 1 else if even f then f else f + 1)"

text \<open>The exponent of the last place of the result, and the rounded result.\<close>

definition last_place :: "rat \<Rightarrow> int" where
  "last_place x = max (-1074) (flog2 \<bar>x\<bar> - 52)"

definition fl :: "rat \<Rightarrow> float64" where
  "fl x = (if x = 0 then 0 else of_int (rnd_even (x / 2 powi last_place x)) * 2 powi last_place x)"

definition u64_to_float :: "u64 \<Rightarrow> float64" where
  "u64_to_float w = fl (of_nat (unat w))"

definition duration_to_float :: "duration \<Rightarrow> float64" where
  "duration_to_float d = fl (of_int d)"

text \<open>\<open>time.Duration.Seconds\<close>.\<close>

definition duration_Seconds :: "duration \<Rightarrow> float64" where
  "duration_Seconds d =
     fl (fl (of_int (d sdiv 1000000000)) + fl (fl (of_int (d smod 1000000000)) / 1000000000))"

section \<open>Rounding\<close>

lemma powi_of_int: "0 \<le> e \<Longrightarrow> (2::rat) powi e = of_int (2 ^ nat e)"
  by (simp add: power_int_def)

lemma flog2_bounds:
  assumes "0 < x"
  shows "2 powi flog2 x \<le> x" and "x < 2 powi (flog2 x + 1)"
proof -
  obtain a b where q: "quotient_of x = (a, b)" by (cases "quotient_of x")
  have b: "0 < b" using quotient_of_denom_pos [OF q] .
  have x: "x = of_int a / of_int b" using quotient_of_div [OF q] .
  have a: "0 < a" using assms b unfolding x by (simp add: zero_less_divide_iff)
  have la: "2 ^ nat (bitlen a - 1) \<le> a" "a < 2 ^ nat (bitlen a)"
    and lb: "2 ^ nat (bitlen b - 1) \<le> b" "b < 2 ^ nat (bitlen b)"
    using bitlen_bounds [of a] bitlen_bounds [of b] a b by auto
  have pa: "0 < bitlen a" "0 < bitlen b" using la(2) lb(2) a b by (auto intro: ccontr)
  let ?e = "bitlen a - bitlen b"
  have A: "2 powi (bitlen a - 1) \<le> (of_int a :: rat)" "(of_int a :: rat) < 2 powi bitlen a"
    using la pa powi_of_int [of "bitlen a - 1"] powi_of_int [of "bitlen a"]
    by (simp_all only: of_int_le_iff of_int_less_iff)
  have B: "2 powi (bitlen b - 1) \<le> (of_int b :: rat)" "(of_int b :: rat) < 2 powi bitlen b"
    using lb pa powi_of_int [of "bitlen b - 1"] powi_of_int [of "bitlen b"]
    by (simp_all only: of_int_le_iff of_int_less_iff)
  have b0: "(0::rat) < of_int b" using b by simp
  have "2 powi (?e - 1) * of_int b \<le> 2 powi (?e - 1) * (2 powi bitlen b :: rat)"
    using B(2) by (intro mult_left_mono) auto
  also have "\<dots> = 2 powi (bitlen a - 1)" by (simp flip: power_int_add)
  also have "\<dots> \<le> of_int a" by (rule A(1))
  finally have low: "2 powi (?e - 1) \<le> x" using b0 unfolding x by (simp add: pos_le_divide_eq)
  have "of_int a < (2 powi bitlen a :: rat)" by (rule A(2))
  also have "\<dots> = 2 powi (?e + 1) * 2 powi (bitlen b - 1)" by (simp flip: power_int_add)
  also have "\<dots> \<le> 2 powi (?e + 1) * of_int b" using B(1) by (intro mult_left_mono) auto
  finally have high: "x < 2 powi (?e + 1)" using b0 unfolding x by (simp add: pos_divide_less_eq)
  show "2 powi flog2 x \<le> x" and "x < 2 powi (flog2 x + 1)"
    using low high q by (auto simp: flog2_def Let_def)
qed

lemma rnd_even_mono: "x \<le> y \<Longrightarrow> rnd_even x \<le> rnd_even y"
proof -
  assume xy: "x \<le> y"
  then have f: "\<lfloor>x\<rfloor> \<le> \<lfloor>y\<rfloor>" by (rule floor_mono)
  have bounds: "\<lfloor>z\<rfloor> \<le> rnd_even z" "rnd_even z \<le> \<lfloor>z\<rfloor> + 1" for z
    by (simp_all add: rnd_even_def Let_def)
  show ?thesis
  proof (cases "\<lfloor>x\<rfloor> = \<lfloor>y\<rfloor>")
    case True
    then show ?thesis using xy by (auto simp: rnd_even_def Let_def)
  next
    case False
    then show ?thesis using f bounds [of x] bounds [of y] by linarith
  qed
qed

lemma rnd_even_of_int [simp]: "rnd_even (of_int n) = n"
  by (simp add: rnd_even_def Let_def)

lemma powi_pos [simp]: "(0::rat) < 2 powi e"
  by (simp add: zero_less_power_int)

lemma powi_split: "l \<le> e \<Longrightarrow> (2::rat) powi e = 2 ^ nat (e - l) * 2 powi l"
  using power_int_add [of "2::rat" "e - l" l] by (simp add: power_int_def [of _ "e - l"])

lemma fl_exact: "x = of_int k * 2 powi last_place x \<Longrightarrow> fl x = x"
proof -
  assume x: "x = of_int k * 2 powi last_place x"
  have "of_int k * 2 powi last_place x / 2 powi last_place x = (of_int k :: rat)" by simp
  then have "x / 2 powi last_place x = of_int k" using x by metis
  then have "rnd_even (x / 2 powi last_place x) = k" by (simp only: rnd_even_of_int)
  then show ?thesis using x by (simp only: fl_def) simp
qed

lemma fl_nonneg: "0 \<le> x \<Longrightarrow> 0 \<le> fl x"
  using rnd_even_mono [of 0 "x / 2 powi last_place x"] rnd_even_of_int [of 0]
  by (auto simp: fl_def)

lemma fl_0 [simp]: "fl 0 = 0"
  by (simp add: fl_def)

lemma fl_of_nat: "n < 2 ^ 53 \<Longrightarrow> fl (of_nat n) = of_nat n"
proof (cases "n = 0")
  case False
  assume n: "n < 2 ^ 53"
  let ?x = "of_nat n :: rat"
  have pos: "0 < ?x" using False by simp
  have "\<not> flog2 ?x < 0"
  proof
    assume "flog2 ?x < 0"
    then have "2 powi (flog2 ?x + 1) \<le> (2 powi 0 :: rat)" by (intro power_int_increasing) auto
    with flog2_bounds(2) [OF pos] False show False by simp
  qed
  moreover have "\<not> 53 \<le> flog2 ?x"
  proof
    assume "53 \<le> flog2 ?x"
    then have "2 powi 53 \<le> (2 powi flog2 ?x :: rat)" by (intro power_int_increasing) auto
    with flog2_bounds(1) [OF pos] have "2 ^ 53 \<le> ?x" by simp
    moreover have "?x < of_nat (2 ^ 53)" using n by (simp only: of_nat_less_iff)
    ultimately show False by simp
  qed
  ultimately have e: "0 \<le> flog2 ?x" "flog2 ?x \<le> 52" by auto
  then have lp: "last_place ?x = flog2 ?x - 52" by (simp add: last_place_def)
  then have "(2::rat) ^ nat (0 - last_place ?x) * 2 powi last_place ?x = 1"
    using powi_split [of "last_place ?x" 0] e by simp
  then have "?x = of_int (int n * 2 ^ nat (0 - last_place ?x)) * 2 powi last_place ?x"
    by (simp add: mult.assoc)
  then show ?thesis by (rule fl_exact)
qed simp

lemma fl_mono:
  assumes "0 \<le> x" and "x \<le> y"
  shows "fl x \<le> fl y"
proof (cases "x = 0 \<or> last_place x = last_place y")
  case True
  show ?thesis
  proof (cases "x = 0")
    case False
    with True have same: "last_place x = last_place y" and "y \<noteq> 0" using assms by auto
    moreover have "rnd_even (x / 2 powi last_place y) \<le> rnd_even (y / 2 powi last_place y)"
      using assms by (intro rnd_even_mono divide_right_mono) auto
    ultimately show ?thesis using False by (simp add: fl_def mult_right_mono)
  qed (use assms fl_nonneg in auto)
next
  case False
  then have pos: "0 < x" "0 < y" and ne: "last_place x \<noteq> last_place y" using assms by auto
  have "flog2 x \<le> flog2 y"
  proof (rule ccontr)
    assume "\<not> ?thesis"
    then have "2 powi (flog2 y + 1) \<le> (2 powi flog2 x :: rat)" by (intro power_int_increasing) auto
    with flog2_bounds [OF pos(1)] flog2_bounds [OF pos(2)] assms show False by linarith
  qed
  with ne pos have lt: "last_place x < last_place y" and ly: "last_place y = flog2 y - 52"
    and e: "flog2 x < flog2 y" by (auto simp: last_place_def max_def split: if_splits)
  let ?E = "2 powi flog2 y :: rat"
  have up: "fl x \<le> ?E"
  proof -
    have "x < 2 powi (flog2 x + 1)" by (rule flog2_bounds(2) [OF pos(1)])
    also have "\<dots> \<le> ?E" using e by (intro power_int_increasing) auto
    finally have "x \<le> ?E" by simp
    have E: "?E = of_int (2 ^ nat (flog2 y - last_place x)) * 2 powi last_place x"
      using lt ly powi_split [of "last_place x" "flog2 y"] by simp
    have "x / 2 powi last_place x \<le> of_int (2 ^ nat (flog2 y - last_place x))"
      using \<open>x \<le> ?E\<close> unfolding E by (simp add: pos_divide_le_eq)
    then have "rnd_even (x / 2 powi last_place x) \<le> 2 ^ nat (flog2 y - last_place x)"
      using rnd_even_mono rnd_even_of_int by metis
    then show ?thesis using pos unfolding E fl_def
      by (simp add: mult_right_mono del: of_int_power)
  qed
  have "?E \<le> fl y"
  proof -
    have E: "?E = of_int (2 ^ 52) * 2 powi last_place y"
      using powi_split [of "last_place y" "flog2 y"] unfolding ly by simp
    have "of_int (2 ^ 52) \<le> y / 2 powi last_place y"
      using flog2_bounds(1) [OF pos(2)] unfolding E by (simp add: pos_le_divide_eq)
    then have "2 ^ 52 \<le> rnd_even (y / 2 powi last_place y)"
      using rnd_even_mono rnd_even_of_int by metis
    then show ?thesis using pos unfolding E fl_def by (simp add: mult_right_mono del: of_int_power)
  qed
  with up show ?thesis by simp
qed

lemma fl_le_nat: "0 \<le> x \<Longrightarrow> x \<le> of_nat n \<Longrightarrow> n < 2 ^ 53 \<Longrightarrow> fl x \<le> of_nat n"
  using fl_mono [of x "of_nat n"] fl_of_nat [of n] by simp

lemma fl_ge_nat: "of_nat n \<le> x \<Longrightarrow> n < 2 ^ 53 \<Longrightarrow> of_nat n \<le> fl x"
  using fl_mono [of "of_nat n" x] fl_of_nat [of n] by simp

lemma u64_to_float_nonneg [simp]: "0 \<le> u64_to_float w"
  unfolding u64_to_float_def by (intro fl_nonneg of_nat_0_le_iff)

lemma u64_to_float_mono: "v \<le> w \<Longrightarrow> u64_to_float v \<le> u64_to_float w"
  unfolding u64_to_float_def word_le_nat_alt by (intro fl_mono of_nat_0_le_iff of_nat_mono)

lemma duration_to_float_mono: "0 \<le> d \<Longrightarrow> d \<le> e \<Longrightarrow> duration_to_float d \<le> duration_to_float e"
  by (simp add: duration_to_float_def fl_mono)

lemma flog2_less: "0 < x \<Longrightarrow> 0 < y \<Longrightarrow> flog2 x < flog2 y \<Longrightarrow> 2 powi (flog2 x + 1) \<le> y"
proof -
  assume "0 < x" "0 < y" "flog2 x < flog2 y"
  then have "2 powi (flog2 x + 1) \<le> (2 powi flog2 y :: rat)" by (intro power_int_increasing) auto
  with flog2_bounds(1) [OF \<open>0 < y\<close>] show ?thesis by linarith
qed

lemma flog2_le: "0 < y \<Longrightarrow> y \<le> 2 powi e \<Longrightarrow> flog2 y \<le> e"
proof (rule ccontr)
  assume "0 < y" "y \<le> 2 powi e" "\<not> flog2 y \<le> e"
  moreover from this have "(2 powi e :: rat) < 2 powi flog2 y" by (intro power_int_strict_increasing) auto
  ultimately show False using flog2_bounds(1) [OF \<open>0 < y\<close>] by linarith
qed

lemma last_place_cases:
  assumes "0 < x"
  obtains "last_place x = flog2 x - 52" "flog2 x \<ge> - 1022" | "last_place x = - 1074" "flog2 x < - 1022"
  using assms by (cases "flog2 x \<ge> - 1022") (auto simp: last_place_def)

text \<open>A rounded number is rounded to itself.\<close>

lemma fl_idem:
  assumes "0 \<le> x"
  shows "fl (fl x) = fl x"
proof (cases "x = 0 \<or> fl x = 0")
  case False
  define y where "y = fl x"
  define j where "j = rnd_even (x / 2 powi last_place x)"
  have y: "y = of_int j * 2 powi last_place x" using False by (simp add: y_def j_def fl_def)
  have pos: "0 < x" "0 < y" using False assms fl_nonneg [OF assms] by (auto simp: y_def)
  show ?thesis
  proof (cases "last_place y \<le> last_place x")
    case True
    then have "y = of_int (j * 2 ^ nat (last_place x - last_place y)) * 2 powi last_place y"
      using y powi_split [of "last_place y" "last_place x"] by simp
    then show ?thesis unfolding y_def [symmetric] by (rule fl_exact)
  next
    case less: False
    let ?e = "flog2 x + 1"
    have "flog2 x < flog2 y" using less
      by (cases rule: last_place_cases [OF pos(2)]; cases rule: last_place_cases [OF pos(1)]) auto
    then have low: "2 powi ?e \<le> y" using flog2_less pos by blast
    have le: "last_place x \<le> ?e"
    proof (rule ccontr)
      assume gt: "\<not> ?thesis"
      then have lp: "last_place x = - 1074" by (cases rule: last_place_cases [OF pos(1)]) auto
      let ?u = "2 powi last_place x :: rat"
      have "2 powi ?e \<le> ?u" using gt by (intro power_int_increasing) auto
      then have "x / ?u \<le> of_int 1" using flog2_bounds(2) [OF pos(1)] by simp
      then have "j \<le> 1" unfolding j_def using rnd_even_mono rnd_even_of_int by metis
      then have "of_int j * ?u \<le> 1 * ?u" by (intro mult_right_mono) auto
      then have "flog2 y \<le> - 1074" using flog2_le [OF pos(2)] unfolding y lp by simp
      then have "last_place y = - 1074" by (cases rule: last_place_cases [OF pos(2)]) auto
      with less lp show False by simp
    qed
    have E: "(2::rat) powi ?e = of_int (2 ^ nat (?e - last_place x)) * 2 powi last_place x"
      using powi_split [OF le] by simp
    have "x / 2 powi last_place x \<le> of_int (2 ^ nat (?e - last_place x))"
      using flog2_bounds(2) [OF pos(1)] unfolding E by (simp add: pos_divide_le_eq)
    then have "j \<le> 2 ^ nat (?e - last_place x)" unfolding j_def using rnd_even_mono rnd_even_of_int by metis
    then have "y \<le> 2 powi ?e" unfolding y E by (intro mult_right_mono) (auto simp del: of_int_power)
    with low have "y = 2 powi ?e" by simp
    moreover have "last_place y \<le> ?e"
    proof -
      have "flog2 y \<le> ?e" using flog2_le [OF pos(2)] \<open>y = 2 powi ?e\<close> by simp
      then show ?thesis using le less
        by (cases rule: last_place_cases [OF pos(2)]; cases rule: last_place_cases [OF pos(1)]) auto
    qed
    ultimately have "y = of_int (2 ^ nat (?e - last_place y)) * 2 powi last_place y"
      using powi_split [of "last_place y" ?e] by simp
    then show ?thesis unfolding y_def [symmetric] by (rule fl_exact)
  qed
qed auto

text \<open>The error of a rounding below 16.\<close>

lemma rnd_even_half: "\<bar>of_int (rnd_even y) - y\<bar> \<le> 1 / 2"
  using floor_correct [of y] by (auto simp: rnd_even_def Let_def abs_le_iff)

lemma fl_error:
  assumes "0 \<le> x" and "x < 16"
  shows "\<bar>fl x - x\<bar> \<le> 1 / 2 ^ 50"
proof (cases "x = 0")
  case False
  then have x: "0 < x" using assms by simp
  let ?u = "2 powi last_place x :: rat"
  have "flog2 x \<le> 3"
  proof (rule ccontr)
    assume "\<not> ?thesis"
    then have "2 powi 4 \<le> (2 powi flog2 x :: rat)" by (intro power_int_increasing) auto
    with flog2_bounds(1) [OF x] assms(2) show False by simp
  qed
  then have "?u \<le> 2 powi (-49)" using x by (intro power_int_increasing) (auto simp: last_place_def)
  also have "\<dots> = 1 / 2 ^ 49" by (simp add: power_int_minus)
  finally have u: "?u \<le> 1 / 2 ^ 49" .
  have "fl x - x = (of_int (rnd_even (x / ?u)) - x / ?u) * ?u" using False by (simp add: fl_def left_diff_distrib)
  then have "\<bar>fl x - x\<bar> = \<bar>of_int (rnd_even (x / ?u)) - x / ?u\<bar> * ?u" by (simp only: abs_mult) simp
  also have "\<dots> \<le> 1 / 2 * ?u" by (intro mult_right_mono rnd_even_half) auto
  finally show ?thesis using u by simp
qed simp

end
