(* ===== verification/Go_Print.thy ===== *)
theory Go_Print
  imports Go_Text Go_Float
begin

text \<open>
  What the program prints through \<open>fmt\<close> and \<open>strconv\<close>: decimal integers (\<open>%d\<close>,
  \<open>strconv.Itoa\<close>), quoted strings (\<open>%q\<close>) and floating-point numbers (\<open>%v\<close> and
  \<open>strconv.FormatFloat\<close> with format \<open>'g'\<close> and precision -1, which agree), with the readers
  that are their inverses. The lemmas show that a printed integer and a printed
  \<open>float64\<close> are read back exactly.
\<close>

section \<open>Integers\<close>

fun decimal :: "nat \<Rightarrow> string" where
  "decimal n = (if n < 10 then [char_of (48 + n)] else decimal (n div 10) @ [char_of (48 + n mod 10)])"

declare decimal.simps [simp del]

definition decimal_int :: "int \<Rightarrow> string" where
  "decimal_int i = (if i < 0 then ''-'' @ decimal (nat (- i)) else decimal (nat i))"

definition digit :: "char \<Rightarrow> nat" where
  "digit c = of_char c - 48"

definition is_digit :: "char \<Rightarrow> bool" where
  "is_digit c \<longleftrightarrow> 48 \<le> (of_char c :: nat) \<and> (of_char c :: nat) \<le> 57"

definition read_digits :: "string \<Rightarrow> nat" where
  "read_digits s = foldl (\<lambda>n c. n * 10 + digit c) 0 s"

definition read_int :: "string \<Rightarrow> int" where
  "read_int s = (if take 1 s = ''-'' then - int (read_digits (drop 1 s)) else int (read_digits s))"

lemma digit_char [simp]: "d < 10 \<Longrightarrow> digit (char_of (48 + d)) = d" "d < 10 \<Longrightarrow> is_digit (char_of (48 + d))"
  by (simp_all add: digit_def is_digit_def)

lemma read_digits_Nil [simp]: "read_digits [] = 0"
  by (simp add: read_digits_def)

lemma read_digits_snoc [simp]: "read_digits (s @ [c]) = read_digits s * 10 + digit c"
  by (simp add: read_digits_def)

lemma read_digits_append: "read_digits (s @ t) = read_digits s * 10 ^ length t + read_digits t"
proof (induction t rule: rev_induct)
  case (snoc c t)
  have "read_digits (s @ t @ [c]) = read_digits (s @ t) * 10 + digit c"
    using read_digits_snoc [of "s @ t" c] by simp
  with snoc show ?case by (simp add: algebra_simps)
qed simp

lemma read_digits_zeros: "read_digits (replicate n CHR ''0'') = 0"
  by (induction n) (simp_all add: read_digits_def digit_def)

lemma read_decimal_nat [simp]: "read_digits (decimal n) = n"
proof (induction n rule: decimal.induct)
  case (1 n)
  then show ?case
  proof (cases "n < 10")
    case True
    then show ?thesis using digit_char(1) [of n]
      by (simp add: decimal.simps [of n] read_digits_def)
  next
    case False
    have "read_digits (decimal n) = read_digits (decimal (n div 10)) * 10 + digit (char_of (48 + n mod 10))"
      using False by (simp add: decimal.simps [of n])
    also have "\<dots> = n" using 1 [OF False] digit_char(1) [of "n mod 10"] by simp
    finally show ?thesis .
  qed
qed

lemma decimal_digits: "\<forall>c \<in> set (decimal n). is_digit c"
proof (induction n rule: decimal.induct)
  case (1 n)
  then show ?case using digit_char(2) [of n] digit_char(2) [of "n mod 10"]
    by (cases "n < 10") (simp_all add: decimal.simps [of n])
qed

lemma decimal_nonempty [simp]: "decimal n \<noteq> []"
  by (simp add: decimal.simps [of n])

lemma decimal_inj: "decimal m = decimal n \<longleftrightarrow> m = n"
  by (metis read_decimal_nat)

lemma decimal_not: "\<not> is_digit c \<Longrightarrow> c \<notin> set (decimal n)"
  using decimal_digits by blast

lemma decimal_bounds: "n < 10 ^ length (decimal n)" "0 < n \<Longrightarrow> 10 ^ (length (decimal n) - 1) \<le> n"
proof (induction n rule: decimal.induct)
  case (1 n)
  {
    case 1
    then show ?case using "1.IH"(1) by (cases "n < 10") (auto simp: decimal.simps [of n])
  next
    case 2
    show ?case
    proof (cases "n < 10")
      case False
      then have "10 ^ (length (decimal (n div 10)) - 1) \<le> n div 10" by (intro "1.IH"(2)) auto
      then have "10 * 10 ^ (length (decimal (n div 10)) - 1) \<le> n" by linarith
      moreover have "length (decimal (n div 10)) \<noteq> 0" by simp
      ultimately show ?thesis using False
        by (simp add: decimal.simps [of n] flip: power_Suc)
    qed (use 2 in \<open>simp add: decimal.simps [of n]\<close>)
  }
qed

lemma decimal_int_inverse: "read_int (decimal_int i) = i"
proof (cases "i < 0")
  case False
  have "take 1 (decimal (nat i)) \<noteq> ''-''"
    using decimal_not [of "CHR ''-''" "nat i"] by (cases "decimal (nat i)") (auto simp: is_digit_def)
  with False show ?thesis by (simp add: decimal_int_def read_int_def)
qed (simp add: decimal_int_def read_int_def)

section \<open>Quoted strings\<close>

text \<open>
  The verb \<open>%q\<close>, as \<open>strconv.Quote\<close>: quotes and backslashes are escaped, control characters
  have their escapes. Bytes from 128 are those of printable code points and stand for
  themselves.
\<close>

definition hex_digit :: "nat \<Rightarrow> char" where
  "hex_digit d = (if d < 10 then char_of (48 + d) else char_of (87 + d))"

definition quote_char :: "char \<Rightarrow> string" where
  "quote_char c =
     (if c = CHR 0x22 \<or> c = CHR 0x5C then [CHR 0x5C, c]
      else if c = CHR 0x07 then CHR 0x5C # ''a''
      else if c = CHR 0x08 then CHR 0x5C # ''b''
      else if c = CHR 0x0C then CHR 0x5C # ''f''
      else if c = CHR 0x0A then CHR 0x5C # ''n''
      else if c = CHR 0x0D then CHR 0x5C # ''r''
      else if c = CHR 0x09 then CHR 0x5C # ''t''
      else if c = CHR 0x0B then CHR 0x5C # ''v''
      else if (of_char c :: nat) < 32 \<or> c = CHR 0x7F
        then CHR 0x5C # ''x'' @ [hex_digit (of_char c div 16), hex_digit (of_char c mod 16)]
      else [c])"

definition go_quote :: "string \<Rightarrow> string" where
  "go_quote s = [CHR 0x22] @ concat (map quote_char s) @ [CHR 0x22]"

section \<open>Floating-point numbers\<close>

text \<open>
  The shortest decimal: \<open>flog10 x\<close> is the decimal exponent of \<open>x\<close>; with \<open>n\<close> digits the
  candidates are the digits of \<open>x\<close> cut off and the next decimal up, and a candidate is
  accepted when it rounds to \<open>x\<close>. The result \<open>(d, k)\<close> stands for \<open>d * 10\<^sup>k\<close>. Seventeen
  digits are always enough (\<open>shortest_exact\<close>).
\<close>

definition flog10 :: "rat \<Rightarrow> int" where
  "flog10 x = (let (a, b) = quotient_of x; e = int (length (decimal (nat a))) - int (length (decimal (nat b)))
               in if 10 powi e \<le> x then e else e - 1)"

fun shortest_from :: "nat \<Rightarrow> int \<Rightarrow> rat \<Rightarrow> int \<times> int" where
  "shortest_from 0 k x = (rnd_even (x / 10 powi k), k)"
| "shortest_from (Suc more) k x =
     (let lo = \<lfloor>x / 10 powi k\<rfloor>;
          okdown = (fl (of_int lo * 10 powi k) = x);
          okup = (fl (of_int (lo + 1) * 10 powi k) = x)
      in if okdown \<and> okup then (rnd_even (x / 10 powi k), k)
         else if okdown then (lo, k)
         else if okup then (lo + 1, k)
         else shortest_from more (k - 1) x)"

definition shortest :: "rat \<Rightarrow> int \<times> int" where
  "shortest x = shortest_from 16 (flog10 x) x"

text \<open>Digits and the position of the decimal point, as \<open>decimalSlice\<close>; zero has no digits.\<close>

definition strip_zeros :: "string \<Rightarrow> string" where
  "strip_zeros s = rev (dropWhile (\<lambda>c. c = CHR ''0'') (rev s))"

definition float_digits :: "rat \<Rightarrow> string \<times> int" where
  "float_digits x =
     (if x = 0 then ([], 0)
      else let (d, k) = shortest x; ds = decimal (nat d) in (strip_zeros ds, int (length ds) + k))"

text \<open>\<open>%e\<close>: one digit, the others after a point, and an exponent of at least two digits.\<close>

definition fmtE :: "string \<Rightarrow> int \<Rightarrow> string" where
  "fmtE digs dp =
     (let e = dp - 1; ds = decimal (nat \<bar>e\<bar>) in
      take 1 digs @ (if length digs > 1 then ''.'' @ drop 1 digs else [])
      @ ''e'' @ (if e < 0 then ''-'' else ''+'') @ (if length ds < 2 then ''0'' @ ds else ds))"

text \<open>\<open>%f\<close>: the digits before the point, padded with zeros, and those after it.\<close>

definition fmtF :: "string \<Rightarrow> int \<Rightarrow> string" where
  "fmtF digs dp =
     (if dp > 0 then take (nat dp) digs @ replicate (nat dp - length digs) CHR ''0'' else ''0'')
     @ (if int (length digs) - dp > 0
        then ''.'' @ replicate (nat (- dp)) CHR ''0'' @ drop (nat dp) digs else [])"

definition format_abs :: "rat \<Rightarrow> string" where
  "format_abs x =
     (let (digs, dp) = float_digits x; e = dp - 1 in if e < -4 \<or> e \<ge> 6 then fmtE digs dp else fmtF digs dp)"

definition FormatFloat :: "rat \<Rightarrow> string" where
  "FormatFloat x = (if x < 0 then ''-'' @ format_abs (- x) else format_abs x)"

text \<open>The reader, as \<open>strconv.ParseFloat\<close> on the texts above without a sign.\<close>

definition cut_at :: "char \<Rightarrow> string \<Rightarrow> string \<times> string" where
  "cut_at c s = (takeWhile (\<lambda>x. x \<noteq> c) s, drop 1 (dropWhile (\<lambda>x. x \<noteq> c) s))"

definition read_exponent :: "string \<Rightarrow> int" where
  "read_exponent s = (if take 1 s = ''-'' then - int (read_digits (drop 1 s)) else int (read_digits (drop 1 s)))"

definition read_rat :: "string \<Rightarrow> rat" where
  "read_rat s =
     (let (m, e) = cut_at CHR ''e'' s; (whole, part) = cut_at CHR ''.'' m
      in of_nat (read_digits (whole @ part)) * 10 powi (read_exponent e - int (length part)))"

definition ParseFloat :: "string \<Rightarrow> float64" where
  "ParseFloat s = fl (read_rat s)"

definition is_float :: "rat \<Rightarrow> bool" where
  "is_float x \<longleftrightarrow> 0 \<le> x \<and> fl x = x"

subsection \<open>The shortest decimal rounds to the number\<close>

lemma powi10_pos [simp]: "(0::rat) < 10 powi e"
  by (simp add: zero_less_power_int)

lemma powi10_nat: "0 \<le> e \<Longrightarrow> (10::rat) powi e = of_nat (10 ^ nat e)"
  by (simp add: power_int_def)

lemma decimal_powi:
  assumes "0 < n"
  shows "10 powi (int (length (decimal n)) - 1) \<le> (of_nat n :: rat)" "(of_nat n :: rat) < 10 powi int (length (decimal n))"
proof -
  have "int (length (decimal n)) - 1 \<ge> 0" by (cases "decimal n") (auto dest: decimal_nonempty [THEN notE])
  moreover have "nat (int (length (decimal n)) - 1) = length (decimal n) - 1" by simp
  ultimately have "10 powi (int (length (decimal n)) - 1) = (of_nat (10 ^ (length (decimal n) - 1)) :: rat)"
    using powi10_nat by metis
  then show "10 powi (int (length (decimal n)) - 1) \<le> (of_nat n :: rat)"
    using decimal_bounds(2) [OF assms] by (simp only: of_nat_le_iff)
  show "(of_nat n :: rat) < 10 powi int (length (decimal n))"
    using decimal_bounds(1) [of n] powi10_nat [of "int (length (decimal n))"] by (simp only: of_nat_less_iff) simp
qed

lemma flog10_lower:
  assumes "0 < x"
  shows "10 powi flog10 x \<le> x"
proof -
  obtain a b where q: "quotient_of x = (a, b)" by (cases "quotient_of x")
  have b: "0 < b" using quotient_of_denom_pos [OF q] .
  have x: "x = of_int a / of_int b" using quotient_of_div [OF q] .
  have a: "0 < a" using assms b unfolding x by (simp add: zero_less_divide_iff)
  let ?la = "int (length (decimal (nat a)))" and ?lb = "int (length (decimal (nat b)))"
  have A: "10 powi (?la - 1) \<le> (of_int a :: rat)" using decimal_powi(1) [of "nat a"] a by simp
  have B: "(of_int b :: rat) < 10 powi ?lb" using decimal_powi(2) [of "nat b"] b by simp
  have "10 powi (?la - ?lb - 1) * of_int b \<le> 10 powi (?la - ?lb - 1) * (10 powi ?lb :: rat)"
    using B by (intro mult_left_mono) auto
  also have "\<dots> = 10 powi (?la - 1)" using power_int_add [of "10::rat" "?la - ?lb - 1" ?lb] by simp
  also have "\<dots> \<le> of_int a" by (rule A)
  finally have "10 powi (?la - ?lb - 1) \<le> x" using b unfolding x by (simp add: pos_le_divide_eq)
  then show ?thesis using q by (auto simp: flog10_def Let_def)
qed

lemma rnd_even_near:
  assumes "\<bar>y - of_int j\<bar> < 1 / 2"
  shows "rnd_even y = j"
proof -
  have "\<lfloor>y\<rfloor> = j \<or> \<lfloor>y\<rfloor> = j - 1" using assms by linarith
  then show ?thesis using assms by (auto simp: rnd_even_def Let_def)
qed

lemma fl_near:
  assumes "y \<noteq> 0" and "x = of_int j * 2 powi last_place y" and "\<bar>y - x\<bar> < 2 powi last_place y / 2"
  shows "fl y = x"
proof -
  let ?u = "2 powi last_place y :: rat"
  have "y / ?u - of_int j = (y - x) / ?u" by (simp add: assms(2) diff_divide_distrib)
  then have "\<bar>y / ?u - of_int j\<bar> = \<bar>y - x\<bar> / ?u" by (simp only: abs_divide) simp
  also have "\<dots> < 1 / 2" using assms(3) by (simp add: pos_divide_less_eq)
  finally have "rnd_even (y / ?u) = j" by (rule rnd_even_near)
  then show ?thesis using assms(1,2) by (simp add: fl_def)
qed

lemma is_float_multiple:
  assumes "is_float x" and "0 < x"
  obtains j where "x = of_int j * 2 powi last_place x"
  using assms by (metis is_float_def fl_def less_irrefl)

lemma last_place_bounds:
  assumes "0 < y"
  shows "y < 2 ^ 53 * 2 powi last_place y" "last_place y \<noteq> -1074 \<Longrightarrow> 2 ^ 52 * 2 powi last_place y \<le> y"
proof -
  have "y < 2 powi (flog2 y + 1)" by (rule flog2_bounds(2) [OF assms])
  also have "\<dots> \<le> 2 powi (53 + last_place y)"
    using assms by (intro power_int_increasing) (auto simp: last_place_def)
  also have "\<dots> = 2 ^ 53 * 2 powi last_place y" by (simp add: power_int_add)
  finally show "y < 2 ^ 53 * 2 powi last_place y" .
  assume "last_place y \<noteq> -1074"
  then have "last_place y = flog2 y - 52" using assms by (simp add: last_place_def max_def split: if_splits)
  then have "(2::rat) ^ 52 * 2 powi last_place y = 2 powi flog2 y"
    using power_int_add [of "2::rat" 52 "flog2 y - 52"] by simp
  then show "2 ^ 52 * 2 powi last_place y \<le> y" using flog2_bounds(1) [OF assms] by simp
qed

text \<open>A decimal within half a unit of the seventeenth digit rounds to the number.\<close>

lemma fl_absorbs:
  assumes x: "is_float x" "0 < x" and near: "\<bar>y - x\<bar> \<le> x / (2 * 10 ^ 16)"
  shows "fl y = x"
proof -
  obtain j where j: "x = of_int j * 2 powi last_place x" using is_float_multiple [OF x] .
  have near': "y - x \<le> x / (2 * 10 ^ 16)" "x - y \<le> x / (2 * 10 ^ 16)" using near by linarith+
  have y: "0 < y" using x(2) near'(2) by (simp add: field_simps)
  have close: "\<bar>y - x\<bar> < 2 powi last_place y / 2"
  proof -
    have "x < y * (1 + 1 / 10 ^ 16)" using near'(2) y by (simp add: field_simps)
    then have "x / (2 * 10 ^ 16) < y / 2 ^ 54" using y by (simp add: field_simps)
    also have "\<dots> < 2 powi last_place y / 2" using last_place_bounds(1) [OF y] by (simp add: field_simps)
    finally show ?thesis using near by linarith
  qed
  have "last_place y \<le> last_place x"
  proof (rule ccontr)
    assume less: "\<not> ?thesis"
    let ?u = "2 powi last_place x :: rat"
    have "last_place y \<noteq> -1074" using less by (simp add: last_place_def max_def split: if_splits)
    moreover have "2 * ?u \<le> 2 powi last_place y"
      using less power_int_increasing [of "last_place x + 1" "last_place y" "2::rat"] by (simp add: power_int_add)
    ultimately have "2 ^ 53 * ?u \<le> y" using last_place_bounds(2) [OF y] by simp
    moreover have "of_int j < (2 ^ 53 :: rat)"
      using last_place_bounds(1) [OF x(2)] mult_less_cancel_right_pos [of ?u "of_int j" "2 ^ 53"] j by simp
    then have "j < 2 ^ 53" by (metis of_int_less_iff of_int_numeral of_int_power)
    then have "of_int (j + 1) \<le> (of_int (2 ^ 53) :: rat)" by (simp only: of_int_le_iff)
    then have "(of_int j + 1) * ?u \<le> 2 ^ 53 * ?u" by (intro mult_right_mono) auto
    then have "x + ?u \<le> 2 ^ 53 * ?u" using j by (simp add: distrib_right)
    ultimately have "?u \<le> y - x" by linarith
    moreover have "x < 2 * 10 ^ 16 * ?u"
      using last_place_bounds(1) [OF x(2)] by (rule less_trans) simp
    then have "x / (2 * 10 ^ 16) < ?u" by (simp add: field_simps)
    ultimately show False using near'(1) by linarith
  qed
  then have "x = of_int (j * 2 ^ nat (last_place x - last_place y)) * 2 powi last_place y"
    using j powi_split [of "last_place y" "last_place x"] by simp
  from fl_near [OF _ this close] y show ?thesis by simp
qed


lemma shortest_from_exact:
  assumes x: "is_float x" "0 < x"
  shows "10 powi (k - int more + 16) \<le> x \<Longrightarrow> shortest_from more k x = (d, k') \<Longrightarrow>
    fl (of_int d * 10 powi k') = x \<and> 0 \<le> d"
proof (induction more arbitrary: k)
  case 0
  let ?p = "10 powi k :: rat"
  have d: "d = rnd_even (x / ?p)" "k' = k" using "0.prems"(2) by auto
  have "\<bar>of_int d - x / ?p\<bar> \<le> 1 / 2" unfolding d by (rule rnd_even_half)
  moreover have "of_int d * ?p - x = (of_int d - x / ?p) * ?p" by (simp add: left_diff_distrib)
  ultimately have "\<bar>of_int d * ?p - x\<bar> \<le> 1 / 2 * ?p"
    by (simp only: abs_mult) (intro mult_mono, auto)
  also have "\<dots> \<le> x / (2 * 10 ^ 16)"
    using "0.prems"(1) by (simp add: power_int_add field_simps)
  finally have "fl (of_int d * ?p) = x" by (rule fl_absorbs [OF x])
  moreover have "0 \<le> d" using rnd_even_mono [of 0 "x / ?p"] rnd_even_of_int [of 0] x(2) d by simp
  ultimately show ?case using d by simp
next
  case (Suc more)
  have lo: "0 \<le> \<lfloor>x / 10 powi k\<rfloor>" using x(2) by simp
  have mid: "rnd_even (x / 10 powi k) = \<lfloor>x / 10 powi k\<rfloor> \<or> rnd_even (x / 10 powi k) = \<lfloor>x / 10 powi k\<rfloor> + 1"
    by (simp add: rnd_even_def Let_def)
  have "10 powi (k - 1 - int more + 16) \<le> x" using Suc.prems(1) by (simp add: algebra_simps)
  from Suc.IH [OF this] show ?case using Suc.prems(2) lo mid
    by (auto simp: Let_def split: if_splits)
qed

lemma shortest_exact:
  assumes "is_float x" and "0 < x" and "shortest x = (d, k)"
  shows "fl (of_int d * 10 powi k) = x" "0 \<le> d"
  using shortest_from_exact [OF assms(1,2), of "flog10 x" 16 d k] flog10_lower [OF assms(2)] assms(3)
  by (simp_all add: shortest_def)

subsection \<open>Reading back what was printed\<close>

definition digits_value :: "string \<Rightarrow> int \<Rightarrow> rat" where
  "digits_value digs dp = of_nat (read_digits digs) * 10 powi (dp - int (length digs))"

lemma strip_zeros_split: "\<exists>n. s = strip_zeros s @ replicate n CHR ''0''"
proof -
  have "rev s = takeWhile (\<lambda>c. c = CHR ''0'') (rev s) @ dropWhile (\<lambda>c. c = CHR ''0'') (rev s)" by simp
  moreover have "takeWhile (\<lambda>c. c = CHR ''0'') t = replicate (length (takeWhile (\<lambda>c. c = CHR ''0'') t)) CHR ''0''" for t
    by (induction t) auto
  ultimately have "s = strip_zeros s @ rev (replicate (length (takeWhile (\<lambda>c. c = CHR ''0'') (rev s))) CHR ''0'')"
    by (metis rev_append rev_rev_ident strip_zeros_def)
  then show ?thesis by (metis rev_replicate)
qed

lemma strip_zeros_value: "digits_value (strip_zeros s) dp = digits_value s dp"
proof -
  obtain n where n: "s = strip_zeros s @ replicate n CHR ''0''" using strip_zeros_split by blast
  have "read_digits s = read_digits (strip_zeros s) * 10 ^ n"
    by (subst n) (simp add: read_digits_append read_digits_zeros)
  moreover have "length s = length (strip_zeros s) + n" by (subst n) simp
  ultimately show ?thesis
    using power_int_add [of "10::rat" "int n" "dp - int (length s)"]
    by (simp add: digits_value_def mult.assoc algebra_simps)
qed

lemma float_digits_value:
  assumes "is_float x" and "float_digits x = (digs, dp)"
  shows "fl (digits_value digs dp) = x"
proof (cases "x = 0")
  case False
  obtain d k where s: "shortest x = (d, k)" by (cases "shortest x")
  have "0 < x" using assms(1) False by (simp add: is_float_def)
  from shortest_exact [OF assms(1) this s]
  have v: "fl (of_int d * 10 powi k) = x" "0 \<le> d" by simp_all
  have "digs = strip_zeros (decimal (nat d))" "dp = int (length (decimal (nat d))) + k"
    using assms(2) False s by (auto simp: float_digits_def Let_def)
  then show ?thesis using v by (simp add: strip_zeros_value) (simp add: digits_value_def)
qed (use assms in \<open>simp add: float_digits_def digits_value_def\<close>)

lemma cut_at_none: "c \<notin> set s \<Longrightarrow> cut_at c s = (s, [])"
  by (induction s) (auto simp: cut_at_def)

lemma cut_at_mid: "c \<notin> set s \<Longrightarrow> cut_at c (s @ c # t) = (s, t)"
  by (induction s) (auto simp: cut_at_def)

definition numeral_text :: "string \<Rightarrow> bool" where
  "numeral_text s \<longleftrightarrow> (\<forall>c \<in> set s. is_digit c)"

lemma numeral_text_free: "numeral_text s \<Longrightarrow> CHR ''e'' \<notin> set s \<and> CHR ''.'' \<notin> set s"
  by (auto simp: numeral_text_def is_digit_def)

lemma numeral_text_simps [simp]:
  "numeral_text []" "numeral_text (c # s) \<longleftrightarrow> is_digit c \<and> numeral_text s"
  "numeral_text (s @ t) \<longleftrightarrow> numeral_text s \<and> numeral_text t" "numeral_text (decimal n)"
  by (auto simp: numeral_text_def decimal_digits)

lemma numeral_text_parts:
  "numeral_text s \<Longrightarrow> numeral_text (take n s)" "numeral_text s \<Longrightarrow> numeral_text (drop n s)"
  "numeral_text (replicate n CHR ''0'')"
  by (auto simp: numeral_text_def is_digit_def dest: in_set_takeD in_set_dropD)

lemma read_rat_plain:
  assumes "numeral_text whole" and "numeral_text part"
  shows "read_rat (whole @ (if part = [] then [] else ''.'' @ part))
    = of_nat (read_digits (whole @ part)) * 10 powi (- int (length part))"
proof -
  let ?m = "whole @ (if part = [] then [] else ''.'' @ part)"
  have "CHR ''e'' \<notin> set ?m" using assms by (auto dest: numeral_text_free)
  moreover have "cut_at CHR ''.'' ?m = (whole, part)"
    using assms cut_at_none [of "CHR ''.''" whole] cut_at_mid [of "CHR ''.''" whole part]
    by (auto dest: numeral_text_free)
  ultimately show ?thesis by (simp add: read_rat_def cut_at_none read_exponent_def)
qed

lemma read_rat_exp:
  assumes "numeral_text whole" and "numeral_text part"
  shows "read_rat (whole @ (if part = [] then [] else ''.'' @ part) @ CHR ''e'' # ex)
    = of_nat (read_digits (whole @ part)) * 10 powi (read_exponent ex - int (length part))"
proof -
  let ?m = "whole @ (if part = [] then [] else ''.'' @ part)"
  have "CHR ''e'' \<notin> set ?m" using assms by (auto dest: numeral_text_free)
  moreover have "cut_at CHR ''.'' ?m = (whole, part)"
    using assms cut_at_none [of "CHR ''.''" whole] cut_at_mid [of "CHR ''.''" whole part]
    by (auto dest: numeral_text_free)
  ultimately show ?thesis using cut_at_mid [of "CHR ''e''" ?m ex] by (simp add: read_rat_def)
qed

lemma read_digits_pad: "read_digits (CHR ''0'' # s) = read_digits s"
  by (simp add: read_digits_def digit_def)

lemma read_fmtE:
  assumes "numeral_text digs" and "digs \<noteq> []"
  shows "read_rat (fmtE digs dp) = digits_value digs dp"
proof -
  let ?ds = "decimal (nat \<bar>dp - 1\<bar>)"
  let ?ex = "(if dp - 1 < 0 then ''-'' else ''+'') @ (if length ?ds < 2 then ''0'' @ ?ds else ?ds)"
  have ex: "read_exponent ?ex = dp - 1" by (simp add: read_exponent_def read_digits_pad)
  have "(if length digs > 1 then ''.'' @ drop 1 digs else []) = (if drop 1 digs = [] then [] else ''.'' @ drop 1 digs)"
    by auto
  then have "fmtE digs dp = take 1 digs @ (if drop 1 digs = [] then [] else ''.'' @ drop 1 digs) @ CHR ''e'' # ?ex"
    by (simp add: fmtE_def Let_def)
  moreover have "dp - 1 - int (length (drop 1 digs)) = dp - int (length digs)"
    using assms(2) by (cases digs) auto
  ultimately show ?thesis
    using read_rat_exp [of "take 1 digs" "drop 1 digs" ?ex] assms(1) ex
    by (simp add: numeral_text_parts digits_value_def)
qed

lemma read_fmtF:
  assumes "numeral_text digs"
  shows "read_rat (fmtF digs dp) = digits_value digs dp"
proof -
  let ?n = "nat dp"
  let ?whole = "if dp > 0 then take ?n digs @ replicate (?n - length digs) CHR ''0'' else ''0''"
  let ?part = "replicate (nat (- dp)) CHR ''0'' @ drop ?n digs"
  have "(if int (length digs) - dp > 0 then ''.'' @ ?part else []) = (if ?part = [] then [] else ''.'' @ ?part)"
    by auto
  then have "fmtF digs dp = ?whole @ (if ?part = [] then [] else ''.'' @ ?part)" by (simp add: fmtF_def)
  moreover have "numeral_text ?whole" "numeral_text ?part"
    using assms by (auto simp: numeral_text_parts is_digit_def)
  ultimately have r: "read_rat (fmtF digs dp) = of_nat (read_digits (?whole @ ?part)) * 10 powi (- int (length ?part))"
    using read_rat_plain [of ?whole ?part] by simp
  show ?thesis
  proof (cases "dp > 0")
    case True
    then have "of_nat (read_digits (?whole @ ?part)) * 10 powi (- int (length ?part)) = digits_value digs dp"
      by (cases "length digs \<le> ?n")
        (simp_all add: digits_value_def read_digits_append read_digits_zeros power_int_def nat_diff_distrib)
    with r show ?thesis by simp
  next
    case False
    then have "read_digits (?whole @ ?part) = read_digits digs"
      by (simp add: read_digits_pad read_digits_append read_digits_zeros)
    with r False show ?thesis by (simp add: digits_value_def algebra_simps)
  qed
qed

lemma float_digits_numeral:
  assumes "float_digits x = (digs, dp)"
  shows "numeral_text digs"
proof -
  have "numeral_text (strip_zeros s)" if "numeral_text s" for s
    using that strip_zeros_split [of s] by (metis numeral_text_simps(3))
  then show ?thesis using assms by (auto simp: float_digits_def Let_def split: if_splits prod.splits)
qed

lemma FormatFloat_roundtrip: "is_float x \<Longrightarrow> ParseFloat (FormatFloat x) = x"
proof -
  assume x: "is_float x"
  obtain digs dp where d: "float_digits x = (digs, dp)" by (cases "float_digits x")
  have v: "fl (digits_value digs dp) = x" by (rule float_digits_value [OF x d])
  show ?thesis
  proof (cases "digs = []")
    case True
    then have "x = 0" using v by (simp add: digits_value_def)
    then show ?thesis by (simp add: FormatFloat_def format_abs_def float_digits_def fmtF_def ParseFloat_def read_rat_def cut_at_def
          read_digits_def digit_def)
  next
    case False
    with v d float_digits_numeral [OF d] x show ?thesis
      by (simp add: is_float_def FormatFloat_def format_abs_def ParseFloat_def Let_def read_fmtE read_fmtF)
  qed
qed

text \<open>The characters of a printed number.\<close>

definition number_char :: "char \<Rightarrow> bool" where
  "number_char c \<longleftrightarrow> is_digit c \<or> c \<in> {CHR ''.'', CHR ''e'', CHR ''+'', CHR ''-''}"

definition number_text :: "string \<Rightarrow> bool" where
  "number_text s \<longleftrightarrow> (\<forall>c \<in> set s. number_char c)"

lemma number_text_simps [simp]:
  "number_text []" "number_text (c # s) \<longleftrightarrow> number_char c \<and> number_text s"
  "number_text (s @ t) \<longleftrightarrow> number_text s \<and> number_text t"
  by (auto simp: number_text_def)

lemma number_text_numeral: "numeral_text s \<Longrightarrow> number_text s"
  by (simp add: numeral_text_def number_text_def number_char_def)

lemma number_text_if: "number_text (if b then s else t) \<longleftrightarrow> (if b then number_text s else number_text t)"
  by simp

lemma number_char_marks [simp]:
  "number_char CHR ''.''" "number_char CHR ''e''" "number_char CHR ''+''" "number_char CHR ''-''" "number_char CHR ''0''"
  by (simp_all add: number_char_def is_digit_def)

lemma format_abs_number: "number_text (format_abs x)"
proof -
  obtain digs dp where d: "float_digits x = (digs, dp)" by (cases "float_digits x")
  note numeral = float_digits_numeral [OF d]
  have "number_text (fmtE digs dp)"
    using numeral by (simp add: fmtE_def Let_def number_text_if number_text_numeral numeral_text_parts)
  moreover have "number_text (fmtF digs dp)"
    using numeral by (simp add: fmtF_def number_text_if number_text_numeral numeral_text_parts)
  ultimately show ?thesis using d by (simp add: format_abs_def Let_def)
qed

lemma FormatFloat_number: "number_text (FormatFloat x)"
  by (simp add: FormatFloat_def format_abs_number)

lemma decimal_number: "number_text (decimal n)" "number_text (decimal_int i)"
  by (simp_all add: decimal_int_def number_text_if number_text_numeral)

lemma quote_number_char: "number_char c \<Longrightarrow> quote_char c = [c]"
proof -
  assume "number_char c"
  then have n: "(of_char c :: nat) \<in> {43, 45, 46, 101} \<union> {48..57}"
    by (auto simp: number_char_def is_digit_def)
  then have "c \<notin> {CHR 0x22, CHR 0x5C, CHR 0x07, CHR 0x08, CHR 0x0C, CHR 0x0A, CHR 0x0D, CHR 0x09, CHR 0x0B, CHR 0x7F}"
    by auto
  with n show ?thesis by (auto simp: quote_char_def)
qed

lemma go_quote_number: "number_text s \<Longrightarrow> go_quote s = [CHR 0x22] @ s @ [CHR 0x22]"
proof -
  assume "number_text s"
  then have "concat (map quote_char s) = s" by (induction s) (simp_all add: quote_number_char)
  then show ?thesis by (simp add: go_quote_def)
qed

lemma number_text_free: "number_text s \<Longrightarrow> \<not> number_char c \<Longrightarrow> c \<notin> set s"
  by (auto simp: number_text_def)

end
