(* ===== verification/Service_Config.thy ===== *)
theory Service_Config
  imports Go_Errors Go_Print "HOL-Library.AList"
begin

text \<open>
  The configuration file, \<open>internal/config/config.go\<close>: the walk over the YAML nodes, the
  credential sources and the checks of the TLS settings.

  The YAML decoder is a third-party package and a parameter, as are the file system and the
  process environment; a node is what the decoder returns, with its kind, its value and its
  content. A Go map built from a mapping node is an association list with distinct keys.
  The order in which \<open>range\<close> visits such a map is a parameter too. Reading past the end of
  a mapping's content is a panic.
\<close>

section \<open>Data\<close>

record TLS =
  tls_CACert :: string
  tls_Cert :: string
  tls_Key :: string

record Source =
  src_Host :: string
  src_Port :: int
  src_SSLMode :: string
  src_Username :: string
  src_Password :: string
  src_DBName :: string
  src_TLS :: TLS

record Config =
  cfg_Source :: Source

datatype credentialSourceKind = credentialSourceValue | credentialSourceEnvRef | credentialSourceSecretFile

record credentialSource =
  crs_kind :: "credentialSourceKind option"
  crs_payload :: string

definition SSLModeDisable :: string where "SSLModeDisable = ''disable''"
definition SSLModeAllow :: string where "SSLModeAllow = ''allow''"
definition SSLModePrefer :: string where "SSLModePrefer = ''prefer''"
definition SSLModeRequire :: string where "SSLModeRequire = ''require''"
definition SSLModeVerifyCA :: string where "SSLModeVerifyCA = ''verify-ca''"
definition SSLModeVerifyFull :: string where "SSLModeVerifyFull = ''verify-full''"

lemmas sslmode_defs = SSLModeDisable_def SSLModeAllow_def SSLModePrefer_def SSLModeRequire_def
  SSLModeVerifyCA_def SSLModeVerifyFull_def

datatype yamlKind = DocumentNode | SequenceNode | MappingNode | ScalarNode | AliasNode

datatype yamlNode = Node (Kind: yamlKind) (Value: string) (Content: "yamlNode list")

type_synonym fields = "(string \<times> yamlNode) list"

text \<open>What the file system, the environment and \<open>range\<close> over a map give.\<close>

record host =
  os_ReadFile :: "string \<Rightarrow> goerror + string"
  os_LookupEnv :: "string \<Rightarrow> string option"
  map_range :: "string list \<Rightarrow> string list"

text \<open>A result of a function that returns an error or panics.\<close>

datatype 'a result = Ok 'a | Err goerror | Panic

fun bindR :: "'a result \<Rightarrow> ('a \<Rightarrow> 'b result) \<Rightarrow> 'b result" where
  "bindR (Ok x) f = f x"
| "bindR (Err e) f = Err e"
| "bindR Panic f = Panic"

fun wrapR :: "string \<Rightarrow> 'a result \<Rightarrow> 'a result" where
  "wrapR label (Ok x) = Ok x"
| "wrapR label (Err e) = Err (Wrap label e)"
| "wrapR label Panic = Panic"

definition guardR :: "goerror option \<Rightarrow> unit result" where
  "guardR err = (case err of None \<Rightarrow> Ok () | Some e \<Rightarrow> Err e)"

section \<open>Library functions\<close>

text \<open>\<open>strconv.Atoi\<close>: an optional sign and digits, in the range of \<open>int\<close>.\<close>

definition num_error :: "string \<Rightarrow> string \<Rightarrow> goerror" where
  "num_error s reason = Errorf (''strconv.Atoi: parsing '' @ go_quote s @ '': '' @ reason)"

definition Atoi :: "string \<Rightarrow> int result" where
  "Atoi s =
     (let ds = (if take 1 s = ''-'' \<or> take 1 s = ''+'' then drop 1 s else s);
          n = (if take 1 s = ''-'' then - int (read_digits ds) else int (read_digits ds))
      in if ds = [] \<or> \<not> list_all is_digit ds then Err (num_error s ''invalid syntax'')
         else if \<not> in_i64 n then Err (num_error s ''value out of range'')
         else Ok n)"

text \<open>\<open>strings.TrimRight(s, cutset)\<close>.\<close>

definition TrimRight :: "string \<Rightarrow> char set \<Rightarrow> string" where
  "TrimRight s cutset = rev (dropWhile (\<lambda>c. c \<in> cutset) (rev s))"

section \<open>config.go\<close>

fun fields_loop :: "fields \<Rightarrow> yamlNode list \<Rightarrow> fields result" where
  "fields_loop fs [] = Ok fs"
| "fields_loop fs [k] = Panic"
| "fields_loop fs (k # v # rest) = fields_loop (AList.update (Value k) v fs) rest"

definition requiredMapping :: "yamlNode \<Rightarrow> string \<Rightarrow> fields result" where
  "requiredMapping node fieldPath =
     (if Kind node \<noteq> MappingNode then Err (Errorf (fieldPath @ '' must be a mapping object''))
      else fields_loop [] (Content node))"

fun unknown_loop :: "string \<Rightarrow> string list \<Rightarrow> string list \<Rightarrow> goerror option" where
  "unknown_loop fieldPath allowed [] = None"
| "unknown_loop fieldPath allowed (key # keys) =
     (if key \<notin> set allowed then Some (Errorf (fieldPath @ '' has unknown field '' @ go_quote key))
      else unknown_loop fieldPath allowed keys)"

definition rejectUnknownFields :: "host \<Rightarrow> fields \<Rightarrow> string \<Rightarrow> string list \<Rightarrow> goerror option" where
  "rejectUnknownFields os fs fieldPath allowedKeys = unknown_loop fieldPath allowedKeys (map_range os (map fst fs))"

definition requiredScalarString :: "yamlNode \<Rightarrow> string \<Rightarrow> string result" where
  "requiredScalarString node fieldPath =
     (if Kind node \<noteq> ScalarNode then Err (Errorf (fieldPath @ '' must be a string''))
      else if Value node = [] then Err (Errorf (fieldPath @ '' must not be empty''))
      else Ok (Value node))"

definition optionalPathStringField :: "yamlNode option \<Rightarrow> string \<Rightarrow> string result" where
  "optionalPathStringField node fieldPath =
     (case node of
        None \<Rightarrow> Ok []
      | Some n \<Rightarrow>
          bindR (requiredScalarString n fieldPath) (\<lambda>value.
            if strings_Contains value [CHR 0x0A] \<or> strings_Contains value [CHR 0x0D]
            then Err (Errorf (fieldPath @ '' must be a file path string, not inline content''))
            else Ok value))"

definition requiredStringField :: "fields \<Rightarrow> string \<Rightarrow> string \<Rightarrow> string result" where
  "requiredStringField fs fieldPath key =
     (case map_of fs key of
        None \<Rightarrow> Err (Errorf (fieldPath @ '' is required''))
      | Some node \<Rightarrow> requiredScalarString node fieldPath)"

definition requiredSSLModeField :: "fields \<Rightarrow> string \<Rightarrow> string \<Rightarrow> string result" where
  "requiredSSLModeField fs fieldPath key =
     (case map_of fs key of
        None \<Rightarrow> Err (Errorf (fieldPath @ '' is required''))
      | Some node \<Rightarrow>
          bindR (requiredScalarString node fieldPath) (\<lambda>value.
            if value \<in> {SSLModeDisable, SSLModeAllow, SSLModePrefer, SSLModeRequire, SSLModeVerifyCA, SSLModeVerifyFull}
            then Ok value
            else Err (Errorf (fieldPath @ '' must be one of disable, allow, prefer, require, verify-ca, or verify-full''))))"

definition requiredPortField :: "fields \<Rightarrow> string \<Rightarrow> string \<Rightarrow> int result" where
  "requiredPortField fs fieldPath key =
     (case map_of fs key of
        None \<Rightarrow> Err (Errorf (fieldPath @ '' is required''))
      | Some node \<Rightarrow>
          (if Kind node \<noteq> ScalarNode then Err (Errorf (fieldPath @ '' must be an integer''))
           else
             bindR (wrapR (fieldPath @ '' must be an integer'') (Atoi (Value node))) (\<lambda>port.
               if port < 1 \<or> port > 65535 then Err (Errorf (fieldPath @ '' must be between 1 and 65535''))
               else Ok port)))"

definition readSecretFile :: "host \<Rightarrow> string \<Rightarrow> string \<Rightarrow> string result" where
  "readSecretFile os field path =
     (case os_ReadFile os path of
        Inl err \<Rightarrow> Err (Wrap (field @ '' read secret-file '' @ go_quote path) err)
      | Inr bytes \<Rightarrow>
          (let value = TrimRight bytes {CHR 0x0D, CHR 0x0A} in
           if value = [] then Err (Errorf (field @ '' secret-file '' @ go_quote path @ '' resolved empty value''))
           else Ok value))"

definition resolveCredentialSource :: "host \<Rightarrow> string \<Rightarrow> credentialSource \<Rightarrow> string result" where
  "resolveCredentialSource os field source =
     (case crs_kind source of
        Some credentialSourceValue \<Rightarrow> Ok (crs_payload source)
      | Some credentialSourceEnvRef \<Rightarrow>
          (case os_LookupEnv os (crs_payload source) of
             None \<Rightarrow> Err (Errorf (field @ '' env-ref '' @ go_quote (crs_payload source) @ '' is not set''))
           | Some value \<Rightarrow>
               (if value = [] then Err (Errorf (field @ '' env-ref '' @ go_quote (crs_payload source) @ '' resolved empty value''))
                else Ok value))
      | Some credentialSourceSecretFile \<Rightarrow> readSecretFile os field (crs_payload source)
      | None \<Rightarrow> Err (Errorf (field @ '' has unsupported credential source '' @ go_quote [])))"

text \<open>One of the three blocks that read a mode of a credential: the count and the source.\<close>

definition credential_mode ::
  "fields \<Rightarrow> string \<Rightarrow> string \<Rightarrow> credentialSourceKind \<Rightarrow> int \<times> credentialSource \<Rightarrow> (int \<times> credentialSource) result" where
  "credential_mode fs field key kind acc =
     (case map_of fs key of
        None \<Rightarrow> Ok acc
      | Some node \<Rightarrow>
          bindR (requiredScalarString node (field @ ''.'' @ key)) (\<lambda>value.
            Ok (fst acc + 1, \<lparr>crs_kind = Some kind, crs_payload = value\<rparr>)))"

definition parseCredentialSource :: "host \<Rightarrow> string \<Rightarrow> yamlNode \<Rightarrow> credentialSource result" where
  "parseCredentialSource os field node =
     bindR (requiredMapping node field) (\<lambda>fs.
     bindR (guardR (rejectUnknownFields os fs field [''value'', ''env-ref'', ''secret-file''])) (\<lambda>_.
     bindR (credential_mode fs field ''value'' credentialSourceValue (0, \<lparr>crs_kind = None, crs_payload = []\<rparr>)) (\<lambda>acc.
     bindR (credential_mode fs field ''env-ref'' credentialSourceEnvRef acc) (\<lambda>acc.
     bindR (credential_mode fs field ''secret-file'' credentialSourceSecretFile acc) (\<lambda>acc.
       if fst acc \<noteq> 1 then Err (Errorf (field @ '' must set exactly one of value, env-ref, or secret-file''))
       else Ok (snd acc))))))"

definition requiredCredentialField :: "host \<Rightarrow> fields \<Rightarrow> string \<Rightarrow> string \<Rightarrow> string result" where
  "requiredCredentialField os fs fieldPath key =
     (case map_of fs key of
        None \<Rightarrow> Err (Errorf (fieldPath @ '' is required''))
      | Some node \<Rightarrow>
          bindR (parseCredentialSource os fieldPath node) (resolveCredentialSource os fieldPath))"

definition optionalTLSField :: "host \<Rightarrow> yamlNode option \<Rightarrow> TLS result" where
  "optionalTLSField os node =
     (case node of
        None \<Rightarrow> Ok \<lparr>tls_CACert = [], tls_Cert = [], tls_Key = []\<rparr>
      | Some n \<Rightarrow>
          bindR (requiredMapping n ''source.tls'') (\<lambda>fs.
          bindR (guardR (rejectUnknownFields os fs ''source.tls'' [''ca_cert'', ''cert'', ''key''])) (\<lambda>_.
          bindR (optionalPathStringField (map_of fs ''ca_cert'') ''source.tls.ca_cert'') (\<lambda>caCert.
          bindR (optionalPathStringField (map_of fs ''cert'') ''source.tls.cert'') (\<lambda>cert.
          bindR (optionalPathStringField (map_of fs ''key'') ''source.tls.key'') (\<lambda>key.
            Ok \<lparr>tls_CACert = caCert, tls_Cert = cert, tls_Key = key\<rparr>))))))"

definition validateSourceTLS :: "string \<Rightarrow> TLS \<Rightarrow> goerror option" where
  "validateSourceTLS sslMode tls =
     (if sslMode = SSLModeDisable \<and> tls_CACert tls \<noteq> []
        then Some (Errorf ''source.tls.ca_cert must not be set when source.sslmode is disable'')
      else if sslMode = SSLModeDisable \<and> tls_Cert tls \<noteq> []
        then Some (Errorf ''source.tls.cert must not be set when source.sslmode is disable'')
      else if sslMode = SSLModeDisable \<and> tls_Key tls \<noteq> []
        then Some (Errorf ''source.tls.key must not be set when source.sslmode is disable'')
      else if tls_Cert tls = [] \<and> tls_Key tls \<noteq> []
        then Some (Errorf ''source.tls.cert is required when source.tls.key is set'')
      else if tls_Key tls = [] \<and> tls_Cert tls \<noteq> []
        then Some (Errorf ''source.tls.key is required when source.tls.cert is set'')
      else None)"

definition parseSource :: "host \<Rightarrow> yamlNode \<Rightarrow> Source result" where
  "parseSource os node =
     bindR (requiredMapping node ''source'') (\<lambda>fs.
     bindR (guardR (rejectUnknownFields os fs ''source''
       [''host'', ''port'', ''sslmode'', ''username'', ''password'', ''dbname'', ''tls''])) (\<lambda>_.
     bindR (requiredStringField fs ''source.host'' ''host'') (\<lambda>host.
     bindR (requiredPortField fs ''source.port'' ''port'') (\<lambda>port.
     bindR (requiredSSLModeField fs ''source.sslmode'' ''sslmode'') (\<lambda>sslMode.
     bindR (requiredCredentialField os fs ''source.username'' ''username'') (\<lambda>username.
     bindR (requiredCredentialField os fs ''source.password'' ''password'') (\<lambda>password.
     bindR (requiredStringField fs ''source.dbname'' ''dbname'') (\<lambda>dbName.
     bindR (optionalTLSField os (map_of fs ''tls'')) (\<lambda>tls.
     bindR (guardR (validateSourceTLS sslMode tls)) (\<lambda>_.
       Ok \<lparr>src_Host = host, src_Port = port, src_SSLMode = sslMode, src_Username = username,
           src_Password = password, src_DBName = dbName, src_TLS = tls\<rparr>))))))))))"

definition parseConfigDocument :: "host \<Rightarrow> yamlNode \<Rightarrow> Config result" where
  "parseConfigDocument os document =
     (if Kind document \<noteq> DocumentNode \<or> length (Content document) \<noteq> 1
      then Err (Errorf ''config must contain exactly one YAML document'')
      else
        bindR (requiredMapping (Content document ! 0) ''config'') (\<lambda>rootFields.
        bindR (guardR (rejectUnknownFields os rootFields ''config'' [''source''])) (\<lambda>_.
          case map_of rootFields ''source'' of
            None \<Rightarrow> Err (Errorf ''config.source is required'')
          | Some sourceNode \<Rightarrow>
              bindR (parseSource os sourceNode) (\<lambda>source. Ok \<lparr>cfg_Source = source\<rparr>))))"

text \<open>\<open>Decode\<close> of the YAML decoder reads the next document and leaves the rest.\<close>

definition Load :: "(string \<Rightarrow> (goerror + yamlNode) \<times> string) \<Rightarrow> host \<Rightarrow> string \<Rightarrow> Config result" where
  "Load yaml_Decode os path =
     (case os_ReadFile os path of
        Inl err \<Rightarrow> Err (Wrap (''read config file '' @ go_quote path) err)
      | Inr bytes \<Rightarrow>
          (case fst (yaml_Decode bytes) of
             Inl err \<Rightarrow> Err (Wrap (''decode config file '' @ go_quote path) err)
           | Inr document \<Rightarrow>
               wrapR (''validate config file '' @ go_quote path) (parseConfigDocument os document)))"

section \<open>Automation\<close>

lemma bindR_eq_Ok [simp]: "bindR r f = Ok y \<longleftrightarrow> (\<exists>x. r = Ok x \<and> f x = Ok y)"
  by (cases r) auto

lemma bindR_eq_Panic: "bindR r f = Panic \<longleftrightarrow> r = Panic \<or> (\<exists>x. r = Ok x \<and> f x = Panic)"
  by (cases r) auto

lemma wrapR_eq_Ok [simp]: "wrapR label r = Ok x \<longleftrightarrow> r = Ok x"
  by (cases r) auto

lemma wrapR_eq_Panic [simp]: "wrapR label r = Panic \<longleftrightarrow> r = Panic"
  by (cases r) auto

lemma guardR_eq_Ok [simp]: "guardR err = Ok u \<longleftrightarrow> err = None"
  by (simp add: guardR_def split: option.split)

lemma guardR_eq_Panic [simp]: "guardR err \<noteq> Panic"
  by (simp add: guardR_def split: option.split)

lemma if_Ok [simp]:
  "(if b then Err e else Ok x) = Ok y \<longleftrightarrow> \<not> b \<and> x = y"
  "(if b then Ok x else Err e) = Ok y \<longleftrightarrow> b \<and> x = y"
  "(if b then Err e else r) = Ok y \<longleftrightarrow> \<not> b \<and> r = Ok y"
  by auto

lemma Contains_char [simp]: "strings_Contains s [c] \<longleftrightarrow> c \<in> set s"
  by (auto simp: strings_Contains_iff in_set_conv_decomp)

section \<open>What a configuration file means\<close>

text \<open>
  The documents the service accepts, said once and without an order of checks: a mapping is the
  finite map of its pairs, the last pair of a key wins, and nothing but the named keys may occur.
\<close>

fun pairs :: "yamlNode list \<Rightarrow> fields" where
  "pairs (k # v # rest) = (Value k, v) # pairs rest"
| "pairs _ = []"

definition mapping_spec :: "string set \<Rightarrow> yamlNode \<Rightarrow> (string \<rightharpoonup> yamlNode) \<Rightarrow> bool" where
  "mapping_spec keys node m \<longleftrightarrow>
     Kind node = MappingNode \<and> even (length (Content node)) \<and> m = map_of (rev (pairs (Content node))) \<and> dom m \<subseteq> keys"

definition scalar_spec :: "(string \<rightharpoonup> yamlNode) \<Rightarrow> string \<Rightarrow> string \<Rightarrow> bool" where
  "scalar_spec m key v \<longleftrightarrow> v \<noteq> [] \<and> (\<exists>children. m key = Some (Node ScalarNode v children))"

definition credential_spec :: "host \<Rightarrow> (string \<rightharpoonup> yamlNode) \<Rightarrow> string \<Rightarrow> string \<Rightarrow> bool" where
  "credential_spec os m key v \<longleftrightarrow>
     v \<noteq> [] \<and>
     (\<exists>node c mode text. m key = Some node \<and> mapping_spec {mode} node c \<and> scalar_spec c mode text \<and>
        (mode = ''value'' \<and> v = text \<or>
         mode = ''env-ref'' \<and> os_LookupEnv os text = Some v \<or>
         mode = ''secret-file'' \<and> (\<exists>bytes. os_ReadFile os text = Inr bytes \<and> v = TrimRight bytes {CHR 0x0D, CHR 0x0A})))"

definition path_spec :: "(string \<rightharpoonup> yamlNode) \<Rightarrow> string \<Rightarrow> string \<Rightarrow> bool" where
  "path_spec m key v \<longleftrightarrow>
     (if key \<in> dom m then scalar_spec m key v \<and> CHR 0x0A \<notin> set v \<and> CHR 0x0D \<notin> set v else v = [])"

definition tls_spec :: "(string \<rightharpoonup> yamlNode) \<Rightarrow> TLS \<Rightarrow> bool" where
  "tls_spec m tls \<longleftrightarrow>
     (\<exists>t. (case m ''tls'' of None \<Rightarrow> t = Map.empty | Some node \<Rightarrow> mapping_spec {''ca_cert'', ''cert'', ''key''} node t) \<and>
        path_spec t ''ca_cert'' (tls_CACert tls) \<and> path_spec t ''cert'' (tls_Cert tls) \<and> path_spec t ''key'' (tls_Key tls))"

definition sslmodes :: "string set" where
  "sslmodes = {SSLModeDisable, SSLModeAllow, SSLModePrefer, SSLModeRequire, SSLModeVerifyCA, SSLModeVerifyFull}"

definition port_spec :: "(string \<rightharpoonup> yamlNode) \<Rightarrow> int \<Rightarrow> bool" where
  "port_spec m port \<longleftrightarrow> 1 \<le> port \<and> port \<le> 65535 \<and> (\<exists>v. scalar_spec m ''port'' v \<and> Atoi v = Ok port)"

definition tls_consistent :: "string \<Rightarrow> TLS \<Rightarrow> bool" where
  "tls_consistent mode tls \<longleftrightarrow>
     (mode = SSLModeDisable \<longrightarrow> tls = \<lparr>tls_CACert = [], tls_Cert = [], tls_Key = []\<rparr>) \<and>
     (tls_Cert tls = [] \<longleftrightarrow> tls_Key tls = [])"

definition source_spec :: "host \<Rightarrow> yamlNode \<Rightarrow> Source \<Rightarrow> bool" where
  "source_spec os node source \<longleftrightarrow>
     (\<exists>m. mapping_spec {''host'', ''port'', ''sslmode'', ''username'', ''password'', ''dbname'', ''tls''} node m \<and>
        scalar_spec m ''host'' (src_Host source) \<and> port_spec m (src_Port source) \<and>
        scalar_spec m ''sslmode'' (src_SSLMode source) \<and> src_SSLMode source \<in> sslmodes \<and>
        credential_spec os m ''username'' (src_Username source) \<and>
        credential_spec os m ''password'' (src_Password source) \<and>
        scalar_spec m ''dbname'' (src_DBName source) \<and>
        tls_spec m (src_TLS source) \<and> tls_consistent (src_SSLMode source) (src_TLS source))"

definition document_spec :: "host \<Rightarrow> yamlNode \<Rightarrow> Config \<Rightarrow> bool" where
  "document_spec os document cfg \<longleftrightarrow>
     (\<exists>root m node. Kind document = DocumentNode \<and> Content document = [root] \<and>
        mapping_spec {''source''} root m \<and> m ''source'' = Some node \<and> source_spec os node (cfg_Source cfg))"

text \<open>What Go promises of \<open>range\<close> over a map: every key is visited, in some order.\<close>

definition visits_all :: "host \<Rightarrow> bool" where
  "visits_all os \<longleftrightarrow> (\<forall>ks. set (map_range os ks) = set ks)"

section \<open>The parser accepts what the specification says\<close>

lemma fields_loop_Ok:
  "fields_loop fs ns = Ok gs \<Longrightarrow> even (length ns) \<and> map_of gs = map_of fs ++ map_of (rev (pairs ns))"
  by (induction fs ns rule: fields_loop.induct) (auto simp: update_conv' map_add_def fun_eq_iff split: option.splits)

lemma fields_loop_total: "even (length ns) \<Longrightarrow> \<exists>gs. fields_loop fs ns = Ok gs"
  by (induction fs ns rule: fields_loop.induct) auto

lemma fields_loop_not_Err: "fields_loop fs ns \<noteq> Err e"
  by (induction fs ns rule: fields_loop.induct) auto

lemma unknown_loop_None [simp]: "unknown_loop path allowed ks = None \<longleftrightarrow> set ks \<subseteq> set allowed"
  by (induction ks) auto

lemma rejectUnknownFields_None:
  assumes "visits_all os"
  shows "rejectUnknownFields os fs path allowed = None \<longleftrightarrow> dom (map_of fs) \<subseteq> set allowed"
  using assms by (simp add: rejectUnknownFields_def visits_all_def dom_map_of_conv_image_fst)

text \<open>A checked mapping is a map of the specification; the association list behind it is only read through \<open>map_of\<close>.\<close>

lemma checked_mapping:
  assumes "visits_all os"
  shows "(\<exists>fs. requiredMapping node path = Ok fs \<and> rejectUnknownFields os fs path allowed = None \<and> P (map_of fs))
    \<longleftrightarrow> (\<exists>m. mapping_spec (set allowed) node m \<and> P m)"
proof -
  have "(\<exists>fs. fields_loop [] (Content node) = Ok fs \<and> dom (map_of fs) \<subseteq> set allowed \<and> P (map_of fs))
    \<longleftrightarrow> even (length (Content node)) \<and> dom (map_of (rev (pairs (Content node)))) \<subseteq> set allowed
        \<and> P (map_of (rev (pairs (Content node))))"
    using fields_loop_Ok [of "[]" "Content node"] fields_loop_total [of "Content node" "[]"] by fastforce
  then show ?thesis
    by (auto simp: requiredMapping_def mapping_spec_def rejectUnknownFields_None [OF assms])
qed

lemma requiredScalarString_Ok [simp]:
  "requiredScalarString node path = Ok v \<longleftrightarrow> v \<noteq> [] \<and> (\<exists>children. node = Node ScalarNode v children)"
  by (cases node) (auto simp: requiredScalarString_def)

lemma requiredStringField_Ok: "requiredStringField fs path key = Ok v \<longleftrightarrow> scalar_spec (map_of fs) key v"
  by (auto simp: requiredStringField_def scalar_spec_def split: option.splits)

lemma requiredSSLModeField_Ok:
  "requiredSSLModeField fs path key = Ok v \<longleftrightarrow> scalar_spec (map_of fs) key v \<and> v \<in> sslmodes"
  by (cases "map_of fs key") (auto simp: requiredSSLModeField_def scalar_spec_def simp flip: sslmodes_def)

lemma Atoi_Nil [simp]: "Atoi [] \<noteq> Ok n"
  by (simp add: Atoi_def)

lemma requiredPortField_Ok: "requiredPortField fs path ''port'' = Ok port \<longleftrightarrow> port_spec (map_of fs) port"
proof (cases "map_of fs ''port''")
  case (Some node)
  then show ?thesis
    by (cases node) (auto simp: requiredPortField_def port_spec_def scalar_spec_def)
qed (simp add: requiredPortField_def port_spec_def scalar_spec_def)

lemma optionalPathStringField_Ok:
  "optionalPathStringField (m key) path = Ok v \<longleftrightarrow> path_spec m key v"
  by (cases "m key") (auto simp: optionalPathStringField_def path_spec_def scalar_spec_def dom_def)

text \<open>The three blocks count the modes that are set; exactly one of them survives the count.\<close>

definition mode_spec :: "(string \<rightharpoonup> yamlNode) \<Rightarrow> credentialSource \<Rightarrow> bool" where
  "mode_spec m source \<longleftrightarrow>
     (\<exists>mode text. dom m \<subseteq> {mode} \<and> scalar_spec m mode text \<and>
        (mode = ''value'' \<and> source = \<lparr>crs_kind = Some credentialSourceValue, crs_payload = text\<rparr> \<or>
         mode = ''env-ref'' \<and> source = \<lparr>crs_kind = Some credentialSourceEnvRef, crs_payload = text\<rparr> \<or>
         mode = ''secret-file'' \<and> source = \<lparr>crs_kind = Some credentialSourceSecretFile, crs_payload = text\<rparr>))"

lemma credential_mode_Ok:
  "credential_mode fs field key kind acc = Ok acc' \<longleftrightarrow>
     (if key \<in> dom (map_of fs)
      then \<exists>text. scalar_spec (map_of fs) key text \<and> acc' = (fst acc + 1, \<lparr>crs_kind = Some kind, crs_payload = text\<rparr>)
      else acc' = acc)"
  by (cases "map_of fs key") (auto simp: credential_mode_def scalar_spec_def dom_def)

lemma scalar_spec_dom: "scalar_spec m key v \<Longrightarrow> key \<in> dom m"
  by (auto simp: scalar_spec_def)

lemma modes_counted:
  assumes "dom m \<subseteq> {''value'', ''env-ref'', ''secret-file''}"
  shows "mode_spec m source \<longleftrightarrow>
     (''value'' \<in> dom m \<and> ''env-ref'' \<notin> dom m \<and> ''secret-file'' \<notin> dom m
        \<and> (\<exists>text. scalar_spec m ''value'' text \<and> source = \<lparr>crs_kind = Some credentialSourceValue, crs_payload = text\<rparr>))
   \<or> (''value'' \<notin> dom m \<and> ''env-ref'' \<in> dom m \<and> ''secret-file'' \<notin> dom m
        \<and> (\<exists>text. scalar_spec m ''env-ref'' text \<and> source = \<lparr>crs_kind = Some credentialSourceEnvRef, crs_payload = text\<rparr>))
   \<or> (''value'' \<notin> dom m \<and> ''env-ref'' \<notin> dom m \<and> ''secret-file'' \<in> dom m
        \<and> (\<exists>text. scalar_spec m ''secret-file'' text \<and> source = \<lparr>crs_kind = Some credentialSourceSecretFile, crs_payload = text\<rparr>))"
  (is "?l \<longleftrightarrow> ?r")
proof
  show "?l \<Longrightarrow> ?r"
    unfolding mode_spec_def by (elim exE conjE disjE) (use scalar_spec_dom in fastforce)+
  have only: "''env-ref'' \<notin> dom m \<Longrightarrow> ''secret-file'' \<notin> dom m \<Longrightarrow> dom m \<subseteq> {''value''}"
    "''value'' \<notin> dom m \<Longrightarrow> ''secret-file'' \<notin> dom m \<Longrightarrow> dom m \<subseteq> {''env-ref''}"
    "''value'' \<notin> dom m \<Longrightarrow> ''env-ref'' \<notin> dom m \<Longrightarrow> dom m \<subseteq> {''secret-file''}"
    using assms by blast+
  have intro: "dom m \<subseteq> {''value''} \<Longrightarrow> scalar_spec m ''value'' t \<Longrightarrow> mode_spec m \<lparr>crs_kind = Some credentialSourceValue, crs_payload = t\<rparr>"
    "dom m \<subseteq> {''env-ref''} \<Longrightarrow> scalar_spec m ''env-ref'' t \<Longrightarrow> mode_spec m \<lparr>crs_kind = Some credentialSourceEnvRef, crs_payload = t\<rparr>"
    "dom m \<subseteq> {''secret-file''} \<Longrightarrow> scalar_spec m ''secret-file'' t \<Longrightarrow> mode_spec m \<lparr>crs_kind = Some credentialSourceSecretFile, crs_payload = t\<rparr>" for t
    unfolding mode_spec_def by (intro exI conjI; assumption?; simp)+
  show "?r \<Longrightarrow> ?l"
    by (elim disjE conjE exE; hypsubst) (intro intro only; assumption)+
qed

lemma parseCredentialSource_Ok:
  assumes "visits_all os"
  shows "parseCredentialSource os field node = Ok source \<longleftrightarrow>
    (\<exists>m. mapping_spec {''value'', ''env-ref'', ''secret-file''} node m \<and> mode_spec m source)"
proof -
  let ?modes = "\<lambda>fs. \<exists>a b c. credential_mode fs field ''value'' credentialSourceValue (0, \<lparr>crs_kind = None, crs_payload = []\<rparr>) = Ok a
    \<and> credential_mode fs field ''env-ref'' credentialSourceEnvRef a = Ok b
    \<and> credential_mode fs field ''secret-file'' credentialSourceSecretFile b = Ok c \<and> fst c = 1 \<and> snd c = source"
  let ?allowed = "[''value'', ''env-ref'', ''secret-file'']"
  have modes: "?modes fs \<longleftrightarrow> mode_spec (map_of fs) source" if "dom (map_of fs) \<subseteq> set ?allowed" for fs
    using that unfolding credential_mode_Ok modes_counted [of "map_of fs", simplified, OF that [simplified]]
    by (cases "''value'' \<in> dom (map_of fs)"; cases "''env-ref'' \<in> dom (map_of fs)";
        cases "''secret-file'' \<in> dom (map_of fs)"; simp del: domIff; blast)
  have "parseCredentialSource os field node = Ok source \<longleftrightarrow>
    (\<exists>fs. requiredMapping node field = Ok fs \<and> rejectUnknownFields os fs field ?allowed = None \<and> ?modes fs)"
    by (simp add: parseCredentialSource_def conj_assoc)
  also have "\<dots> \<longleftrightarrow> (\<exists>fs. requiredMapping node field = Ok fs \<and> rejectUnknownFields os fs field ?allowed = None \<and> mode_spec (map_of fs) source)"
    using modes by (simp add: rejectUnknownFields_None [OF assms] cong: conj_cong)
  also have "\<dots> \<longleftrightarrow> (\<exists>m. mapping_spec (set ?allowed) node m \<and> mode_spec m source)"
    by (rule checked_mapping [OF assms])
  finally show ?thesis by simp
qed

lemma mapping_spec_weaken: "mapping_spec K node m \<Longrightarrow> dom m \<subseteq> K' \<Longrightarrow> mapping_spec K' node m"
  by (simp add: mapping_spec_def)

lemma mapping_spec_dom: "mapping_spec K node m \<Longrightarrow> dom m \<subseteq> K"
  unfolding mapping_spec_def by blast

lemma readSecretFile_Ok:
  "readSecretFile os field path = Ok v \<longleftrightarrow>
     v \<noteq> [] \<and> (\<exists>bytes. os_ReadFile os path = Inr bytes \<and> v = TrimRight bytes {CHR 0x0D, CHR 0x0A})"
  by (auto simp: readSecretFile_def Let_def split: sum.split)

lemma resolve_Ok:
  "resolveCredentialSource os field \<lparr>crs_kind = Some credentialSourceValue, crs_payload = t\<rparr> = Ok v \<longleftrightarrow> v = t"
  "resolveCredentialSource os field \<lparr>crs_kind = Some credentialSourceEnvRef, crs_payload = t\<rparr> = Ok v
     \<longleftrightarrow> v \<noteq> [] \<and> os_LookupEnv os t = Some v"
  "resolveCredentialSource os field \<lparr>crs_kind = Some credentialSourceSecretFile, crs_payload = t\<rparr> = Ok v
     \<longleftrightarrow> v \<noteq> [] \<and> (\<exists>bytes. os_ReadFile os t = Inr bytes \<and> v = TrimRight bytes {CHR 0x0D, CHR 0x0A})"
  by (auto simp: resolveCredentialSource_def readSecretFile_Ok split: option.split)

lemma scalar_spec_nonempty: "scalar_spec m k v \<Longrightarrow> v \<noteq> []"
  by (simp add: scalar_spec_def)

lemma credential_node_Ok:
  assumes "visits_all os"
  shows "(\<exists>source. parseCredentialSource os field node = Ok source \<and> resolveCredentialSource os field source = Ok v)
    \<longleftrightarrow> credential_spec os [key \<mapsto> node] key v" (is "?l \<longleftrightarrow> ?r")
proof
  assume ?l
  then show ?r
    unfolding parseCredentialSource_Ok [OF assms] mode_spec_def credential_spec_def
    by (elim exE conjE disjE; hypsubst)
      (simp only: resolve_Ok fun_upd_same option.inject, intro conjI exI,
       (blast intro: mapping_spec_weaken dest: scalar_spec_nonempty)+)+
next
  assume ?r
  then obtain m mode t where *: "v \<noteq> []" "mapping_spec {mode} node m" "scalar_spec m mode t"
    "mode = ''value'' \<and> v = t \<or> mode = ''env-ref'' \<and> os_LookupEnv os t = Some v \<or>
     mode = ''secret-file'' \<and> (\<exists>bytes. os_ReadFile os t = Inr bytes \<and> v = TrimRight bytes {CHR 0x0D, CHR 0x0A})"
    unfolding credential_spec_def by auto
  then have "dom m \<subseteq> {mode}" "mapping_spec {''value'', ''env-ref'', ''secret-file''} node m"
    by (auto simp: mapping_spec_def)
  with * show ?l
    unfolding parseCredentialSource_Ok [OF assms] mode_spec_def
    by (elim disjE conjE) (fastforce simp: resolve_Ok)+
qed

lemma requiredCredentialField_Ok:
  assumes "visits_all os"
  shows "requiredCredentialField os fs path key = Ok v \<longleftrightarrow> credential_spec os (map_of fs) key v"
proof (cases "map_of fs key")
  case (Some node)
  then have "credential_spec os (map_of fs) key v \<longleftrightarrow> credential_spec os [key \<mapsto> node] key v"
    by (simp add: credential_spec_def)
  with Some show ?thesis
    by (simp add: requiredCredentialField_def credential_node_Ok [OF assms])
qed (simp add: requiredCredentialField_def credential_spec_def)

lemma optionalTLSField_Ok:
  assumes "visits_all os"
  shows "optionalTLSField os (m ''tls'') = Ok tls \<longleftrightarrow> tls_spec m tls"
proof (cases "m ''tls''")
  case None
  then show ?thesis
    by (cases tls) (auto simp: optionalTLSField_def tls_spec_def path_spec_def)
next
  case (Some node)
  let ?paths = "\<lambda>t. path_spec t ''ca_cert'' (tls_CACert tls) \<and> path_spec t ''cert'' (tls_Cert tls) \<and> path_spec t ''key'' (tls_Key tls)"
  have "optionalTLSField os (Some node) = Ok tls \<longleftrightarrow>
    (\<exists>fs. requiredMapping node ''source.tls'' = Ok fs
      \<and> rejectUnknownFields os fs ''source.tls'' [''ca_cert'', ''cert'', ''key''] = None \<and> ?paths (map_of fs))"
    by (cases tls) (auto simp: optionalTLSField_def optionalPathStringField_Ok)
  also have "\<dots> \<longleftrightarrow> (\<exists>t. mapping_spec (set [''ca_cert'', ''cert'', ''key'']) node t \<and> ?paths t)"
    by (rule checked_mapping [OF assms])
  finally show ?thesis
    using Some by (simp add: tls_spec_def)
qed

lemma validateSourceTLS_None: "validateSourceTLS mode tls = None \<longleftrightarrow> tls_consistent mode tls"
  by (cases tls) (auto simp: validateSourceTLS_def tls_consistent_def)

lemma parseSource_Ok:
  assumes "visits_all os"
  shows "parseSource os node = Ok source \<longleftrightarrow> source_spec os node source"
proof -
  let ?keys = "[''host'', ''port'', ''sslmode'', ''username'', ''password'', ''dbname'', ''tls'']"
  let ?P = "\<lambda>m. scalar_spec m ''host'' (src_Host source) \<and> port_spec m (src_Port source) \<and>
        scalar_spec m ''sslmode'' (src_SSLMode source) \<and> src_SSLMode source \<in> sslmodes \<and>
        credential_spec os m ''username'' (src_Username source) \<and>
        credential_spec os m ''password'' (src_Password source) \<and>
        scalar_spec m ''dbname'' (src_DBName source) \<and>
        tls_spec m (src_TLS source) \<and> tls_consistent (src_SSLMode source) (src_TLS source)"
  have "parseSource os node = Ok source \<longleftrightarrow>
    (\<exists>fs. requiredMapping node ''source'' = Ok fs \<and> rejectUnknownFields os fs ''source'' ?keys = None \<and> ?P (map_of fs))"
    by (cases source) (simp add: parseSource_def requiredStringField_Ok requiredPortField_Ok requiredSSLModeField_Ok
      requiredCredentialField_Ok [OF assms] optionalTLSField_Ok [OF assms] validateSourceTLS_None conj_assoc)
  also have "\<dots> \<longleftrightarrow> (\<exists>m. mapping_spec (set ?keys) node m \<and> ?P m)"
    by (rule checked_mapping [OF assms])
  finally show ?thesis
    by (simp add: source_spec_def)
qed

lemma parseConfigDocument_Ok:
  assumes "visits_all os"
  shows "parseConfigDocument os document = Ok cfg \<longleftrightarrow> document_spec os document cfg"
proof (cases "Kind document = DocumentNode \<and> length (Content document) = 1")
  case True
  then obtain root where root: "Content document = [root]"
    by (auto simp: length_Suc_conv)
  let ?P = "\<lambda>m. \<exists>node. m ''source'' = Some node \<and> source_spec os node (cfg_Source cfg)"
  have "parseConfigDocument os document = Ok cfg \<longleftrightarrow>
    (\<exists>fs. requiredMapping root ''config'' = Ok fs \<and> rejectUnknownFields os fs ''config'' [''source''] = None \<and> ?P (map_of fs))"
    using True root
    by (cases cfg) (auto simp: parseConfigDocument_def parseSource_Ok [OF assms] split: option.splits)
  also have "\<dots> \<longleftrightarrow> (\<exists>m. mapping_spec (set [''source'']) root m \<and> ?P m)"
    by (rule checked_mapping [OF assms])
  finally show ?thesis
    using True root by (auto simp: document_spec_def)
qed (auto simp: parseConfigDocument_def document_spec_def)

section \<open>No input makes the loader panic\<close>

text \<open>What the YAML decoder promises: keys and values of a mapping come in pairs.\<close>

primrec paired :: "yamlNode \<Rightarrow> bool" where
  "paired (Node k v ns) \<longleftrightarrow> (k = MappingNode \<longrightarrow> even (length ns)) \<and> list_all paired ns"

lemma paired_Content: "paired node \<Longrightarrow> \<forall>n \<in> set (Content node). paired n"
  by (cases node) (simp add: list_all_iff)

lemma fields_loop_values: "fields_loop fs ns = Ok gs \<Longrightarrow> ran (map_of gs) \<subseteq> ran (map_of fs) \<union> set ns"
proof (induction fs ns rule: fields_loop.induct)
  case (3 fs k v rest)
  have "ran (map_of (AList.update (Value k) v fs)) \<subseteq> insert v (ran (map_of fs))"
    by (auto simp: update_conv' ran_def)
  with 3 show ?case by auto
qed simp_all

lemma requiredMapping_paired:
  assumes "requiredMapping node path = Ok fs" "paired node" "map_of fs key = Some n"
  shows "paired n"
  using assms fields_loop_values [of "[]" "Content node" fs] paired_Content [of node]
  by (auto simp: requiredMapping_def ran_def split: if_splits)

lemma requiredMapping_no_panic: "paired node \<Longrightarrow> requiredMapping node path \<noteq> Panic"
  using fields_loop_total [of "Content node" "[]"] by (cases node) (auto simp: requiredMapping_def)

lemma scalar_no_panic [simp]:
  "requiredScalarString node path \<noteq> Panic"
  "optionalPathStringField opt path \<noteq> Panic"
  "requiredStringField fs path key \<noteq> Panic"
  "requiredSSLModeField fs path key \<noteq> Panic"
  "requiredPortField fs path key \<noteq> Panic"
  "readSecretFile os field path \<noteq> Panic"
  "resolveCredentialSource os field source \<noteq> Panic"
  "credential_mode fs field key kind acc \<noteq> Panic"
  by (auto simp: requiredScalarString_def optionalPathStringField_def requiredStringField_def requiredSSLModeField_def
      requiredPortField_def Atoi_def Let_def readSecretFile_def resolveCredentialSource_def credential_mode_def bindR_eq_Panic
      split: option.splits sum.splits credentialSourceKind.splits)

lemma credential_no_panic:
  "paired node \<Longrightarrow> parseCredentialSource os field node \<noteq> Panic"
  by (simp add: parseCredentialSource_def bindR_eq_Panic requiredMapping_no_panic)

lemma requiredCredentialField_no_panic:
  "(\<And>n. map_of fs key = Some n \<Longrightarrow> paired n) \<Longrightarrow> requiredCredentialField os fs path key \<noteq> Panic"
  by (auto simp: requiredCredentialField_def bindR_eq_Panic credential_no_panic split: option.split)

lemma optionalTLSField_no_panic: "(\<And>n. opt = Some n \<Longrightarrow> paired n) \<Longrightarrow> optionalTLSField os opt \<noteq> Panic"
  by (auto simp: optionalTLSField_def bindR_eq_Panic requiredMapping_no_panic split: option.split)

lemma parseSource_no_panic: "paired node \<Longrightarrow> parseSource os node \<noteq> Panic"
  using requiredMapping_paired [of node "''source''"]
  by (auto simp: parseSource_def bindR_eq_Panic requiredMapping_no_panic requiredCredentialField_no_panic optionalTLSField_no_panic)

lemma parseConfigDocument_no_panic: "paired document \<Longrightarrow> parseConfigDocument os document \<noteq> Panic"
  using paired_Content [of document] requiredMapping_paired [of "Content document ! 0" "''config''"]
  by (auto simp: parseConfigDocument_def bindR_eq_Panic requiredMapping_no_panic parseSource_no_panic split: option.split)

section \<open>Properties\<close>

text \<open>What every later stage relies on of a loaded configuration.\<close>

definition config_valid :: "Config \<Rightarrow> bool" where
  "config_valid cfg \<longleftrightarrow>
     (let s = cfg_Source cfg; t = src_TLS s in
      src_Host s \<noteq> [] \<and> 1 \<le> src_Port s \<and> src_Port s \<le> 65535 \<and> src_SSLMode s \<in> sslmodes \<and>
      src_Username s \<noteq> [] \<and> src_Password s \<noteq> [] \<and> src_DBName s \<noteq> [] \<and> tls_consistent (src_SSLMode s) t \<and>
      (\<forall>p \<in> {tls_CACert t, tls_Cert t, tls_Key t}. CHR 0x0A \<notin> set p \<and> CHR 0x0D \<notin> set p))"

lemma path_spec_clean: "path_spec m key v \<Longrightarrow> CHR 0x0A \<notin> set v \<and> CHR 0x0D \<notin> set v"
  by (auto simp: path_spec_def split: if_splits)

lemma document_spec_valid: "document_spec os document cfg \<Longrightarrow> config_valid cfg"
  by (auto simp: document_spec_def source_spec_def config_valid_def Let_def port_spec_def credential_spec_def tls_spec_def
      dest: scalar_spec_nonempty path_spec_clean)

lemma Load_Ok:
  assumes "visits_all os"
  shows "Load yaml_Decode os path = Ok cfg \<longleftrightarrow>
    (\<exists>bytes document. os_ReadFile os path = Inr bytes \<and> fst (yaml_Decode bytes) = Inr document \<and> document_spec os document cfg)"
  by (auto simp: Load_def parseConfigDocument_Ok [OF assms] split: sum.splits)

text \<open>
  C5. The loader accepts exactly the files the specification describes and returns exactly the
  configuration it gives them, whatever order \<open>range\<close> visits a map in: one document, whose only
  key is \<open>source\<close>; no unknown key at any level; a host, a database name, a port between 1 and
  65535 and one of the six SSL modes; a user name and a password, each given by exactly one of
  \<open>value\<close>, \<open>env-ref\<close> and \<open>secret-file\<close>; certificate and key only together, and no TLS file
  when SSL is disabled.
\<close>

theorem load_accepts_exactly:
  assumes "visits_all os"
  shows "Load yaml_Decode os path = Ok cfg \<longleftrightarrow>
    (\<exists>bytes document. os_ReadFile os path = Inr bytes \<and> fst (yaml_Decode bytes) = Inr document \<and> document_spec os document cfg)"
  by (rule Load_Ok [OF assms])

text \<open>
  C15. Loading never panics on what the YAML decoder returns: it ends with a configuration that
  satisfies every rule the database connection relies on, or with an error labelled with the step
  that failed and the file's path.
\<close>

theorem load_result_checked:
  assumes "visits_all os" "\<And>bytes document. fst (yaml_Decode bytes) = Inr document \<Longrightarrow> paired document"
  shows "case Load yaml_Decode os path of
      Ok cfg \<Rightarrow> config_valid cfg
    | Err e \<Rightarrow> \<exists>step cause. e = Wrap (step @ '' config file '' @ go_quote path) cause \<and> step \<in> {''read'', ''decode'', ''validate''}
    | Panic \<Rightarrow> False"
proof (cases "Load yaml_Decode os path")
  case (Ok cfg)
  then show ?thesis
    using Load_Ok [OF assms(1), of yaml_Decode path cfg] document_spec_valid by fastforce
next
  case (Err e)
  then show ?thesis
    by (auto simp: Load_def elim: wrapR.elims split: sum.splits)
next
  case Panic
  then show ?thesis
    using assms(2) parseConfigDocument_no_panic by (auto simp: Load_def split: sum.splits)
qed

text \<open>
  A configuration with a user name from the environment and a password from a file.
\<close>

definition scalar_node :: "string \<Rightarrow> yamlNode" where
  "scalar_node s = Node ScalarNode s []"

definition demo_document :: yamlNode where
  "demo_document = Node DocumentNode [] [Node MappingNode [] [scalar_node ''source'', Node MappingNode []
     [scalar_node ''host'', scalar_node ''db'', scalar_node ''port'', scalar_node ''5432'',
      scalar_node ''sslmode'', scalar_node ''require'',
      scalar_node ''username'', Node MappingNode [] [scalar_node ''env-ref'', scalar_node ''PGUSER''],
      scalar_node ''password'', Node MappingNode [] [scalar_node ''secret-file'', scalar_node ''pw''],
      scalar_node ''dbname'', scalar_node ''bench'']]]"

definition demo_host :: host where
  "demo_host = \<lparr>os_ReadFile = (\<lambda>p. if p = ''pw'' then Inr (''s3cret'' @ nl) else if p = ''c.yaml'' then Inr ''source'' else Inl (Errorf ''no such file'')),
     os_LookupEnv = (\<lambda>k. if k = ''PGUSER'' then Some ''ann'' else None), map_range = rev\<rparr>"

definition demo_decode :: "string \<Rightarrow> (goerror + yamlNode) \<times> string" where
  "demo_decode bytes = (Inr demo_document, [])"

definition demo_config :: Config where
  "demo_config = \<lparr>cfg_Source = \<lparr>src_Host = ''db'', src_Port = 5432, src_SSLMode = SSLModeRequire, src_Username = ''ann'',
     src_Password = ''s3cret'', src_DBName = ''bench'', src_TLS = \<lparr>tls_CACert = [], tls_Cert = [], tls_Key = []\<rparr>\<rparr>\<rparr>"

lemma demo_visits_all: "visits_all demo_host"
  by (simp add: visits_all_def demo_host_def)

lemma demo_loads: "Load demo_decode demo_host ''c.yaml'' = Ok demo_config"
  by code_simp

theorem load_accepts_exactly_witness:
  "visits_all demo_host \<and> (\<exists>bytes document. os_ReadFile demo_host ''c.yaml'' = Inr bytes
     \<and> fst (demo_decode bytes) = Inr document \<and> document_spec demo_host document demo_config)"
  using load_accepts_exactly [OF demo_visits_all, of demo_decode "''c.yaml''" demo_config] demo_visits_all demo_loads
  by simp

lemma demo_paired: "fst (demo_decode bytes) = Inr document \<Longrightarrow> paired document"
  by (auto simp: demo_decode_def demo_document_def scalar_node_def)

theorem load_result_checked_witness: "visits_all demo_host \<and> config_valid demo_config"
proof -
  have "case Load demo_decode demo_host ''c.yaml'' of
      Ok cfg \<Rightarrow> config_valid cfg
    | Err e \<Rightarrow> \<exists>step cause. e = Wrap (step @ '' config file '' @ go_quote ''c.yaml'') cause \<and> step \<in> {''read'', ''decode'', ''validate''}
    | Panic \<Rightarrow> False"
    by (rule load_result_checked [OF demo_visits_all]) (rule demo_paired)
  then show ?thesis
    using demo_visits_all demo_loads by simp
qed

end
