(* ===== verification/Conn_Url.thy ===== *)
theory Conn_Url
  imports Service_Config
begin

text \<open>
  The connection URL of \<open>internal/database/database.go\<close>: what \<open>url.UserPassword\<close>,
  \<open>net.JoinHostPort\<close>, \<open>Values.Encode\<close> and \<open>URL.String\<close> of Go's library make of a source, and what
  \<open>url.Parse\<close>, through which pgx reads a URL, makes of the text.

  The round trip shows that no character of a user name, a password or a database name can end
  its component or move into another one.
\<close>

section \<open>Escaping\<close>

datatype encoding = encodeUserPassword | encodeHost | encodePath | encodeQueryComponent

definition is_alnum :: "char \<Rightarrow> bool" where
  "is_alnum c \<longleftrightarrow> (let n = of_char c :: nat in 97 \<le> n \<and> n \<le> 122 \<or> 65 \<le> n \<and> n \<le> 90 \<or> 48 \<le> n \<and> n \<le> 57)"

definition host_plain :: string where
  "host_plain = ''!$&()*+,;=:[]<>'' @ [CHR 0x27, CHR 0x22]"

definition marks :: string where
  "marks = ''-_.~''"

definition reserved :: string where
  "reserved = ''$&+,/:;=?@''"

definition shouldEscape :: "char \<Rightarrow> encoding \<Rightarrow> bool" where
  "shouldEscape c mode =
     (if is_alnum c then False
      else if mode = encodeHost \<and> c \<in> set host_plain then False
      else if c \<in> set marks then False
      else if c \<in> set reserved \<and> mode = encodePath then c = CHR ''?''
      else if c \<in> set reserved \<and> mode = encodeUserPassword then c \<in> set ''@/?:''
      else True)"

lemmas escape_tables = shouldEscape_def is_alnum_def host_plain_def marks_def reserved_def

definition upperhex :: string where
  "upperhex = ''0123456789ABCDEF''"

definition escape_char :: "encoding \<Rightarrow> char \<Rightarrow> string" where
  "escape_char mode c =
     (if c = CHR '' '' \<and> mode = encodeQueryComponent then ''+''
      else if shouldEscape c mode then [CHR ''%'', upperhex ! (of_char c div 16), upperhex ! (of_char c mod 16)]
      else [c])"

definition escape :: "encoding \<Rightarrow> string \<Rightarrow> string" where
  "escape mode s = concat (map (escape_char mode) s)"

section \<open>Writing a URL\<close>

text \<open>A URL without an opaque part or a fragment. A user may have no password.\<close>

record URL =
  u_Scheme :: string
  u_User :: "(string \<times> string option) option"
  u_Host :: string
  u_Path :: string
  u_RawQuery :: string

definition UserPassword :: "string \<Rightarrow> string \<Rightarrow> string \<times> string option" where
  "UserPassword username password = (username, Some password)"

definition Userinfo_String :: "string \<times> string option \<Rightarrow> string" where
  "Userinfo_String ui =
     escape encodeUserPassword (fst ui) @ (case snd ui of None \<Rightarrow> [] | Some pw \<Rightarrow> '':'' @ escape encodeUserPassword pw)"

definition JoinHostPort :: "string \<Rightarrow> string \<Rightarrow> string" where
  "JoinHostPort host port =
     (if CHR '':'' \<in> set host then ''['' @ host @ '']:'' @ port else host @ '':'' @ port)"

definition EscapedPath :: "string \<Rightarrow> string" where
  "EscapedPath path = (if path = ''*'' then ''*'' else escape encodePath path)"

definition authority_String :: "URL \<Rightarrow> string" where
  "authority_String u =
     (if u_Scheme u \<noteq> [] \<or> u_Host u \<noteq> [] \<or> u_User u \<noteq> None
      then (if u_Host u \<noteq> [] \<or> u_Path u \<noteq> [] \<or> u_User u \<noteq> None then ''//'' else []) @
           (case u_User u of None \<Rightarrow> [] | Some ui \<Rightarrow> Userinfo_String ui @ ''@'') @ escape encodeHost (u_Host u)
      else [])"

definition URL_String :: "URL \<Rightarrow> string" where
  "URL_String u =
     (let start = (if u_Scheme u \<noteq> [] then u_Scheme u @ '':'' else []) @ authority_String u;
          path = EscapedPath (u_Path u);
          start = start @ (if path \<noteq> [] \<and> hd path \<noteq> CHR ''/'' \<and> u_Host u \<noteq> [] then ''/'' else []);
          start = start @ (if start = [] \<and> CHR '':'' \<in> set (takeWhile (\<lambda>c. c \<noteq> CHR ''/'') path) then ''./'' else [])
      in start @ path @ (if u_RawQuery u \<noteq> [] then ''?'' @ u_RawQuery u else []))"

text \<open>\<open>Values.Encode\<close> of a single key and value.\<close>

definition Encode1 :: "string \<Rightarrow> string \<Rightarrow> string" where
  "Encode1 key v = escape encodeQueryComponent key @ ''='' @ escape encodeQueryComponent v"

definition connURL :: "Source \<Rightarrow> URL" where
  "connURL source =
     \<lparr>u_Scheme = ''postgres'', u_User = Some (UserPassword (src_Username source) (src_Password source)),
      u_Host = JoinHostPort (src_Host source) (decimal_int (src_Port source)), u_Path = src_DBName source,
      u_RawQuery = Encode1 ''sslmode'' (src_SSLMode source)\<rparr>"

section \<open>Parsing a URL\<close>

text \<open>
  \<open>url.Parse\<close> on URLs with an authority. \<open>None\<close> stands for its errors, and for the forms of URL that
  are left out: opaque ones, those without a scheme or an authority, with a fragment, or with a
  zone in an address. \<open>ip6\<close> is whether \<open>netip.ParseAddr\<close> accepts an address and it is not an IPv4 address.
\<close>

definition ishex :: "char \<Rightarrow> bool" where
  "ishex c \<longleftrightarrow> (let n = of_char c :: nat in 48 \<le> n \<and> n \<le> 57 \<or> 97 \<le> n \<and> n \<le> 102 \<or> 65 \<le> n \<and> n \<le> 70)"

definition unhex :: "char \<Rightarrow> nat" where
  "unhex c = (let n = of_char c in if n \<le> 57 then n - 48 else if n \<le> 70 then n - 55 else n - 87)"

fun unescape :: "encoding \<Rightarrow> string \<Rightarrow> string option" where
  "unescape mode [] = Some []"
| "unescape mode (c # s) =
     (if c = CHR ''%''
      then (case s of
              a # b # t \<Rightarrow>
                (if \<not> ishex a \<or> \<not> ishex b \<or> mode = encodeHost \<and> unhex a < 8 \<and> [a, b] \<noteq> ''25'' then None
                 else map_option (\<lambda>r. char_of (16 * unhex a + unhex b) # r) (unescape mode t))
            | _ \<Rightarrow> None)
      else if c = CHR ''+'' then map_option (\<lambda>r. (if mode = encodeQueryComponent then CHR '' '' else c) # r) (unescape mode s)
      else if mode = encodeHost \<and> (of_char c :: nat) < 128 \<and> shouldEscape c mode then None
      else map_option (\<lambda>r. c # r) (unescape mode s))"

fun getScheme :: "string \<Rightarrow> string \<Rightarrow> (string \<times> string) option" where
  "getScheme seen [] = None"
| "getScheme seen (c # s) =
     (if is_alnum c \<and> \<not> is_digit c then getScheme (seen @ [c]) s
      else if is_digit c \<or> c \<in> set ''+-.'' then (if seen = [] then None else getScheme (seen @ [c]) s)
      else if c = CHR '':'' \<and> seen \<noteq> [] then Some (seen, s)
      else None)"

definition lower :: "char \<Rightarrow> char" where
  "lower c = (let n = of_char c :: nat in if 65 \<le> n \<and> n \<le> 90 then char_of (n + 32) else c)"

text \<open>The parts before and after the last occurrence of a character.\<close>

definition cut_last :: "char \<Rightarrow> string \<Rightarrow> (string \<times> string) option" where
  "cut_last c s =
     (if c \<in> set s then Some (rev (drop 1 (dropWhile (\<lambda>x. x \<noteq> c) (rev s))), rev (takeWhile (\<lambda>x. x \<noteq> c) (rev s)))
      else None)"

definition validOptionalPort :: "string \<Rightarrow> bool" where
  "validOptionalPort port \<longleftrightarrow> port = [] \<or> hd port = CHR '':'' \<and> list_all is_digit (tl port)"

definition parseHost :: "(string \<Rightarrow> bool) \<Rightarrow> string \<Rightarrow> string option" where
  "parseHost ip6 host =
     (case cut_last (CHR ''['') host of
        Some (before, inner) \<Rightarrow>
          (case cut_last (CHR '']'') inner of
             None \<Rightarrow> None
           | Some (name, colonPort) \<Rightarrow>
               (if before \<noteq> [] \<or> CHR ''%'' \<in> set name \<or> \<not> validOptionalPort colonPort then None
                else
                  (case (unescape encodeHost name, unescape encodeHost colonPort) of
                     (Some h, Some p) \<Rightarrow> (if ip6 h then Some (''['' @ h @ '']'' @ p) else None)
                   | _ \<Rightarrow> None)))
      | None \<Rightarrow>
          (case cut_last (CHR '':'') host of
             None \<Rightarrow> unescape encodeHost host
           | Some (name, port) \<Rightarrow>
               (if CHR '':'' \<in> set name \<or> \<not> validOptionalPort (CHR '':'' # port) then None
                else unescape encodeHost host)))"

definition userinfo_char :: "char \<Rightarrow> bool" where
  "userinfo_char c \<longleftrightarrow> is_alnum c \<or> c \<in> set (''-._:~!$&()*+,;=%@'' @ [CHR 0x27])"

definition validUserinfo :: "string \<Rightarrow> bool" where
  "validUserinfo s \<longleftrightarrow> list_all userinfo_char s"

definition parseAuthority :: "(string \<Rightarrow> bool) \<Rightarrow> string \<Rightarrow> ((string \<times> string option) option \<times> string) option" where
  "parseAuthority ip6 authority =
     (case cut_last (CHR ''@'') authority of
        None \<Rightarrow> map_option (\<lambda>h. (None, h)) (parseHost ip6 authority)
      | Some (userinfo, host) \<Rightarrow>
          (case parseHost ip6 host of
             None \<Rightarrow> None
           | Some h \<Rightarrow>
               (if \<not> validUserinfo userinfo then None
                else if CHR '':'' \<notin> set userinfo
                then map_option (\<lambda>u. (Some (u, None), h)) (unescape encodeUserPassword userinfo)
                else
                  (case cut_at (CHR '':'') userinfo of
                     (username, password) \<Rightarrow>
                       (case (unescape encodeUserPassword username, unescape encodeUserPassword password) of
                          (Some u, Some p) \<Rightarrow> Some (Some (u, Some p), h)
                        | _ \<Rightarrow> None)))))"

definition is_ctl :: "char \<Rightarrow> bool" where
  "is_ctl c \<longleftrightarrow> (of_char c :: nat) < 32 \<or> (of_char c :: nat) = 127"

definition URL_Parse :: "(string \<Rightarrow> bool) \<Rightarrow> string \<Rightarrow> URL option" where
  "URL_Parse ip6 raw =
     (if list_ex (\<lambda>c. is_ctl c \<or> c = CHR ''#'') raw then None
      else
        (case getScheme [] raw of
           None \<Rightarrow> None
         | Some (scheme, rest) \<Rightarrow>
             (case cut_at (CHR ''?'') rest of
                (hier, query) \<Rightarrow>
                  (if take 2 hier \<noteq> ''//'' then None
                   else
                     (case parseAuthority ip6 (takeWhile (\<lambda>c. c \<noteq> CHR ''/'') (drop 2 hier)) of
                        None \<Rightarrow> None
                      | Some (user, host) \<Rightarrow>
                          map_option (\<lambda>path. \<lparr>u_Scheme = map lower scheme, u_User = user, u_Host = host, u_Path = path, u_RawQuery = query\<rparr>)
                            (unescape encodePath (dropWhile (\<lambda>c. c \<noteq> CHR ''/'') (drop 2 hier))))))))"

section \<open>The round trip\<close>

lemma upperhex_facts:
  assumes "n < 16"
  shows "unhex (upperhex ! n) = n" "ishex (upperhex ! n)" "is_alnum (upperhex ! n)"
proof -
  have "\<forall>n<16. unhex (upperhex ! n) = n \<and> ishex (upperhex ! n) \<and> is_alnum (upperhex ! n)" by code_simp
  with assms show "unhex (upperhex ! n) = n" "ishex (upperhex ! n)" "is_alnum (upperhex ! n)" by simp_all
qed

lemma hex_bounds: "of_char c div 16 < (16 :: nat)" "of_char c mod 16 < (16 :: nat)"
proof -
  have "of_char c < (256 :: nat)"
    using rangeI [of "of_char :: char \<Rightarrow> nat" c] unfolding range_nat_of_char by simp
  then show "of_char c div 16 < (16 :: nat)" by (simp add: less_mult_imp_div_less)
qed simp

lemmas hex_facts = upperhex_facts [OF hex_bounds(1)] upperhex_facts [OF hex_bounds(2)]

lemma unescape_hex:
  assumes "mode = encodeHost \<Longrightarrow> 128 \<le> (of_char c :: nat)"
  shows "unescape mode (CHR ''%'' # upperhex ! (of_char c div 16) # upperhex ! (of_char c mod 16) # t) = map_option (\<lambda>r. c # r) (unescape mode t)"
proof -
  have "\<not> (mode = encodeHost \<and> (of_char c :: nat) div 16 < 8)" using assms by auto
  then show ?thesis by (auto simp: hex_facts)
qed

lemma percent_escaped [simp]: "shouldEscape (CHR ''%'') mode"
  by (cases mode) (simp_all add: escape_tables)

lemma plus_escaped [simp]: "shouldEscape (CHR ''+'') encodeQueryComponent"
  by (simp add: escape_tables)

text \<open>A character that survives in a mode: in a host, an ASCII character must not need an escape.\<close>

definition carried :: "encoding \<Rightarrow> char \<Rightarrow> bool" where
  "carried mode c \<longleftrightarrow> (mode = encodeHost \<longrightarrow> \<not> shouldEscape c mode \<or> 128 \<le> (of_char c :: nat))"

lemma unescape_plain:
  assumes "c \<noteq> CHR ''%''" "\<not> (mode = encodeHost \<and> (of_char c :: nat) < 128 \<and> shouldEscape c mode)"
    and "\<not> (mode = encodeQueryComponent \<and> c = CHR ''+'')"
  shows "unescape mode (c # t) = map_option (\<lambda>r. c # r) (unescape mode t)"
  using assms by auto

lemma unescape_escape_char:
  assumes "carried mode c"
  shows "unescape mode (escape_char mode c @ t) = map_option (\<lambda>r. c # r) (unescape mode t)"
proof -
  consider "c = CHR '' ''" "mode = encodeQueryComponent" | "\<not> (c = CHR '' '' \<and> mode = encodeQueryComponent)" "shouldEscape c mode"
    | "\<not> (c = CHR '' '' \<and> mode = encodeQueryComponent)" "\<not> shouldEscape c mode"
    by blast
  then show ?thesis
  proof cases
    case 1
    then show ?thesis by (simp add: escape_char_def)
  next
    case 2
    then have "escape_char mode c @ t = CHR ''%'' # upperhex ! (of_char c div 16) # upperhex ! (of_char c mod 16) # t"
      by (auto simp: escape_char_def)
    moreover have "mode = encodeHost \<Longrightarrow> 128 \<le> (of_char c :: nat)" using assms 2 by (simp add: carried_def)
    ultimately show ?thesis by (simp only: unescape_hex)
  next
    case 3
    then have "c \<noteq> CHR ''%''" "\<not> (mode = encodeQueryComponent \<and> c = CHR ''+'')" by auto
    moreover have "escape_char mode c @ t = c # t" using 3 by (auto simp: escape_char_def)
    ultimately show ?thesis using 3 by (simp add: unescape_plain del: unescape.simps)
  qed
qed

lemma unescape_escape:
  assumes "\<forall>c \<in> set s. carried mode c"
  shows "unescape mode (escape mode s) = Some s"
  using assms by (induction s) (simp_all add: escape_def unescape_escape_char)

lemma carried_other [simp]: "mode \<noteq> encodeHost \<Longrightarrow> carried mode c"
  by (simp add: carried_def)

text \<open>A delimiter that is escaped in a mode, or not there, does not occur in what is escaped in that mode.\<close>

lemma delimiter_not_in_escape:
  assumes "shouldEscape d mode \<or> d \<notin> set s" "\<not> is_alnum d" "d \<notin> {CHR ''%'', CHR ''+''}"
  shows "d \<notin> set (escape mode s)"
  using assms hex_facts(3,6) by (auto simp: escape_def escape_char_def split: if_splits)

lemma table_chars:
  "c \<in> set host_plain \<union> set marks \<union> set reserved \<Longrightarrow> \<not> is_ctl c \<and> c \<noteq> CHR ''#''"
  "c \<in> set marks \<Longrightarrow> c \<in> set ''-._:~!$&()*+,;=%@''"
  "c \<in> set reserved \<Longrightarrow> c \<in> set ''@/?:'' \<or> c \<in> set ''-._:~!$&()*+,;=%@''"
proof -
  have "list_all (\<lambda>c. \<not> is_ctl c \<and> c \<noteq> CHR ''#'') (host_plain @ marks @ reserved)"
    "list_all (\<lambda>c. c \<in> set ''-._:~!$&()*+,;=%@'') marks"
    "list_all (\<lambda>c. c \<in> set ''@/?:'' \<or> c \<in> set ''-._:~!$&()*+,;=%@'') reserved"
    by code_simp+
  then show "c \<in> set host_plain \<union> set marks \<union> set reserved \<Longrightarrow> \<not> is_ctl c \<and> c \<noteq> CHR ''#''"
    "c \<in> set marks \<Longrightarrow> c \<in> set ''-._:~!$&()*+,;=%@''"
    "c \<in> set reserved \<Longrightarrow> c \<in> set ''@/?:'' \<or> c \<in> set ''-._:~!$&()*+,;=%@''"
    unfolding list_all_iff set_append by blast+
qed

lemma ctl_escaped:
  assumes "is_ctl c \<or> c = CHR ''#''"
  shows "shouldEscape c mode" "\<not> is_alnum c" "c \<notin> {CHR ''%'', CHR ''+''}"
proof -
  show alnum: "\<not> is_alnum c" and "c \<notin> {CHR ''%'', CHR ''+''}"
    using assms by (auto simp: is_ctl_def is_alnum_def Let_def)
  show "shouldEscape c mode"
    unfolding shouldEscape_def using alnum table_chars(1) [of c] assms by auto
qed

lemma escape_clean: "c \<in> set (escape mode s) \<Longrightarrow> \<not> (is_ctl c \<or> c = CHR ''#'')"
  using delimiter_not_in_escape [of c mode s] ctl_escaped(1) [of c mode] ctl_escaped(2,3) [of c] by blast

lemma delimiters [simp]:
  "CHR '':'' \<notin> set (escape encodeUserPassword s)" "CHR ''@'' \<notin> set (escape encodeUserPassword s)"
  "CHR ''/'' \<notin> set (escape encodeUserPassword s)" "CHR ''?'' \<notin> set (escape encodeUserPassword s)"
  "CHR ''/'' \<notin> set (escape encodeHost s)" "CHR ''?'' \<notin> set (escape encodeHost s)" "CHR ''@'' \<notin> set (escape encodeHost s)"
  "CHR ''?'' \<notin> set (escape encodePath s)"
  "CHR ''='' \<notin> set (escape encodeQueryComponent s)"
  by (rule delimiter_not_in_escape; simp add: escape_tables)+

lemma escape_same: "\<forall>c \<in> set s. \<not> shouldEscape c encodeHost \<Longrightarrow> escape encodeHost s = s"
  by (induction s) (simp_all add: escape_def escape_char_def)

lemma escape_append: "escape mode (s @ t) = escape mode s @ escape mode t"
  by (simp add: escape_def)

lemma digit_plain: "is_digit c \<Longrightarrow> \<not> shouldEscape c mode"
  by (simp add: is_digit_def escape_tables)

lemma userinfo_valid: "validUserinfo (escape encodeUserPassword u @ '':'' @ escape encodeUserPassword p)"
proof -
  have "userinfo_char c" if "c \<in> set (escape encodeUserPassword s)" for c s
  proof (rule ccontr)
    assume no: "\<not> userinfo_char c"
    then have "shouldEscape c encodeUserPassword"
      using table_chars(2,3) [of c] unfolding userinfo_char_def shouldEscape_def set_append by auto
    moreover have "c \<notin> {CHR ''%'', CHR ''+''}" using no by (auto simp: userinfo_char_def)
    ultimately show False using delimiter_not_in_escape [of c encodeUserPassword s] that no by (simp add: userinfo_char_def)
  qed
  moreover have "userinfo_char (CHR '':'')" by (simp add: userinfo_char_def)
  ultimately show ?thesis
    unfolding validUserinfo_def list_all_iff set_append by auto
qed

lemma cut_last_mid: "c \<notin> set t \<Longrightarrow> cut_last c (s @ c # t) = Some (s, t)"
  by (simp add: cut_last_def takeWhile_append dropWhile_append)

lemma cut_last_none: "c \<notin> set s \<Longrightarrow> cut_last c s = None"
  by (simp add: cut_last_def)

subsection \<open>Hosts\<close>

text \<open>
  The hosts that survive: names whose ASCII characters need no escape, and IPv6 addresses without
  a zone.
\<close>

definition host_ok :: "(string \<Rightarrow> bool) \<Rightarrow> string \<Rightarrow> bool" where
  "host_ok ip6 host \<longleftrightarrow> CHR ''['' \<notin> set host \<and> CHR '']'' \<notin> set host \<and>
     (if CHR '':'' \<in> set host then ip6 host \<and> (\<forall>c \<in> set host. \<not> shouldEscape c encodeHost)
      else \<forall>c \<in> set host. carried encodeHost c)"

lemma port_text:
  assumes "0 \<le> port"
  shows "list_all is_digit (decimal_int port)" "escape encodeHost (decimal_int port) = decimal_int port"
    "d \<in> set ''[]:'' \<Longrightarrow> d \<notin> set (decimal_int port)"
proof -
  show digits: "list_all is_digit (decimal_int port)"
    using assms decimal_digits by (simp add: decimal_int_def list_all_iff)
  then show "escape encodeHost (decimal_int port) = decimal_int port"
    by (intro escape_same) (auto simp: list_all_iff digit_plain)
  show "d \<in> set ''[]:'' \<Longrightarrow> d \<notin> set (decimal_int port)"
    using digits by (auto simp: list_all_iff is_digit_def)
qed

lemma brackets_plain:
  "\<not> shouldEscape (CHR ''['') encodeHost" "\<not> shouldEscape (CHR '']'') encodeHost" "\<not> shouldEscape (CHR '':'') encodeHost"
  by (simp_all add: escape_tables)

lemma parseHost_JoinHostPort:
  assumes "host_ok ip6 host" "0 \<le> port"
  shows "parseHost ip6 (escape encodeHost (JoinHostPort host (decimal_int port))) = Some (JoinHostPort host (decimal_int port))"
proof -
  let ?p = "decimal_int port" and ?h = "escape encodeHost host"
  note P = port_text [OF assms(2)]
  have sep: "escape encodeHost ''['' = ''[''" "escape encodeHost '']:'' = '']:''" "escape encodeHost '':'' = '':''"
    using brackets_plain by (simp_all add: escape_same)
  have no: "d \<notin> set ?h" if "d \<notin> set host" "d \<in> {CHR ''['', CHR '']'', CHR '':''}" for d
    using that by (intro delimiter_not_in_escape) (auto simp: is_alnum_def)
  have valid: "validOptionalPort (CHR '':'' # ?p)" using P(1) by (simp add: validOptionalPort_def)
  have un_p: "unescape encodeHost (CHR '':'' # ?p) = Some (CHR '':'' # ?p)"
  proof -
    have "\<forall>c \<in> set (CHR '':'' # ?p). carried encodeHost c"
      using P(1) brackets_plain(3) by (auto simp: carried_def list_all_iff digit_plain)
    then show ?thesis using unescape_escape [of "CHR '':'' # ?p" encodeHost] P(2) sep(3) escape_append [of encodeHost "'':''" ?p] by simp
  qed
  show ?thesis
  proof (cases "CHR '':'' \<in> set host")
    case True
    have plain: "\<forall>c \<in> set host. \<not> shouldEscape c encodeHost" and ip: "ip6 host"
      and nb: "CHR ''['' \<notin> set host" "CHR '']'' \<notin> set host"
      using assms(1) True by (simp_all add: host_ok_def)
    have same: "?h = host" by (rule escape_same [OF plain])
    have pc: "CHR ''%'' \<notin> set host" using plain by auto
    have "unescape encodeHost host = Some host"
      using unescape_escape [of host encodeHost] plain same by (simp add: carried_def)
    moreover have "escape encodeHost (JoinHostPort host ?p) = [] @ CHR ''['' # host @ CHR '']'' # CHR '':'' # ?p"
      using True same sep P(2) by (simp add: JoinHostPort_def escape_append del: append_Cons append_Nil)
    moreover have "cut_last (CHR ''['') ([] @ CHR ''['' # host @ CHR '']'' # CHR '':'' # ?p) = Some ([], host @ CHR '']'' # CHR '':'' # ?p)"
      by (rule cut_last_mid) (use nb P(3) in auto)
    moreover have "cut_last (CHR '']'') (host @ CHR '']'' # CHR '':'' # ?p) = Some (host, CHR '':'' # ?p)"
      by (rule cut_last_mid) (use P(3) in auto)
    ultimately show ?thesis
      using True pc valid un_p ip by (simp add: parseHost_def JoinHostPort_def del: unescape.simps)
  next
    case False
    have nb: "CHR ''['' \<notin> set host" and car: "\<forall>c \<in> set host. carried encodeHost c"
      using assms(1) False by (simp_all add: host_ok_def)
    have join: "JoinHostPort host ?p = host @ CHR '':'' # ?p" using False by (simp add: JoinHostPort_def)
    have e: "escape encodeHost (JoinHostPort host ?p) = ?h @ CHR '':'' # ?p"
      using sep(3) P(2) escape_append [of encodeHost host "CHR '':'' # ?p"] escape_append [of encodeHost "'':''" ?p]
      by (simp add: join)
    have "\<forall>c \<in> set (host @ CHR '':'' # ?p). carried encodeHost c"
      using car P(1) brackets_plain(3) by (auto simp: carried_def list_all_iff digit_plain)
    then have "unescape encodeHost (?h @ CHR '':'' # ?p) = Some (host @ CHR '':'' # ?p)"
      using unescape_escape [of "host @ CHR '':'' # ?p" encodeHost] e join by simp
    moreover have "cut_last (CHR ''['') (?h @ CHR '':'' # ?p) = None"
      by (rule cut_last_none) (use nb no [of "CHR ''[''"] P(3) in auto)
    moreover have "cut_last (CHR '':'') (?h @ CHR '':'' # ?p) = Some (?h, ?p)"
      by (rule cut_last_mid) (use P(3) in auto)
    moreover have "CHR '':'' \<notin> set ?h" using no [of "CHR '':''"] False by simp
    ultimately show ?thesis
      using valid unfolding e parseHost_def by (simp add: join del: unescape.simps)
  qed
qed

subsection \<open>Paths\<close>

definition rooted :: "string \<Rightarrow> string" where
  "rooted path = (if path = [] \<or> hd path = CHR ''/'' then path else CHR ''/'' # path)"

definition path_text :: "string \<Rightarrow> string" where
  "path_text path =
     (if EscapedPath path \<noteq> [] \<and> hd (EscapedPath path) \<noteq> CHR ''/'' then CHR ''/'' # EscapedPath path else EscapedPath path)"

lemma EscapedPath_facts:
  "unescape encodePath (EscapedPath path) = Some path" "CHR ''?'' \<notin> set (EscapedPath path)"
  "EscapedPath path = [] \<longleftrightarrow> path = []" "path \<noteq> [] \<Longrightarrow> hd (EscapedPath path) = CHR ''/'' \<longleftrightarrow> hd path = CHR ''/''"
  "c \<in> set (EscapedPath path) \<Longrightarrow> \<not> (is_ctl c \<or> c = CHR ''#'')"
proof -
  show "unescape encodePath (EscapedPath path) = Some path"
    by (simp add: EscapedPath_def unescape_escape)
  show "CHR ''?'' \<notin> set (EscapedPath path)" by (simp add: EscapedPath_def)
  show "EscapedPath path = [] \<longleftrightarrow> path = []"
    by (cases path) (simp_all add: EscapedPath_def escape_def escape_char_def)
  show "path \<noteq> [] \<Longrightarrow> hd (EscapedPath path) = CHR ''/'' \<longleftrightarrow> hd path = CHR ''/''"
    by (cases path) (auto simp: EscapedPath_def escape_def escape_char_def escape_tables)
  show "c \<in> set (EscapedPath path) \<Longrightarrow> \<not> (is_ctl c \<or> c = CHR ''#'')"
    using escape_clean [of c encodePath path] by (auto simp: EscapedPath_def is_ctl_def split: if_splits)
qed

lemma path_text_facts:
  "unescape encodePath (path_text path) = Some (rooted path)" "CHR ''?'' \<notin> set (path_text path)"
  "path_text path = [] \<or> hd (path_text path) = CHR ''/''"
  "c \<in> set (path_text path) \<Longrightarrow> \<not> (is_ctl c \<or> c = CHR ''#'')"
proof -
  have "unescape encodePath (CHR ''/'' # s) = map_option (\<lambda>r. CHR ''/'' # r) (unescape encodePath s)" for s
    by (rule unescape_plain) simp_all
  then show "unescape encodePath (path_text path) = Some (rooted path)"
    using EscapedPath_facts(1,3,4) [of path] by (auto simp: path_text_def rooted_def simp del: unescape.simps)
  show "CHR ''?'' \<notin> set (path_text path)" using EscapedPath_facts(2) [of path] by (simp add: path_text_def)
  show "path_text path = [] \<or> hd (path_text path) = CHR ''/''" by (simp add: path_text_def)
  show "c \<in> set (path_text path) \<Longrightarrow> \<not> (is_ctl c \<or> c = CHR ''#'')"
    using EscapedPath_facts(5) [of c path] by (auto simp: path_text_def is_ctl_def split: if_splits)
qed

subsection \<open>The whole URL\<close>

lemma URL_String_connURL:
  "URL_String (connURL source) =
     ''postgres:'' @ ''//'' @ (escape encodeUserPassword (src_Username source) @ '':'' @ escape encodeUserPassword (src_Password source))
     @ ''@'' @ escape encodeHost (u_Host (connURL source)) @ path_text (src_DBName source) @ ''?'' @ u_RawQuery (connURL source)"
  by (simp add: URL_String_def connURL_def authority_String_def Userinfo_String_def UserPassword_def Encode1_def
      path_text_def JoinHostPort_def Let_def)

lemma getScheme_postgres: "getScheme [] (''postgres:'' @ rest) = Some (''postgres'', rest)"
  by (simp add: is_alnum_def is_digit_def)

lemma split_path:
  assumes "CHR ''/'' \<notin> set a" "p = [] \<or> hd p = CHR ''/''"
  shows "takeWhile (\<lambda>c. c \<noteq> CHR ''/'') (a @ p) = a" "dropWhile (\<lambda>c. c \<noteq> CHR ''/'') (a @ p) = p"
  using assms by (cases p; auto simp: takeWhile_append dropWhile_append takeWhile_eq_all_conv)+

lemma parseAuthority_composed:
  assumes "parseHost ip6 h = Some host" "CHR ''@'' \<notin> set h"
  shows "parseAuthority ip6 ((escape encodeUserPassword u @ '':'' @ escape encodeUserPassword p) @ ''@'' @ h) = Some (Some (UserPassword u p), host)"
proof -
  let ?ui = "escape encodeUserPassword u @ '':'' @ escape encodeUserPassword p"
  have "cut_last (CHR ''@'') (?ui @ CHR ''@'' # h) = Some (?ui, h)" by (rule cut_last_mid [OF assms(2)])
  moreover have "cut_at (CHR '':'') (escape encodeUserPassword u @ CHR '':'' # escape encodeUserPassword p) = (escape encodeUserPassword u, escape encodeUserPassword p)"
    by (rule cut_at_mid) simp
  moreover note userinfo_valid [of u p]
  ultimately show ?thesis
    using assms(1) by (simp add: parseAuthority_def unescape_escape UserPassword_def)
qed

lemma URL_Parse_composed:
  assumes raw: "raw = ''postgres:'' @ (''//'' @ a @ p) @ CHR ''?'' # q" and clean: "\<not> list_ex (\<lambda>c. is_ctl c \<or> c = CHR ''#'') raw"
    and a: "CHR ''/'' \<notin> set a" "CHR ''?'' \<notin> set a" and p: "CHR ''?'' \<notin> set p" "p = [] \<or> hd p = CHR ''/''"
    and parts: "parseAuthority ip6 a = Some (user, host)" "unescape encodePath p = Some path"
  shows "URL_Parse ip6 raw = Some \<lparr>u_Scheme = ''postgres'', u_User = user, u_Host = host, u_Path = path, u_RawQuery = q\<rparr>"
proof -
  have scheme: "getScheme [] raw = Some (''postgres'', (''//'' @ a @ p) @ CHR ''?'' # q)"
    unfolding raw by (rule getScheme_postgres)
  have cut: "cut_at (CHR ''?'') ((''//'' @ a @ p) @ CHR ''?'' # q) = (''//'' @ a @ p, q)"
    by (rule cut_at_mid) (use a p in simp)
  have hier: "take 2 (''//'' @ a @ p) = ''//''" "drop 2 (''//'' @ a @ p) = a @ p" by simp_all
  have low: "map lower ''postgres'' = ''postgres''" by (simp add: lower_def)
  show ?thesis
    unfolding URL_Parse_def scheme option.case prod.case cut hier split_path [OF a(1) p(2)] parts option.map low
    using clean by (simp only: if_False if_True simp_thms)
qed

text \<open>
  C11. A connection URL is parsed back to what it was built from: the scheme, the user name and the
  password, host and port, the SSL mode, and the database name with one slash before it if it had
  none. Whatever characters the user name, the password, the database name and the SSL mode
  hold, they neither end their component early nor reach another one. The host is a name whose ASCII
  characters need no escape, or an IPv6 address without a zone; other hosts do not survive
  \<open>url.Parse\<close>.
\<close>

theorem conn_url_roundtrip:
  assumes "host_ok ip6 (src_Host source)" and "0 \<le> src_Port source"
  shows "URL_Parse ip6 (URL_String (connURL source)) = Some ((connURL source)\<lparr>u_Path := rooted (src_DBName source)\<rparr>)
    \<and> (\<exists>key v. cut_at (CHR ''='') (u_RawQuery (connURL source)) = (key, v)
        \<and> unescape encodeQueryComponent key = Some ''sslmode'' \<and> unescape encodeQueryComponent v = Some (src_SSLMode source))"
proof -
  let ?ui = "escape encodeUserPassword (src_Username source) @ '':'' @ escape encodeUserPassword (src_Password source)"
  let ?h = "escape encodeHost (u_Host (connURL source))" and ?p = "path_text (src_DBName source)" and ?q = "u_RawQuery (connURL source)"
  have q: "?q = Encode1 ''sslmode'' (src_SSLMode source)" and host: "u_Host (connURL source) = JoinHostPort (src_Host source) (decimal_int (src_Port source))"
    by (simp_all add: connURL_def)
  have authority: "CHR ''/'' \<notin> set (?ui @ ''@'' @ ?h)" "CHR ''?'' \<notin> set (?ui @ ''@'' @ ?h)" by simp_all
  have clean: "\<not> list_ex (\<lambda>c. is_ctl c \<or> c = CHR ''#'') (URL_String (connURL source))"
    unfolding URL_String_connURL q Encode1_def list_ex_iff
    using escape_clean path_text_facts(4) by (auto simp: is_ctl_def; blast)
  have "parseHost ip6 ?h = Some (u_Host (connURL source))"
    unfolding host by (rule parseHost_JoinHostPort [OF assms])
  from parseAuthority_composed [OF this, of "src_Username source" "src_Password source"]
  have user: "parseAuthority ip6 (?ui @ ''@'' @ ?h) = Some (u_User (connURL source), u_Host (connURL source))"
    by (simp add: connURL_def)
  have raw: "URL_String (connURL source) = ''postgres:'' @ (''//'' @ (?ui @ ''@'' @ ?h) @ ?p) @ CHR ''?'' # ?q"
    unfolding URL_String_connURL by simp
  have "URL_Parse ip6 (URL_String (connURL source)) = Some ((connURL source)\<lparr>u_Path := rooted (src_DBName source)\<rparr>)"
    using URL_Parse_composed [OF raw clean authority path_text_facts(2,3) user path_text_facts(1)]
    by (simp add: connURL_def)
  moreover have "cut_at (CHR ''='') ?q = (escape encodeQueryComponent ''sslmode'', escape encodeQueryComponent (src_SSLMode source))"
    unfolding q Encode1_def using cut_at_mid [of "CHR ''=''"] by simp
  ultimately show ?thesis by (simp add: unescape_escape)
qed

definition demo_url_source :: Source where
  "demo_url_source = \<lparr>src_Host = ''::1'', src_Port = 5432, src_SSLMode = SSLModeRequire, src_Username = ''a:b@c/d'',
     src_Password = ''p?q%r @evil/'', src_DBName = ''/x?y#z'', src_TLS = \<lparr>tls_CACert = [], tls_Cert = [], tls_Key = []\<rparr>\<rparr>"

theorem conn_url_roundtrip_witness:
  "URL_Parse (\<lambda>a. a = ''::1'') (URL_String (connURL demo_url_source)) =
     Some \<lparr>u_Scheme = ''postgres'', u_User = Some (''a:b@c/d'', Some ''p?q%r @evil/''), u_Host = JoinHostPort ''::1'' (decimal_int 5432),
       u_Path = ''/x?y#z'', u_RawQuery = Encode1 ''sslmode'' SSLModeRequire\<rparr>"
proof -
  have "host_ok (\<lambda>a. a = ''::1'') (src_Host demo_url_source)" "0 \<le> src_Port demo_url_source"
    by (simp_all add: host_ok_def demo_url_source_def escape_tables)
  from conn_url_roundtrip [OF this] show ?thesis
    by (simp add: demo_url_source_def connURL_def rooted_def UserPassword_def)
qed

text \<open>A slash at the start of a database name is lost: the name without it has the same URL.\<close>

lemma leading_slash_lost:
  assumes "db \<noteq> []" "hd db \<noteq> CHR ''/''" "db \<noteq> ''*''"
  shows "URL_String (connURL (source\<lparr>src_DBName := CHR ''/'' # db\<rparr>)) = URL_String (connURL (source\<lparr>src_DBName := db\<rparr>))"
proof -
  have "escape encodePath (CHR ''/'' # db) = CHR ''/'' # escape encodePath db"
    by (simp add: escape_def escape_char_def escape_tables)
  then have "EscapedPath (CHR ''/'' # db) = CHR ''/'' # EscapedPath db"
    using assms(3) by (simp add: EscapedPath_def)
  then have "path_text (CHR ''/'' # db) = path_text db"
    using EscapedPath_facts(3,4) [of db] assms by (simp add: path_text_def)
  then show ?thesis unfolding URL_String_connURL by (simp add: connURL_def)
qed

end
