(* ===== verification/Database.thy ===== *)
theory Database
  imports Conn_Url
begin

text \<open>
  Opening the database, \<open>internal/database/database.go\<close>: the connection configuration, the TLS
  files, the loop over the PEM blocks of the CA file, and the readiness check.

  pgx, the PEM and X.509 decoders and the file system are parameters. The loop over the CA file
  ends only because the PEM decoder consumes input, so it is a partial function; \<open>None\<close> stands
  for a call that does not return.
\<close>

section \<open>Data\<close>

record block =
  blk_Type :: string
  blk_Bytes :: string

text \<open>
  The fields of \<open>tls.Config\<close> that pgx or this code sets. The callback gets the certificates the
  server sent. \<open>Clone\<close> copies every field.
\<close>

record ('c, 'k) tlsConfig =
  tc_RootCAs :: "'c list option"
  tc_Certificates :: "'k list"
  tc_ServerName :: string
  tc_InsecureSkipVerify :: bool
  tc_VerifyPeerCertificate :: "(string list \<Rightarrow> goerror option) option"

text \<open>\<open>pgx.ConnConfig\<close>: the two fields this code changes and the others.\<close>

record ('c, 'k, 'f, 's) connConfig =
  cc_TLSConfig :: "('c, 'k) tlsConfig option"
  cc_Fallbacks :: "'f list"
  cc_Settings :: 's

record ('c, 'k, 'f, 's) dblib =
  lib_ReadFile :: "string \<Rightarrow> goerror + string"
  pem_Decode :: "string \<Rightarrow> block option \<times> string"
  x509_ParseCertificate :: "string \<Rightarrow> goerror + 'c"
  IsCA :: "'c \<Rightarrow> bool"
  tls_LoadX509KeyPair :: "string \<Rightarrow> string \<Rightarrow> goerror + 'k"
  pgx_ParseConfig :: "string \<Rightarrow> goerror + ('c, 'k, 'f, 's) connConfig"

section \<open>Library functions\<close>

text \<open>The UTF-8 encodings of the characters \<open>unicode.IsSpace\<close> accepts.\<close>

definition space_encodings :: "string list" where
  "space_encodings =
     [[CHR 0x09], [CHR 0x0A], [CHR 0x0B], [CHR 0x0C], [CHR 0x0D], [CHR 0x20],
      [CHR 0xC2, CHR 0x85], [CHR 0xC2, CHR 0xA0], [CHR 0xE1, CHR 0x9A, CHR 0x80]] @
     map (\<lambda>n. [CHR 0xE2, CHR 0x80, char_of n]) ([0x80 ..< 0x8B] @ [0xA8, 0xA9, 0xAF :: nat]) @
     [[CHR 0xE2, CHR 0x81, CHR 0x9F], [CHR 0xE3, CHR 0x80, CHR 0x80]]"

text \<open>\<open>len(bytes.TrimSpace(s)) == 0\<close>: the string is a sequence of spaces.\<close>

function only_space :: "string \<Rightarrow> bool" where
  "only_space s =
     (if s = [] then True
      else case find (\<lambda>e. take (length e) s = e) space_encodings of
             None \<Rightarrow> False
           | Some e \<Rightarrow> only_space (drop (length e) s))"
  by pat_completeness auto

lemma find_in_set: "find P xs = Some x \<Longrightarrow> x \<in> set xs"
  by (induction xs) (auto split: if_splits)

lemma space_encodings_nonempty: "find P space_encodings = Some e \<Longrightarrow> e \<noteq> []"
  using find_in_set [of P space_encodings e] by (auto simp: space_encodings_def)

termination only_space
  by (relation "measure length") (auto dest!: space_encodings_nonempty)

declare only_space.simps [simp del]

text \<open>\<open>CertPool.AddCert\<close> keeps one copy of a certificate.\<close>

definition AddCert :: "'c \<Rightarrow> 'c list \<Rightarrow> 'c list" where
  "AddCert c pool = (if c \<in> set pool then pool else pool @ [c])"

section \<open>database.go\<close>

definition hasTLS :: "TLS \<Rightarrow> bool" where
  "hasTLS cfg \<longleftrightarrow> tls_CACert cfg \<noteq> [] \<or> tls_Cert cfg \<noteq> [] \<or> tls_Key cfg \<noteq> []"

definition certificate_type :: string where
  "certificate_type = ''CERTIFICATE''"

definition parse_label :: "string \<Rightarrow> string" where
  "parse_label path = ''parse source.tls.ca_cert '' @ go_quote path"

partial_function (option) rootCAs_loop ::
  "('c, 'k, 'f, 's) dblib \<Rightarrow> string \<Rightarrow> string \<Rightarrow> 'c list \<Rightarrow> bool \<Rightarrow> bool \<Rightarrow> (goerror + 'c list \<times> bool \<times> bool) option" where [code]:
  "rootCAs_loop lib path rootPEM rootCAs foundCertificateBlock foundCA =
     (if rootPEM = [] then Some (Inr (rootCAs, foundCertificateBlock, foundCA))
      else
        (case pem_Decode lib rootPEM of
           (None, remainder) \<Rightarrow>
             (if only_space rootPEM then Some (Inr (rootCAs, foundCertificateBlock, foundCA))
              else Some (Inl (Errorf (parse_label path @ '': malformed PEM data''))))
         | (Some blk, remainder) \<Rightarrow>
             (if blk_Type blk \<noteq> certificate_type
              then Some (Inl (Errorf (parse_label path @ '': unexpected PEM block type '' @ go_quote (blk_Type blk))))
              else
                (case x509_ParseCertificate lib (blk_Bytes blk) of
                   Inl err \<Rightarrow> Some (Inl (Wrap (parse_label path) err))
                 | Inr certificate \<Rightarrow>
                     (if \<not> IsCA lib certificate then rootCAs_loop lib path remainder rootCAs True foundCA
                      else rootCAs_loop lib path remainder (AddCert certificate rootCAs) True True)))))"

definition loadRootCAs :: "('c, 'k, 'f, 's) dblib \<Rightarrow> string \<Rightarrow> (goerror + 'c list) option" where
  "loadRootCAs lib path =
     (case lib_ReadFile lib path of
        Inl err \<Rightarrow> Some (Inl (Wrap (''read source.tls.ca_cert '' @ go_quote path) err))
      | Inr rootPEM \<Rightarrow>
          (case rootCAs_loop lib path rootPEM [] False False of
             None \<Rightarrow> None
           | Some (Inl err) \<Rightarrow> Some (Inl err)
           | Some (Inr (rootCAs, foundCertificateBlock, foundCA)) \<Rightarrow>
               (if \<not> foundCertificateBlock
                then Some (Inl (Errorf (parse_label path @ '': no PEM certificate blocks found'')))
                else if \<not> foundCA
                then Some (Inl (Errorf (parse_label path @ '': no usable CA certificates found'')))
                else Some (Inr rootCAs))))"

definition root_step :: "('c, 'k, 'f, 's) dblib \<Rightarrow> TLS \<Rightarrow> ('c, 'k) tlsConfig \<Rightarrow> (goerror + ('c, 'k) tlsConfig) option" where
  "root_step lib cfg tlsConfig =
     (if tls_CACert cfg \<noteq> []
      then (case loadRootCAs lib (tls_CACert cfg) of
              None \<Rightarrow> None
            | Some (Inl err) \<Rightarrow> Some (Inl err)
            | Some (Inr rootCAs) \<Rightarrow> Some (Inr (tlsConfig\<lparr>tc_RootCAs := Some rootCAs\<rparr>)))
      else Some (Inr tlsConfig))"

definition cert_step :: "('c, 'k, 'f, 's) dblib \<Rightarrow> TLS \<Rightarrow> ('c, 'k) tlsConfig \<Rightarrow> goerror + ('c, 'k) tlsConfig" where
  "cert_step lib cfg tlsConfig =
     (if tls_Cert cfg \<noteq> []
      then (case tls_LoadX509KeyPair lib (tls_Cert cfg) (tls_Key cfg) of
              Inl err \<Rightarrow> Inl (Wrap (''load source.tls cert/key '' @ go_quote (tls_Cert cfg) @ '' and '' @ go_quote (tls_Key cfg)) err)
            | Inr certificate \<Rightarrow> Inr (tlsConfig\<lparr>tc_Certificates := [certificate]\<rparr>))
      else Inr tlsConfig)"

definition zero_tlsConfig :: "('c, 'k) tlsConfig" where
  "zero_tlsConfig = \<lparr>tc_RootCAs = None, tc_Certificates = [], tc_ServerName = [], tc_InsecureSkipVerify = False,
     tc_VerifyPeerCertificate = None\<rparr>"

definition buildTLSConfig ::
  "('c, 'k, 'f, 's) dblib \<Rightarrow> TLS \<Rightarrow> ('c, 'k) tlsConfig option \<Rightarrow> (goerror + ('c, 'k) tlsConfig) option" where
  "buildTLSConfig lib cfg base =
     (case root_step lib cfg (case base of None \<Rightarrow> zero_tlsConfig | Some b \<Rightarrow> b) of
        None \<Rightarrow> None
      | Some (Inl err) \<Rightarrow> Some (Inl err)
      | Some (Inr tlsConfig) \<Rightarrow> Some (cert_step lib cfg tlsConfig))"

definition newConnConfig :: "('c, 'k, 'f, 's) dblib \<Rightarrow> Source \<Rightarrow> (goerror + ('c, 'k, 'f, 's) connConfig) option" where
  "newConnConfig lib source =
     (case pgx_ParseConfig lib (URL_String (connURL source)) of
        Inl err \<Rightarrow> Some (Inl (Wrap ''build postgres connection config'' err))
      | Inr connConfig \<Rightarrow>
          (if hasTLS (src_TLS source)
           then (case buildTLSConfig lib (src_TLS source) (cc_TLSConfig connConfig) of
                   None \<Rightarrow> None
                 | Some (Inl err) \<Rightarrow> Some (Inl err)
                 | Some (Inr tlsConfig) \<Rightarrow>
                     Some (Inr (connConfig\<lparr>cc_TLSConfig := Some tlsConfig, cc_Fallbacks := []\<rparr>)))
           else Some (Inr connConfig)))"

text \<open>\<open>stdlib.OpenDB\<close> makes a handle of the configuration and is a parameter.\<close>

definition Open :: "('c, 'k, 'f, 's) dblib \<Rightarrow> (('c, 'k, 'f, 's) connConfig \<Rightarrow> 'db) \<Rightarrow> Source \<Rightarrow> (goerror + 'db) option" where
  "Open lib stdlib_OpenDB source =
     (case newConnConfig lib source of
        None \<Rightarrow> None
      | Some (Inl err) \<Rightarrow> Some (Inl err)
      | Some (Inr connConfig) \<Rightarrow> Some (Inr (stdlib_OpenDB connConfig)))"

definition CheckReadiness :: "('w \<Rightarrow> goerror option) \<Rightarrow> 'w \<Rightarrow> goerror option" where
  "CheckReadiness db_PingContext w =
     (case db_PingContext w of
        Some err \<Rightarrow> Some (Wrap ''readiness ping'' err)
      | None \<Rightarrow> None)"

section \<open>The CA file\<close>

text \<open>
  A CA file by its meaning: PEM blocks of type \<open>CERTIFICATE\<close>, each holding a certificate, and
  nothing but white space after the last one.
\<close>

inductive pem_stream :: "('c, 'k, 'f, 's) dblib \<Rightarrow> string \<Rightarrow> 'c list \<Rightarrow> bool" for lib where
  pem_end: "data = [] \<or> fst (pem_Decode lib data) = None \<and> only_space data \<Longrightarrow> pem_stream lib data []"
| pem_block: "data \<noteq> [] \<Longrightarrow> pem_Decode lib data = (Some blk, remainder) \<Longrightarrow> blk_Type blk = certificate_type \<Longrightarrow>
    x509_ParseCertificate lib (blk_Bytes blk) = Inr c \<Longrightarrow> pem_stream lib remainder cs \<Longrightarrow> pem_stream lib data (c # cs)"


definition ca_file_spec :: "('c, 'k, 'f, 's) dblib \<Rightarrow> string \<Rightarrow> 'c list \<Rightarrow> bool" where
  "ca_file_spec lib path pool \<longleftrightarrow>
     (\<exists>data cs. lib_ReadFile lib path = Inr data \<and> pem_stream lib data cs \<and>
        pool = fold AddCert (filter (IsCA lib) cs) [] \<and> pool \<noteq> [])"

text \<open>What \<open>pem.Decode\<close> documents: the remainder of the input follows the block it returns.\<close>

definition pem_progress :: "('c, 'k, 'f, 's) dblib \<Rightarrow> bool" where
  "pem_progress lib \<longleftrightarrow> (\<forall>data blk remainder. pem_Decode lib data = (Some blk, remainder) \<longrightarrow> length remainder < length data)"

lemma stream_end_iff:
  assumes "data = [] \<or> fst (pem_Decode lib data) = None"
  shows "pem_stream lib data cs \<longleftrightarrow> cs = [] \<and> (data = [] \<or> only_space data)"
  by (rule iffI, erule pem_stream.cases) (use assms in \<open>auto intro: pem_end\<close>)

lemma stream_block_iff:
  assumes "data \<noteq> []" "pem_Decode lib data = (Some b, remainder)"
  shows "pem_stream lib data cs \<longleftrightarrow> (\<exists>c cs'. cs = c # cs' \<and> blk_Type b = certificate_type \<and>
    x509_ParseCertificate lib (blk_Bytes b) = Inr c \<and> pem_stream lib remainder cs')"
  by (rule iffI, erule pem_stream.cases) (use assms in \<open>auto intro: pem_block\<close>)

lemma pem_stream_unique: "pem_stream lib data cs \<Longrightarrow> pem_stream lib data cs' \<Longrightarrow> cs = cs'"
proof (induction arbitrary: cs' rule: pem_stream.induct)
  case (pem_end data)
  then show ?case by (auto simp: stream_end_iff)
next
  case (pem_block data blk remainder c cs)
  from pem_block.prems obtain cs'' where "cs' = c # cs''" "pem_stream lib remainder cs''"
    unfolding stream_block_iff [OF pem_block.hyps(1,2)] pem_block.hyps(4) by blast
  with pem_block.IH show ?case by blast
qed

text \<open>What the loop has to return for the data it is left with and what it has collected.\<close>

definition loop_ok ::
  "('c, 'k, 'f, 's) dblib \<Rightarrow> string \<Rightarrow> 'c list \<Rightarrow> bool \<Rightarrow> bool \<Rightarrow> goerror + 'c list \<times> bool \<times> bool \<Rightarrow> bool" where
  "loop_ok lib data pool fb fc r \<longleftrightarrow>
     (case r of
        Inl err \<Rightarrow> (\<forall>cs. \<not> pem_stream lib data cs)
      | Inr (pool', fb', fc') \<Rightarrow>
          (\<exists>cs. pem_stream lib data cs \<and> pool' = fold AddCert (filter (IsCA lib) cs) pool \<and>
             fb' = (fb \<or> cs \<noteq> []) \<and> fc' = (fc \<or> filter (IsCA lib) cs \<noteq> [])))"

lemma loop_ok_end: "pem_stream lib data [] \<Longrightarrow> loop_ok lib data pool fb fc (Inr (pool, fb, fc))"
  unfolding loop_ok_def sum.case prod.case by (rule exI [of _ "[]"]) simp

lemma loop_ok_error: "(\<And>cs. \<not> pem_stream lib data cs) \<Longrightarrow> loop_ok lib data pool fb fc (Inl err)"
  by (simp add: loop_ok_def)

lemma loop_ok_block:
  assumes "data \<noteq> []" "pem_Decode lib data = (Some b, remainder)" "blk_Type b = certificate_type"
    and "x509_ParseCertificate lib (blk_Bytes b) = Inr c"
    and "loop_ok lib remainder (if IsCA lib c then AddCert c pool else pool) True (fc \<or> IsCA lib c) r"
  shows "loop_ok lib data pool fb fc r"
proof (cases r)
  case (Inl err)
  with assms(5) have "\<not> pem_stream lib remainder cs" for cs by (simp add: loop_ok_def)
  with Inl show ?thesis by (simp add: loop_ok_error stream_block_iff [OF assms(1,2)])
next
  case (Inr res)
  obtain pool' fb' fc' where res: "res = (pool', fb', fc')" by (cases res)
  with Inr assms(5) obtain cs where cs: "pem_stream lib remainder cs"
    "pool' = fold AddCert (filter (IsCA lib) cs) (if IsCA lib c then AddCert c pool else pool)"
    "fb' \<longleftrightarrow> True" "fc' \<longleftrightarrow> (fc \<or> IsCA lib c) \<or> filter (IsCA lib) cs \<noteq> []"
    by (auto simp: loop_ok_def)
  then have "pem_stream lib data (c # cs)" by (intro pem_block [OF assms(1-4)])
  with cs Inr res show ?thesis
    unfolding loop_ok_def by (simp only: sum.case prod.case) (rule exI [of _ "c # cs"], auto)
qed

lemma rootCAs_loop_result:
  assumes "pem_progress lib"
  shows "\<exists>r. rootCAs_loop lib path data pool fb fc = Some r \<and> loop_ok lib data pool fb fc r"
proof (induction "length data" arbitrary: data pool fb fc rule: less_induct)
  case less
  obtain blk remainder where dec: "pem_Decode lib data = (blk, remainder)" by fastforce
  show ?case
  proof (cases "data = [] \<or> blk = None")
    case True
    moreover have "data \<noteq> [] \<Longrightarrow> blk = None \<Longrightarrow> \<not> only_space data \<Longrightarrow> \<not> pem_stream lib data cs" for cs
      using dec by (simp add: stream_end_iff)
    ultimately show ?thesis
      using dec by (subst rootCAs_loop.simps) (auto simp: loop_ok_end loop_ok_error pem_end)
  next
    case False
    then obtain b where nonempty: "data \<noteq> []" and b: "pem_Decode lib data = (Some b, remainder)" using dec by auto
    note iff = stream_block_iff [OF nonempty b]
    show ?thesis
    proof (cases "blk_Type b = certificate_type \<and> (\<exists>c. x509_ParseCertificate lib (blk_Bytes b) = Inr c)")
      case True
      then obtain c where c: "blk_Type b = certificate_type" "x509_ParseCertificate lib (blk_Bytes b) = Inr c" by blast
      have "length remainder < length data" using assms b by (simp add: pem_progress_def)
      then obtain r where r: "rootCAs_loop lib path remainder (if IsCA lib c then AddCert c pool else pool) True (fc \<or> IsCA lib c) = Some r"
        "loop_ok lib remainder (if IsCA lib c then AddCert c pool else pool) True (fc \<or> IsCA lib c) r"
        using less by blast
      have "rootCAs_loop lib path data pool fb fc = Some r"
        using r(1) nonempty b c by (subst rootCAs_loop.simps) (simp split: if_splits)
      with loop_ok_block [OF nonempty b c r(2)] show ?thesis by blast
    next
      case False
      with nonempty b show ?thesis
        by (subst rootCAs_loop.simps) (auto simp: loop_ok_error iff split: sum.split)
    qed
  qed
qed

lemma set_fold_AddCert: "set (fold AddCert cs pool) = set pool \<union> set cs"
  by (induction cs arbitrary: pool) (auto simp: AddCert_def)

lemma fold_AddCert_Nil_iff: "fold AddCert cs [] = [] \<longleftrightarrow> cs = []"
  using set_fold_AddCert [of cs "[]"] by (metis Un_empty_left empty_set set_empty)

lemma loadRootCAs_result:
  assumes "pem_progress lib"
  shows "\<exists>r. loadRootCAs lib path = Some r \<and> (\<forall>pool. r = Inr pool \<longleftrightarrow> ca_file_spec lib path pool)"
proof (cases "lib_ReadFile lib path")
  case (Inl err)
  then show ?thesis by (simp add: loadRootCAs_def ca_file_spec_def)
next
  case (Inr data)
  obtain r where r: "rootCAs_loop lib path data [] False False = Some r" and ok: "loop_ok lib data [] False False r"
    using rootCAs_loop_result [OF assms, of path data "[]" False False] by blast
  show ?thesis
  proof (cases r)
    case err: (Inl err)
    with ok have "\<not> pem_stream lib data cs" for cs by (simp add: loop_ok_def)
    with err Inr r show ?thesis by (simp add: loadRootCAs_def ca_file_spec_def)
  next
    case res: (Inr res)
    with ok obtain cs where cs: "pem_stream lib data cs"
      and res': "res = (fold AddCert (filter (IsCA lib) cs) [], cs \<noteq> [], filter (IsCA lib) cs \<noteq> [])"
      by (cases res) (auto simp: loop_ok_def)
    have "ca_file_spec lib path p \<longleftrightarrow> p = fold AddCert (filter (IsCA lib) cs) [] \<and> filter (IsCA lib) cs \<noteq> []" for p
      using Inr cs pem_stream_unique [OF cs] unfolding ca_file_spec_def by (metis fold_AddCert_Nil_iff sum.inject(2))
    moreover have "filter (IsCA lib) cs \<noteq> [] \<Longrightarrow> cs \<noteq> []" by auto
    ultimately show ?thesis
      using Inr res res' r by (cases "filter (IsCA lib) cs = []"; cases "cs = []") (auto simp: loadRootCAs_def)
  qed
qed

section \<open>The connection configuration\<close>

lemma buildTLSConfig_Some:
  assumes "buildTLSConfig lib cfg base = Some (Inr tc)"
  shows "\<exists>tc0. root_step lib cfg (case base of None \<Rightarrow> zero_tlsConfig | Some b \<Rightarrow> b) = Some (Inr tc0) \<and> cert_step lib cfg tc0 = Inr tc"
  using assms by (auto simp: buildTLSConfig_def split: option.splits sum.splits)

lemma root_step_Some:
  assumes "pem_progress lib" "root_step lib cfg tc0 = Some (Inr tc)"
  shows "(if tls_CACert cfg = [] then tc = tc0
     else \<exists>pool. ca_file_spec lib (tls_CACert cfg) pool \<and> tc = tc0\<lparr>tc_RootCAs := Some pool\<rparr>)"
  using assms(2) loadRootCAs_result [OF assms(1), of "tls_CACert cfg"]
  by (auto simp: root_step_def split: if_splits option.splits sum.splits)

lemma cert_step_Inr:
  assumes "cert_step lib cfg tc0 = Inr tc"
  shows "(if tls_Cert cfg = [] then tc = tc0
     else \<exists>kp. tls_LoadX509KeyPair lib (tls_Cert cfg) (tls_Key cfg) = Inr kp \<and> tc = tc0\<lparr>tc_Certificates := [kp]\<rparr>)"
  using assms by (auto simp: cert_step_def split: if_splits sum.splits)

lemma newConnConfig_total:
  assumes "pem_progress lib"
  shows "newConnConfig lib source \<noteq> None"
  using loadRootCAs_result [OF assms, of "tls_CACert (src_TLS source)"]
  by (auto simp: newConnConfig_def buildTLSConfig_def root_step_def split: option.splits sum.splits)

text \<open>
  C10. Reading the CA file always ends, whatever the file holds, as long as the PEM decoder
  consumes the block it returns; and the pool is accepted exactly when the file is a sequence of
  certificate blocks, followed at most by white space, at least one of which is a CA certificate.
  The pool then holds the CA certificates of the file and no other.
\<close>

theorem loadRootCAs_terminates:
  assumes "pem_progress lib"
  shows "\<exists>r. loadRootCAs lib path = Some r \<and> (\<forall>pool. r = Inr pool \<longleftrightarrow> ca_file_spec lib path pool)"
  by (rule loadRootCAs_result [OF assms])

text \<open>
  From a configuration without TLS, as pgx returns it for the mode that tries without TLS first,
  the TLS settings have neither a server name nor leave to skip the check of it.
\<close>

lemma allow_mode_has_no_server_name:
  assumes "pem_progress lib" "buildTLSConfig lib cfg None = Some (Inr tc)"
  shows "tc_ServerName tc = [] \<and> \<not> tc_InsecureSkipVerify tc"
proof -
  obtain tc0 where tc0: "root_step lib cfg zero_tlsConfig = Some (Inr tc0)" "cert_step lib cfg tc0 = Inr tc"
    using buildTLSConfig_Some [OF assms(2)] by auto
  show ?thesis
    using root_step_Some [OF assms(1) tc0(1)] cert_step_Inr [OF tc0(2)]
    by (auto simp: zero_tlsConfig_def split: if_splits)
qed

text \<open>What the TLS files of a source make of the configuration pgx derived from its URL.\<close>

definition tls_applied ::
  "('c, 'k, 'f, 's) dblib \<Rightarrow> TLS \<Rightarrow> ('c, 'k) tlsConfig \<Rightarrow> ('c, 'k) tlsConfig \<Rightarrow> bool" where
  "tls_applied lib cfg base tc \<longleftrightarrow>
     (\<exists>roots certs. tc = base\<lparr>tc_RootCAs := roots, tc_Certificates := certs\<rparr> \<and>
        (if tls_CACert cfg = [] then roots = tc_RootCAs base
         else \<exists>pool. ca_file_spec lib (tls_CACert cfg) pool \<and> roots = Some pool) \<and>
        (if tls_Cert cfg = [] then certs = tc_Certificates base
         else \<exists>kp. tls_LoadX509KeyPair lib (tls_Cert cfg) (tls_Key cfg) = Inr kp \<and> certs = [kp]))"

lemma buildTLSConfig_applied:
  assumes "pem_progress lib" "buildTLSConfig lib cfg base = Some (Inr tc)"
  shows "tls_applied lib cfg (case base of None \<Rightarrow> zero_tlsConfig | Some b \<Rightarrow> b) tc"
proof -
  obtain tc0 where tc0: "root_step lib cfg (case base of None \<Rightarrow> zero_tlsConfig | Some b \<Rightarrow> b) = Some (Inr tc0)"
    "cert_step lib cfg tc0 = Inr tc"
    using buildTLSConfig_Some [OF assms(2)] by blast
  let ?b = "case base of None \<Rightarrow> zero_tlsConfig | Some b \<Rightarrow> b"
  have tc: "tc = ?b\<lparr>tc_RootCAs := tc_RootCAs tc, tc_Certificates := tc_Certificates tc\<rparr>"
    using root_step_Some [OF assms(1) tc0(1)] cert_step_Inr [OF tc0(2)] by (auto split: if_splits)
  show ?thesis
    unfolding tls_applied_def using root_step_Some [OF assms(1) tc0(1)] cert_step_Inr [OF tc0(2)]
    by (intro exI [of _ "tc_RootCAs tc"] exI [of _ "tc_Certificates tc"] conjI tc) (auto split: if_splits)
qed

text \<open>
  What \<open>crypto/tls\<close> documents of the check of a server: unless it is skipped, the certificates must
  lead to a root and name the server; then the callback, if there is one, decides. \<open>chain_ok\<close> is the
  library's check. So a CA file has no influence on which servers are accepted when the kept
  configuration skips the check, as that of pgx does for the modes \<open>prefer\<close>, \<open>require\<close> and \<open>verify-ca\<close>.
\<close>

definition server_accepted ::
  "('c list option \<Rightarrow> string \<Rightarrow> string list \<Rightarrow> bool) \<Rightarrow> ('c, 'k) tlsConfig \<Rightarrow> string list \<Rightarrow> bool" where
  "server_accepted chain_ok tc sent \<longleftrightarrow>
     (tc_InsecureSkipVerify tc \<or> chain_ok (tc_RootCAs tc) (tc_ServerName tc) sent) \<and>
     (case tc_VerifyPeerCertificate tc of None \<Rightarrow> True | Some verify \<Rightarrow> verify sent = None)"

lemma ca_file_unused_when_skipping:
  assumes "tls_applied lib cfg base tc" "tc_InsecureSkipVerify base"
  shows "server_accepted chain_ok tc sent = server_accepted chain_ok base sent"
  using assms by (auto simp: tls_applied_def server_accepted_def)

lemma newConnConfig_Inr:
  assumes "pem_progress lib" "newConnConfig lib source = Some (Inr cc)"
  shows "\<exists>cc0. pgx_ParseConfig lib (URL_String (connURL source)) = Inr cc0 \<and> cc_Settings cc = cc_Settings cc0 \<and>
        (if hasTLS (src_TLS source)
         then cc_Fallbacks cc = [] \<and> (\<exists>tc. cc_TLSConfig cc = Some tc \<and>
           tls_applied lib (src_TLS source) (case cc_TLSConfig cc0 of None \<Rightarrow> zero_tlsConfig | Some b \<Rightarrow> b) tc)
         else cc = cc0)"
proof (cases "pgx_ParseConfig lib (URL_String (connURL source))")
  case (Inl err)
  with assms(2) show ?thesis by (simp add: newConnConfig_def)
next
  case (Inr cc0)
  show ?thesis
  proof (cases "hasTLS (src_TLS source)")
    case False
    with assms(2) Inr show ?thesis by (simp add: newConnConfig_def)
  next
    case True
    then obtain tc where "buildTLSConfig lib (src_TLS source) (cc_TLSConfig cc0) = Some (Inr tc)"
      "cc = cc0\<lparr>cc_TLSConfig := Some tc, cc_Fallbacks := []\<rparr>"
      using assms(2) Inr by (auto simp: newConnConfig_def split: option.splits sum.splits)
    with buildTLSConfig_applied [OF assms(1)] True Inr show ?thesis by simp
  qed
qed

text \<open>
  C16. What TLS files make of the connection configuration. Building it always ends. When it
  succeeds for a source that names TLS files, it is the one pgx derived from the URL except that
  the TLS settings, or empty ones where pgx had none, have the CA certificates of the CA file
  as their roots and the named key pair as their only client certificate, as far as these are named, that every other TLS
  setting is kept, and that the fallbacks are dropped, so no attempt is made with other settings.
  Without TLS files it is exactly the one of pgx.
\<close>

theorem tls_files_applied:
  assumes "pem_progress lib"
  shows "\<exists>r. newConnConfig lib source = Some r \<and>
    (\<forall>cc. r = Inr cc \<longrightarrow>
      (\<exists>cc0. pgx_ParseConfig lib (URL_String (connURL source)) = Inr cc0 \<and> cc_Settings cc = cc_Settings cc0 \<and>
        (if hasTLS (src_TLS source)
         then cc_Fallbacks cc = [] \<and> (\<exists>tc. cc_TLSConfig cc = Some tc \<and>
           tls_applied lib (src_TLS source) (case cc_TLSConfig cc0 of None \<Rightarrow> zero_tlsConfig | Some b \<Rightarrow> b) tc)
         else cc = cc0)))"
proof (cases "newConnConfig lib source")
  case None
  with newConnConfig_total [OF assms] show ?thesis by blast
next
  case (Some r)
  have "\<exists>cc0. pgx_ParseConfig lib (URL_String (connURL source)) = Inr cc0 \<and> cc_Settings cc = cc_Settings cc0 \<and>
        (if hasTLS (src_TLS source)
         then cc_Fallbacks cc = [] \<and> (\<exists>tc. cc_TLSConfig cc = Some tc \<and>
           tls_applied lib (src_TLS source) (case cc_TLSConfig cc0 of None \<Rightarrow> zero_tlsConfig | Some b \<Rightarrow> b) tc)
         else cc = cc0)" if "r = Inr cc" for cc
    using Some that newConnConfig_Inr [OF assms] by blast
  with Some show ?thesis by blast
qed

text \<open>
  A library whose PEM blocks are single letters, some of them CA certificates, and whose
  configuration checks the server's name.
\<close>

definition demo_base :: "(string, string) tlsConfig" where
  "demo_base = \<lparr>tc_RootCAs = None, tc_Certificates = [], tc_ServerName = ''db'', tc_InsecureSkipVerify = False,
     tc_VerifyPeerCertificate = None\<rparr>"

definition demo_dblib :: "(string, string, nat, string) dblib" where
  "demo_dblib =
     \<lparr>lib_ReadFile = (\<lambda>p. if p = ''ca.pem'' then Inr (''aBcDB'' @ nl) else Inl (Errorf ''no such file'')),
      pem_Decode = (\<lambda>s. case s of [] \<Rightarrow> (None, []) | c # t \<Rightarrow>
        if [c] = nl then (None, s) else (Some \<lparr>blk_Type = certificate_type, blk_Bytes = [c]\<rparr>, t)),
      x509_ParseCertificate = Inr, IsCA = (\<lambda>c. c = ''B'' \<or> c = ''D''),
      tls_LoadX509KeyPair = (\<lambda>c k. Inr (c @ k)),
      pgx_ParseConfig = (\<lambda>u. Inr \<lparr>cc_TLSConfig = Some demo_base, cc_Fallbacks = [7], cc_Settings = u\<rparr>)\<rparr>"

definition demo_tls_source :: Source where
  "demo_tls_source = \<lparr>src_Host = ''db'', src_Port = 5432, src_SSLMode = SSLModeVerifyFull, src_Username = ''ann'', src_Password = ''pw'',
     src_DBName = ''bench'', src_TLS = \<lparr>tls_CACert = ''ca.pem'', tls_Cert = ''c'', tls_Key = ''k''\<rparr>\<rparr>"

lemma demo_pem_progress: "pem_progress demo_dblib"
  by (auto simp: pem_progress_def demo_dblib_def split: list.splits if_splits)

lemma demo_loadRootCAs: "loadRootCAs demo_dblib ''ca.pem'' = Some (Inr [''B'', ''D''])"
  by code_simp

lemma demo_fields:
  "pgx_ParseConfig demo_dblib u = Inr \<lparr>cc_TLSConfig = Some demo_base, cc_Fallbacks = [7], cc_Settings = u\<rparr>"
  "tls_LoadX509KeyPair demo_dblib c k = Inr (c @ k)"
  by (simp_all add: demo_dblib_def)

lemma demo_tls: "src_TLS demo_tls_source = \<lparr>tls_CACert = ''ca.pem'', tls_Cert = ''c'', tls_Key = ''k''\<rparr>"
  by (simp add: demo_tls_source_def)

lemma demo_newConnConfig:
  "newConnConfig demo_dblib demo_tls_source =
     Some (Inr \<lparr>cc_TLSConfig = Some (demo_base\<lparr>tc_RootCAs := Some [''B'', ''D''], tc_Certificates := [''ck'']\<rparr>),
       cc_Fallbacks = [], cc_Settings = URL_String (connURL demo_tls_source)\<rparr>)"
  by (simp add: newConnConfig_def buildTLSConfig_def root_step_def cert_step_def hasTLS_def
      demo_tls demo_fields demo_loadRootCAs)

theorem loadRootCAs_terminates_witness:
  "pem_progress demo_dblib \<and> ca_file_spec demo_dblib ''ca.pem'' [''B'', ''D'']"
  using loadRootCAs_terminates [OF demo_pem_progress, of "''ca.pem''"] demo_pem_progress demo_loadRootCAs by auto

theorem tls_files_applied_witness:
  "pem_progress demo_dblib \<and> tls_applied demo_dblib (src_TLS demo_tls_source) demo_base
     (demo_base\<lparr>tc_RootCAs := Some [''B'', ''D''], tc_Certificates := [''ck'']\<rparr>)"
  using tls_files_applied [OF demo_pem_progress, of demo_tls_source] demo_pem_progress
  by (simp add: demo_newConnConfig demo_fields hasTLS_def demo_tls)

end
