(* ===== verification/Options.thy ===== *)
theory Options
  imports Go_Errors
begin

text \<open>
  The benchmark option contract, \<open>internal/benchmark\<close>: \<open>options.go\<close> (start and alter
  options, defaults, validation, \<open>ApplyAlter\<close>) and \<open>scale.go\<close>. A pointer field is an
  option; the named string types \<open>Profile\<close> and \<open>TransactionMix\<close> are strings, since a
  request may carry any string. The JSON decoder of the standard library is a parameter
  of \<open>decodeJSON\<close>: one function for \<open>Decode(target)\<close> and one for the second
  \<open>Decode(&trailing)\<close> on what is left of the reader.
\<close>

section \<open>Data\<close>

definition defaultScale :: int where "defaultScale = 10"
definition defaultClients :: int where "defaultClients = 1"
definition defaultDurationSeconds :: int where "defaultDurationSeconds = 60"
definition defaultWarmupSeconds :: int where "defaultWarmupSeconds = 10"
definition defaultReadPercent :: int where "defaultReadPercent = 80"

lemmas default_defs = defaultScale_def defaultClients_def defaultDurationSeconds_def
  defaultWarmupSeconds_def defaultReadPercent_def

definition ProfileRead :: string where "ProfileRead = ''read''"
definition ProfileWrite :: string where "ProfileWrite = ''write''"
definition ProfileTransaction :: string where "ProfileTransaction = ''transaction''"
definition ProfileJoin :: string where "ProfileJoin = ''join''"
definition ProfileLock :: string where "ProfileLock = ''lock''"
definition ProfileMixed :: string where "ProfileMixed = ''mixed''"

lemmas profile_defs = ProfileRead_def ProfileWrite_def ProfileTransaction_def
  ProfileJoin_def ProfileLock_def ProfileMixed_def

definition TransactionMixBalanced :: string where "TransactionMixBalanced = ''balanced''"
definition TransactionMixReadHeavy :: string where "TransactionMixReadHeavy = ''read-heavy''"
definition TransactionMixWriteHeavy :: string where "TransactionMixWriteHeavy = ''write-heavy''"

lemmas mix_defs = TransactionMixBalanced_def TransactionMixReadHeavy_def TransactionMixWriteHeavy_def

record StartOptions =
  so_Scale :: int
  so_Clients :: int
  so_DurationSeconds :: int
  so_WarmupSeconds :: int
  so_Reset :: bool
  so_Profile :: string
  so_ReadPercent :: "int option"
  so_TransactionMix :: string
  so_TargetTPS :: "int option"

record AlterOptions =
  ao_Clients :: "int option"
  ao_TargetTPS :: "int option"

record startPayload =
  sp_Scale :: "int option"
  sp_Clients :: "int option"
  sp_DurationSeconds :: "int option"
  sp_WarmupSeconds :: "int option"
  sp_Reset :: "bool option"
  sp_Profile :: "string option"
  sp_ReadPercent :: "int option"
  sp_TransactionMix :: "string option"
  sp_TargetTPS :: "int option"

text \<open>\<open>StartOptions{}\<close>, Go's zero value.\<close>

definition zeroStartOptions :: StartOptions where
  "zeroStartOptions =
     \<lparr>so_Scale = 0, so_Clients = 0, so_DurationSeconds = 0, so_WarmupSeconds = 0,
      so_Reset = False, so_Profile = [], so_ReadPercent = None, so_TransactionMix = [],
      so_TargetTPS = None\<rparr>"

section \<open>Validation\<close>

definition isValidProfile :: "string \<Rightarrow> bool" where
  "isValidProfile profile \<longleftrightarrow>
     profile \<in> {ProfileRead, ProfileWrite, ProfileTransaction, ProfileJoin, ProfileLock, ProfileMixed}"

definition isValidTransactionMix :: "string \<Rightarrow> bool" where
  "isValidTransactionMix mix \<longleftrightarrow>
     mix \<in> {TransactionMixBalanced, TransactionMixReadHeavy, TransactionMixWriteHeavy}"

definition validateStartOptions :: "StartOptions \<Rightarrow> goerror option" where
  \<open>validateStartOptions options =
    (if so_Scale options < 1 then Some (Errorf ''scale must be at least 1'')
     else if so_Clients options < 1 then Some (Errorf ''clients must be at least 1'')
     else if so_DurationSeconds options < 1 then Some (Errorf ''duration_seconds must be at least 1'')
     else if so_WarmupSeconds options < 0 then Some (Errorf ''warmup_seconds must be at least 0'')
     else if so_WarmupSeconds options \<ge> so_DurationSeconds options
       then Some (Errorf ''warmup_seconds must be less than duration_seconds'')
     else if \<not> isValidProfile (so_Profile options)
       then Some (Errorf ''profile must be one of read, write, transaction, join, lock, mixed'')
     else if so_ReadPercent options \<noteq> None \<and> so_Profile options \<noteq> ProfileMixed
       then Some (Errorf ''read_percent is only supported for profile "mixed"'')
     else if so_ReadPercent options \<noteq> None
         \<and> (the (so_ReadPercent options) < 0 \<or> the (so_ReadPercent options) > 100)
       then Some (Errorf ''read_percent must be between 0 and 100'')
     else if so_TransactionMix options \<noteq> [] \<and> so_Profile options \<noteq> ProfileTransaction
       then Some (Errorf ''transaction_mix is only supported for profile "transaction"'')
     else if so_TransactionMix options \<noteq> [] \<and> \<not> isValidTransactionMix (so_TransactionMix options)
       then Some (Errorf ''transaction_mix must be one of balanced, read-heavy, write-heavy'')
     else if so_Profile options = ProfileLock \<and> so_Clients options < 2
       then Some (Errorf ''clients must be at least 2 for profile "lock"'')
     else if so_TargetTPS options \<noteq> None \<and> the (so_TargetTPS options) < 1
       then Some (Errorf ''target_tps must be at least 1'')
     else None)\<close>

definition validateAlterOptions :: "AlterOptions \<Rightarrow> goerror option" where
  "validateAlterOptions options =
    (if ao_Clients options = None \<and> ao_TargetTPS options = None
       then Some (Errorf ''alter request must include at least one field'')
     else if ao_Clients options \<noteq> None \<and> the (ao_Clients options) < 1
       then Some (Errorf ''clients must be at least 1'')
     else if ao_TargetTPS options \<noteq> None \<and> the (ao_TargetTPS options) < 1
       then Some (Errorf ''target_tps must be at least 1'')
     else None)"

section \<open>Operations\<close>

text \<open>Copying the pointed-to integers is the identity on values.\<close>

definition intPtr :: "int \<Rightarrow> int option" where
  "intPtr value = Some value"

definition cloneStartOptions :: "StartOptions \<Rightarrow> StartOptions" where
  "cloneStartOptions options =
     (let cloned = options;
          cloned = (case so_ReadPercent options of None \<Rightarrow> cloned
                    | Some v \<Rightarrow> cloned\<lparr>so_ReadPercent := intPtr v\<rparr>)
      in (case so_TargetTPS options of None \<Rightarrow> cloned
          | Some v \<Rightarrow> cloned\<lparr>so_TargetTPS := intPtr v\<rparr>))"

definition decodeJSON ::
  "('r \<Rightarrow> (goerror + 'a) \<times> 'r) \<Rightarrow> ('r \<Rightarrow> goerror option) \<Rightarrow> 'r \<Rightarrow> goerror + 'a" where
  "decodeJSON decode decode_trailing r =
     (case decode r of
        (Inl err, _) \<Rightarrow> Inl (Wrap ''decode JSON'' err)
      | (Inr target, rest) \<Rightarrow>
          (case decode_trailing rest of
             None \<Rightarrow> Inl (Errorf ''decode JSON: unexpected trailing data'')
           | Some err \<Rightarrow>
               if \<not> errors_Is err ErrEOF then Inl (Wrap ''decode JSON'' err) else Inr target))"

text \<open>The part of \<open>DecodeStartOptions\<close> between decoding and validation, in its four stages.\<close>

definition startDefaults :: StartOptions where
  "startDefaults = zeroStartOptions\<lparr>so_Scale := defaultScale, so_Clients := defaultClients,
     so_DurationSeconds := defaultDurationSeconds, so_WarmupSeconds := defaultWarmupSeconds,
     so_Profile := ProfileMixed\<rparr>"

definition assignScalars :: "startPayload \<Rightarrow> StartOptions \<Rightarrow> StartOptions" where
  "assignScalars payload options =
     assign_some (\<lambda>v s. s\<lparr>so_Profile := v\<rparr>) (sp_Profile payload)
    (assign_some (\<lambda>v s. s\<lparr>so_Reset := v\<rparr>) (sp_Reset payload)
    (assign_some (\<lambda>v s. s\<lparr>so_WarmupSeconds := v\<rparr>) (sp_WarmupSeconds payload)
    (assign_some (\<lambda>v s. s\<lparr>so_DurationSeconds := v\<rparr>) (sp_DurationSeconds payload)
    (assign_some (\<lambda>v s. s\<lparr>so_Clients := v\<rparr>) (sp_Clients payload)
    (assign_some (\<lambda>v s. s\<lparr>so_Scale := v\<rparr>) (sp_Scale payload) options)))))"

definition assignReadPercent :: "startPayload \<Rightarrow> StartOptions \<Rightarrow> StartOptions" where
  "assignReadPercent payload options =
     (case sp_ReadPercent payload of
        Some v \<Rightarrow> options\<lparr>so_ReadPercent := intPtr v\<rparr>
      | None \<Rightarrow> if so_Profile options = ProfileMixed
                then options\<lparr>so_ReadPercent := intPtr defaultReadPercent\<rparr> else options)"

definition assignTransactionMix :: "startPayload \<Rightarrow> StartOptions \<Rightarrow> StartOptions" where
  "assignTransactionMix payload options =
     (case sp_TransactionMix payload of
        Some v \<Rightarrow> options\<lparr>so_TransactionMix := v\<rparr>
      | None \<Rightarrow> if so_Profile options = ProfileTransaction
                then options\<lparr>so_TransactionMix := TransactionMixBalanced\<rparr> else options)"

definition startOptionsOf :: "startPayload \<Rightarrow> StartOptions" where
  "startOptionsOf payload =
     assign_some (\<lambda>v s. s\<lparr>so_TargetTPS := intPtr v\<rparr>) (sp_TargetTPS payload)
      (assignTransactionMix payload (assignReadPercent payload (assignScalars payload startDefaults)))"

definition DecodeStartOptions ::
  "('r \<Rightarrow> (goerror + startPayload) \<times> 'r) \<Rightarrow> ('r \<Rightarrow> goerror option) \<Rightarrow> 'r \<Rightarrow> goerror + StartOptions" where
  "DecodeStartOptions decode decode_trailing r =
     (case decodeJSON decode decode_trailing r of
        Inl err \<Rightarrow> Inl err
      | Inr payload \<Rightarrow>
          (let options = startOptionsOf payload
           in case validateStartOptions options of Some err \<Rightarrow> Inl err | None \<Rightarrow> Inr options))"

definition DecodeAlterOptions ::
  "('r \<Rightarrow> (goerror + AlterOptions) \<times> 'r) \<Rightarrow> ('r \<Rightarrow> goerror option) \<Rightarrow> 'r \<Rightarrow> goerror + AlterOptions" where
  "DecodeAlterOptions decode decode_trailing r =
     (case decodeJSON decode decode_trailing r of
        Inl err \<Rightarrow> Inl err
      | Inr options \<Rightarrow>
          (case validateAlterOptions options of Some err \<Rightarrow> Inl err | None \<Rightarrow> Inr options))"

definition ApplyAlter :: "StartOptions \<Rightarrow> AlterOptions \<Rightarrow> goerror + StartOptions" where
  "ApplyAlter opts alter =
     (case validateAlterOptions alter of
        Some err \<Rightarrow> Inl err
      | None \<Rightarrow>
          (let updated = cloneStartOptions opts;
               updated = (case ao_Clients alter of None \<Rightarrow> updated
                          | Some v \<Rightarrow> updated\<lparr>so_Clients := v\<rparr>);
               updated = (case ao_TargetTPS alter of None \<Rightarrow> updated
                          | Some v \<Rightarrow> updated\<lparr>so_TargetTPS := intPtr v\<rparr>)
           in case validateStartOptions updated of Some err \<Rightarrow> Inl err | None \<Rightarrow> Inr updated))"

section \<open>scale.go\<close>

record ScaleModel =
  Branches :: int
  Tellers :: int
  Accounts :: int
  HistoryRows :: int

definition ResolveScale :: "int \<Rightarrow> ScaleModel" where
  "ResolveScale scale =
     \<lparr>Branches = scale, Tellers = wrap64 (scale * 10), Accounts = wrap64 (scale * 100000),
      HistoryRows = 0\<rparr>"

section \<open>Lemmas\<close>

lemma cloneStartOptions_id [simp]: "cloneStartOptions options = options"
  by (cases options) (simp add: cloneStartOptions_def intPtr_def Let_def split: option.splits)

text \<open>What validation accepts, as one conjunction.\<close>

definition valid_start :: "StartOptions \<Rightarrow> bool" where
  "valid_start s \<longleftrightarrow>
     1 \<le> so_Scale s \<and> 1 \<le> so_Clients s \<and> 0 \<le> so_WarmupSeconds s
   \<and> so_WarmupSeconds s < so_DurationSeconds s
   \<and> isValidProfile (so_Profile s)
   \<and> (\<forall>p. so_ReadPercent s = Some p \<longrightarrow> so_Profile s = ProfileMixed \<and> 0 \<le> p \<and> p \<le> 100)
   \<and> (so_TransactionMix s = [] \<or>
        so_Profile s = ProfileTransaction \<and> isValidTransactionMix (so_TransactionMix s))
   \<and> (so_Profile s = ProfileLock \<longrightarrow> 2 \<le> so_Clients s)
   \<and> (\<forall>t. so_TargetTPS s = Some t \<longrightarrow> 1 \<le> t)"

lemma validateStartOptions_iff: "validateStartOptions s = None \<longleftrightarrow> valid_start s"
  by (cases "so_ReadPercent s"; cases "so_TargetTPS s")
    (auto simp only: validateStartOptions_def valid_start_def guard_None option.sel option.simps
       simp_thms not_less not_le)

definition valid_alter :: "AlterOptions \<Rightarrow> bool" where
  "valid_alter a \<longleftrightarrow> (ao_Clients a \<noteq> None \<or> ao_TargetTPS a \<noteq> None)
     \<and> (\<forall>n. ao_Clients a = Some n \<longrightarrow> 1 \<le> n) \<and> (\<forall>t. ao_TargetTPS a = Some t \<longrightarrow> 1 \<le> t)"

lemma validateAlterOptions_iff: "validateAlterOptions a = None \<longleftrightarrow> valid_alter a"
  by (cases "ao_Clients a"; cases "ao_TargetTPS a")
    (auto simp: validateAlterOptions_def valid_alter_def guard_None not_less)

text \<open>The options with the requested fields replaced, before they are validated.\<close>

definition altered :: "StartOptions \<Rightarrow> AlterOptions \<Rightarrow> StartOptions" where
  "altered s a = s\<lparr>so_Clients := (case ao_Clients a of None \<Rightarrow> so_Clients s | Some n \<Rightarrow> n),
                   so_TargetTPS := (case ao_TargetTPS a of None \<Rightarrow> so_TargetTPS s | Some t \<Rightarrow> Some t)\<rparr>"

lemma ApplyAlter_eq:
  "ApplyAlter s a =
     (case validateAlterOptions a of Some err \<Rightarrow> Inl err
      | None \<Rightarrow> (case validateStartOptions (altered s a) of
                   Some err \<Rightarrow> Inl err | None \<Rightarrow> Inr (altered s a)))"
  by (simp add: ApplyAlter_def altered_def intPtr_def Let_def split: option.splits)

lemma ApplyAlter_Inr: "ApplyAlter s a = Inr s' \<longleftrightarrow> valid_alter a \<and> valid_start s' \<and> s' = altered s a"
  by (auto simp: ApplyAlter_eq simp flip: validateStartOptions_iff validateAlterOptions_iff
      split: option.splits)

text \<open>Each field of the options comes from the payload, or is the default.\<close>

lemmas assign_frames =
  assign_some_frame [where f = so_Scale]
  assign_some_frame [where f = so_Clients]
  assign_some_frame [where f = so_DurationSeconds]
  assign_some_frame [where f = so_WarmupSeconds]
  assign_some_frame [where f = so_Reset]
  assign_some_frame [where f = so_Profile]
  assign_some_frame [where f = so_ReadPercent]
  assign_some_frame [where f = so_TransactionMix]
  assign_some_frame [where f = so_TargetTPS]

lemma assign_own:
  "so_Scale (assign_some (\<lambda>v s. s\<lparr>so_Scale := v\<rparr>) p s) = (case p of None \<Rightarrow> so_Scale s | Some v \<Rightarrow> v)"
  "so_Clients (assign_some (\<lambda>v s. s\<lparr>so_Clients := v\<rparr>) p s) = (case p of None \<Rightarrow> so_Clients s | Some v \<Rightarrow> v)"
  "so_DurationSeconds (assign_some (\<lambda>v s. s\<lparr>so_DurationSeconds := v\<rparr>) p s)
     = (case p of None \<Rightarrow> so_DurationSeconds s | Some v \<Rightarrow> v)"
  "so_WarmupSeconds (assign_some (\<lambda>v s. s\<lparr>so_WarmupSeconds := v\<rparr>) p s)
     = (case p of None \<Rightarrow> so_WarmupSeconds s | Some v \<Rightarrow> v)"
  "so_Reset (assign_some (\<lambda>v s. s\<lparr>so_Reset := v\<rparr>) b s) = (case b of None \<Rightarrow> so_Reset s | Some v \<Rightarrow> v)"
  "so_Profile (assign_some (\<lambda>v s. s\<lparr>so_Profile := v\<rparr>) q s) = (case q of None \<Rightarrow> so_Profile s | Some v \<Rightarrow> v)"
  "so_TargetTPS (assign_some (\<lambda>v s. s\<lparr>so_TargetTPS := intPtr v\<rparr>) p s)
     = (case p of None \<Rightarrow> so_TargetTPS s | Some v \<Rightarrow> Some v)"
  by (simp_all add: intPtr_def assign_some_def split: option.split)

lemma assignReadPercent_sel:
  "so_Scale (assignReadPercent p s) = so_Scale s" "so_Clients (assignReadPercent p s) = so_Clients s"
  "so_DurationSeconds (assignReadPercent p s) = so_DurationSeconds s"
  "so_WarmupSeconds (assignReadPercent p s) = so_WarmupSeconds s"
  "so_Reset (assignReadPercent p s) = so_Reset s" "so_Profile (assignReadPercent p s) = so_Profile s"
  "so_TransactionMix (assignReadPercent p s) = so_TransactionMix s"
  "so_TargetTPS (assignReadPercent p s) = so_TargetTPS s"
  "so_ReadPercent (assignReadPercent p s) =
     (case sp_ReadPercent p of Some v \<Rightarrow> Some v
      | None \<Rightarrow> if so_Profile s = ProfileMixed then Some defaultReadPercent else so_ReadPercent s)"
  by (simp_all add: assignReadPercent_def intPtr_def split: option.split)

lemma assignTransactionMix_sel:
  "so_Scale (assignTransactionMix p s) = so_Scale s" "so_Clients (assignTransactionMix p s) = so_Clients s"
  "so_DurationSeconds (assignTransactionMix p s) = so_DurationSeconds s"
  "so_WarmupSeconds (assignTransactionMix p s) = so_WarmupSeconds s"
  "so_Reset (assignTransactionMix p s) = so_Reset s" "so_Profile (assignTransactionMix p s) = so_Profile s"
  "so_ReadPercent (assignTransactionMix p s) = so_ReadPercent s"
  "so_TargetTPS (assignTransactionMix p s) = so_TargetTPS s"
  "so_TransactionMix (assignTransactionMix p s) =
     (case sp_TransactionMix p of Some v \<Rightarrow> v
      | None \<Rightarrow> if so_Profile s = ProfileTransaction then TransactionMixBalanced else so_TransactionMix s)"
  by (simp_all add: assignTransactionMix_def split: option.split)

lemmas assign_simps = startOptionsOf_def assignScalars_def startDefaults_def zeroStartOptions_def
  assign_own assign_frames assignReadPercent_sel assignTransactionMix_sel

lemma startOptionsOf_sel [simp]:
  "so_Scale (startOptionsOf p) = (case sp_Scale p of None \<Rightarrow> defaultScale | Some v \<Rightarrow> v)"
  "so_Clients (startOptionsOf p) = (case sp_Clients p of None \<Rightarrow> defaultClients | Some v \<Rightarrow> v)"
  "so_DurationSeconds (startOptionsOf p) =
     (case sp_DurationSeconds p of None \<Rightarrow> defaultDurationSeconds | Some v \<Rightarrow> v)"
  "so_WarmupSeconds (startOptionsOf p) =
     (case sp_WarmupSeconds p of None \<Rightarrow> defaultWarmupSeconds | Some v \<Rightarrow> v)"
  "so_Reset (startOptionsOf p) = (case sp_Reset p of None \<Rightarrow> False | Some v \<Rightarrow> v)"
  "so_Profile (startOptionsOf p) = (case sp_Profile p of None \<Rightarrow> ProfileMixed | Some v \<Rightarrow> v)"
  "so_ReadPercent (startOptionsOf p) =
     (case sp_ReadPercent p of Some v \<Rightarrow> Some v
      | None \<Rightarrow> if so_Profile (startOptionsOf p) = ProfileMixed then Some defaultReadPercent else None)"
  "so_TransactionMix (startOptionsOf p) =
     (case sp_TransactionMix p of Some v \<Rightarrow> v
      | None \<Rightarrow> if so_Profile (startOptionsOf p) = ProfileTransaction then TransactionMixBalanced else [])"
  "so_TargetTPS (startOptionsOf p) = sp_TargetTPS p"
  by (simp_all add: assign_simps split: option.split)

lemma DecodeStartOptions_Inr:
  "DecodeStartOptions decode decode_trailing r = Inr s \<longleftrightarrow>
     (\<exists>p. decodeJSON decode decode_trailing r = Inr p \<and> s = startOptionsOf p \<and> valid_start s)"
  by (auto simp: DecodeStartOptions_def Let_def simp flip: validateStartOptions_iff
      split: sum.splits option.splits)

lemma decodeJSON_Inr:
  "decodeJSON decode decode_trailing r = Inr v \<longleftrightarrow>
     (\<exists>rest err. decode r = (Inr v, rest) \<and> decode_trailing rest = Some err \<and> errors_Is err ErrEOF)"
  by (auto simp: decodeJSON_def split: prod.splits sum.splits option.splits if_splits)

section \<open>What the decoded options promise\<close>

text \<open>
  The payload that encodes given options: the JSON tags of \<open>StartOptions\<close> are those of
  \<open>startPayload\<close>; \<open>omitempty\<close> drops the two pointer fields when they are \<open>nil\<close>.
\<close>

definition payloadOf :: "StartOptions \<Rightarrow> startPayload" where
  "payloadOf s =
     \<lparr>sp_Scale = Some (so_Scale s), sp_Clients = Some (so_Clients s),
      sp_DurationSeconds = Some (so_DurationSeconds s), sp_WarmupSeconds = Some (so_WarmupSeconds s),
      sp_Reset = Some (so_Reset s), sp_Profile = Some (so_Profile s),
      sp_ReadPercent = so_ReadPercent s, sp_TransactionMix = Some (so_TransactionMix s),
      sp_TargetTPS = so_TargetTPS s\<rparr>"

text \<open>
  Every option set that \<open>DecodeStartOptions\<close> returns is valid (scale and clients at
  least 1, warm-up shorter than the run, a known profile, at least two clients for the
  lock profile, a positive rate), carries a read percentage between 0 and 100 exactly for
  the mixed profile, and a transaction mix only for the transaction profile.
\<close>
theorem DecodeStartOptions_valid:
  assumes "DecodeStartOptions decode decode_trailing r = Inr opts"
  shows "1 \<le> so_Scale opts \<and> 1 \<le> so_Clients opts \<and> 0 \<le> so_WarmupSeconds opts
    \<and> so_WarmupSeconds opts < so_DurationSeconds opts
    \<and> isValidProfile (so_Profile opts)
    \<and> (so_Profile opts = ProfileMixed \<longleftrightarrow> (\<exists>p. so_ReadPercent opts = Some p))
    \<and> so_ReadPercent opts \<in> insert None (Some ` {0..100})
    \<and> (so_TransactionMix opts \<noteq> [] \<longrightarrow>
         so_Profile opts = ProfileTransaction \<and> isValidTransactionMix (so_TransactionMix opts))
    \<and> (so_Profile opts = ProfileLock \<longrightarrow> 2 \<le> so_Clients opts)
    \<and> (\<forall>t. so_TargetTPS opts = Some t \<longrightarrow> 1 \<le> t)"
proof -
  obtain p where opts: "opts = startOptionsOf p" and valid: "valid_start opts"
    using assms by (auto simp: DecodeStartOptions_Inr)
  have "so_Profile opts = ProfileMixed \<longrightarrow> so_ReadPercent opts \<noteq> None"
    unfolding opts by (auto split: option.splits)
  with valid show ?thesis by (auto simp: valid_start_def)
qed

text \<open>A reader that holds exactly one payload, as the decoder would see it.\<close>

definition one_value :: "'a \<Rightarrow> unit \<Rightarrow> (goerror + 'a) \<times> unit" where
  "one_value v r = (Inr v, r)"

definition at_eof :: "unit \<Rightarrow> goerror option" where
  "at_eof r = Some (Sentinel ErrEOF)"

definition empty_payload :: startPayload where
  "empty_payload =
     \<lparr>sp_Scale = None, sp_Clients = None, sp_DurationSeconds = None, sp_WarmupSeconds = None,
      sp_Reset = None, sp_Profile = None, sp_ReadPercent = None, sp_TransactionMix = None,
      sp_TargetTPS = None\<rparr>"

lemma decodeJSON_one_value [simp]: "decodeJSON (one_value v) at_eof () = Inr v"
  by (simp add: decodeJSON_def one_value_def at_eof_def)

lemma empty_payload_valid: "valid_start (startOptionsOf empty_payload)"
  by (simp add: valid_start_def empty_payload_def default_defs isValidProfile_def profile_defs)

theorem DecodeStartOptions_valid_witness:
  "DecodeStartOptions (one_value empty_payload) at_eof () = Inr (startOptionsOf empty_payload)
   \<and> 1 \<le> so_Clients (startOptionsOf empty_payload)"
proof -
  have "DecodeStartOptions (one_value empty_payload) at_eof () = Inr (startOptionsOf empty_payload)"
    by (simp add: DecodeStartOptions_Inr empty_payload_valid)
  with DecodeStartOptions_valid [OF this] show ?thesis by simp
qed

text \<open>
  C25. Options the service has accepted survive a round trip: encoding them as a start
  request and decoding that request gives the same options again.
\<close>
theorem DecodeStartOptions_roundtrip:
  assumes "DecodeStartOptions decode decode_trailing r = Inr opts"
  shows "DecodeStartOptions (one_value (payloadOf opts)) at_eof () = Inr opts"
proof -
  obtain p where opts: "opts = startOptionsOf p" and valid: "valid_start opts"
    using assms by (auto simp: DecodeStartOptions_Inr)
  have "so_Profile opts = ProfileMixed \<longrightarrow> so_ReadPercent opts \<noteq> None"
    unfolding opts by (auto split: option.splits)
  then have "startOptionsOf (payloadOf opts) = opts"
    by (intro StartOptions.equality) (auto simp: payloadOf_def split: option.splits)
  with valid show ?thesis by (simp add: DecodeStartOptions_Inr)
qed

theorem DecodeStartOptions_roundtrip_witness:
  "DecodeStartOptions (one_value (payloadOf (startOptionsOf empty_payload))) at_eof ()
     = Inr (startOptionsOf empty_payload)"
  by (rule DecodeStartOptions_roundtrip [of "one_value empty_payload" at_eof "()"])
    (simp add: DecodeStartOptions_Inr empty_payload_valid)

text \<open>
  C26. \<open>ApplyAlter\<close> returns options exactly when the request sets at least one field, its
  values are positive and the resulting options are valid; it then changes the requested
  fields only, and everything it returns is valid again, so that a chain of alterations
  never leaves the valid options.
\<close>
theorem ApplyAlter_correct:
  "ApplyAlter opts a = Inr opts' \<longleftrightarrow>
     \<not> (ao_Clients a = None \<and> ao_TargetTPS a = None)
   \<and> ao_Clients a \<in> insert None (Some ` {1..}) \<and> ao_TargetTPS a \<in> insert None (Some ` {1..})
   \<and> validateStartOptions opts' = None
   \<and> so_Clients opts' = (case ao_Clients a of None \<Rightarrow> so_Clients opts | Some n \<Rightarrow> n)
   \<and> so_TargetTPS opts' = (case ao_TargetTPS a of None \<Rightarrow> so_TargetTPS opts | Some t \<Rightarrow> Some t)
   \<and> opts' = opts\<lparr>so_Clients := so_Clients opts', so_TargetTPS := so_TargetTPS opts'\<rparr>"
proof -
  have "valid_alter a \<longleftrightarrow> \<not> (ao_Clients a = None \<and> ao_TargetTPS a = None)
      \<and> ao_Clients a \<in> insert None (Some ` {1..}) \<and> ao_TargetTPS a \<in> insert None (Some ` {1..})"
    by (cases "ao_Clients a"; cases "ao_TargetTPS a") (auto simp: valid_alter_def)
  moreover have "opts' = altered opts a \<longleftrightarrow>
      so_Clients opts' = (case ao_Clients a of None \<Rightarrow> so_Clients opts | Some n \<Rightarrow> n)
    \<and> so_TargetTPS opts' = (case ao_TargetTPS a of None \<Rightarrow> so_TargetTPS opts | Some t \<Rightarrow> Some t)
    \<and> opts' = opts\<lparr>so_Clients := so_Clients opts', so_TargetTPS := so_TargetTPS opts'\<rparr>"
    by (auto simp: altered_def)
  ultimately show ?thesis by (auto simp: ApplyAlter_Inr validateStartOptions_iff)
qed

end
