(* ===== verification/Histogram.thy ===== *)
theory Histogram
  imports Go_Float
begin

text \<open>
  The latency histogram of \<open>internal/benchrunner/stats.go\<close>: its bucket bounds, \<open>record\<close>
  (with the binary search of \<open>sort.Search\<close>), \<open>metricsSnapshot\<close> and \<open>quantile\<close>. The
  histogram refines the list of the recorded latencies: \<open>hist_rep h ls\<close> relates them,
  \<open>record\<close> appends to the list, a cumulative bucket counts the latencies up to its bound,
  and a quantile is the least bucket bound at or above the nearest-rank order statistic.
\<close>

section \<open>Bucket bounds\<close>

definition millisecond :: duration where "millisecond = 1000000"

text \<open>One of the four loops, \<open>for ms := ms; ms <= upto_ms; ms += step\<close>, for a positive step.\<close>

function bounds_loop :: "int \<Rightarrow> int \<Rightarrow> int \<Rightarrow> duration list" where
  "bounds_loop ms upto_ms step =
     (if ms \<le> upto_ms \<and> 0 < step then wrap64 (ms * millisecond) # bounds_loop (ms + step) upto_ms step
      else [])"
  by pat_completeness auto
termination
  by (relation "measure (\<lambda>(ms, upto_ms, step). nat (upto_ms - ms + 1))") auto

declare bounds_loop.simps [simp del]

definition buildLatencyBucketBounds :: "duration list" where
  "buildLatencyBucketBounds =
     bounds_loop 1 100 1 @ bounds_loop 105 500 5 @ bounds_loop 510 1000 10 @ bounds_loop 1100 10000 100"

definition latencyBucketBounds :: "duration list" where
  "latencyBucketBounds = buildLatencyBucketBounds"

section \<open>The histogram\<close>

record latencyHistogram =
  lh_bounds :: "duration list"
  lh_counts :: "u64 list"
  lh_total :: u64
  lh_sum :: duration
  lh_min :: duration
  lh_max :: duration

definition newLatencyHistogram :: latencyHistogram where
  "newLatencyHistogram =
     \<lparr>lh_bounds = latencyBucketBounds, lh_counts = replicate (length latencyBucketBounds + 1) 0,
      lh_total = 0, lh_sum = 0, lh_min = 0, lh_max = 0\<rparr>"

text \<open>\<open>sort.Search\<close>: the loop over \<open>i, j\<close>, then the call with \<open>0, n\<close>.\<close>

function search_loop :: "(nat \<Rightarrow> bool) \<Rightarrow> nat \<Rightarrow> nat \<Rightarrow> nat" where
  "search_loop f i j =
     (if i < j then
        (let h = (i + j) div 2 in if \<not> f h then search_loop f (h + 1) j else search_loop f i h)
      else i)"
  by pat_completeness auto
termination
  by (relation "measure (\<lambda>(f, i, j). j - i)") auto

declare search_loop.simps [simp del]

definition sort_Search :: "nat \<Rightarrow> (nat \<Rightarrow> bool) \<Rightarrow> nat" where
  "sort_Search n f = search_loop f 0 n"

text \<open>
  \<open>latencyHistogram.record\<close>. The incremented position is in range whenever there is one
  count more than bounds (\<open>bucket_in_range\<close> below).
\<close>

definition hist_record :: "latencyHistogram \<Rightarrow> duration \<Rightarrow> latencyHistogram" where
  "hist_record h latency0 =
     (let latency = (if latency0 < 0 then 0 else latency0);
          index = sort_Search (length (lh_bounds h)) (\<lambda>i. latency \<le> lh_bounds h ! i);
          counts = (lh_counts h)[index := lh_counts h ! index + 1];
          total = lh_total h + 1;
          sum = wrap64 (lh_sum h + latency);
          min = (if total = 1 \<or> latency < lh_min h then latency else lh_min h);
          max = (if total = 1 \<or> latency > lh_max h then latency else lh_max h)
      in h\<lparr>lh_counts := counts, lh_total := total, lh_sum := sum, lh_min := min, lh_max := max\<rparr>)"

text \<open>The cumulative counts of \<open>metricsSnapshot\<close>: one per bound, in its loop's order.\<close>

record LatencyHistogramBucket =
  UpperBoundSeconds :: float64
  CumulativeCount :: u64

record LatencyHistogramSnapshot =
  hs_Buckets :: "LatencyHistogramBucket list"
  hs_Count :: u64
  hs_SumSeconds :: float64

fun buckets_loop :: "u64 \<Rightarrow> duration list \<Rightarrow> u64 list \<Rightarrow> LatencyHistogramBucket list" where
  "buckets_loop cumulative (b # bs) (c # cs) =
     \<lparr>UpperBoundSeconds = duration_Seconds b, CumulativeCount = cumulative + c\<rparr>
       # buckets_loop (cumulative + c) bs cs"
| "buckets_loop cumulative _ _ = []"

definition metricsSnapshot :: "latencyHistogram \<Rightarrow> LatencyHistogramSnapshot" where
  "metricsSnapshot h =
     \<lparr>hs_Buckets = buckets_loop 0 (lh_bounds h) (lh_counts h), hs_Count = lh_total h,
      hs_SumSeconds = duration_Seconds (lh_sum h)\<rparr>"

text \<open>
  \<open>quantile\<close>: the rank in floating point, then the loop over the counts. The loop keeps
  the bounds from the current index on: they are used up exactly when the index reaches
  \<open>len(h.bounds)\<close>.
\<close>

definition quantile_rank :: "float64 \<Rightarrow> u64 \<Rightarrow> u64" where
  "quantile_rank percentile n =
     (let rank = of_int \<lceil>fl (percentile * u64_to_float n)\<rceil> in if rank = 0 then 1 else rank)"

fun quantile_loop :: "u64 \<Rightarrow> duration \<Rightarrow> u64 \<Rightarrow> duration list \<Rightarrow> u64 list \<Rightarrow> duration" where
  "quantile_loop rank mx cumulative bounds [] = mx"
| "quantile_loop rank mx cumulative bounds (count # counts) =
     (let cumulative = cumulative + count
      in if cumulative < rank then quantile_loop rank mx cumulative (drop 1 bounds) counts
         else (case bounds of b # _ \<Rightarrow> b | [] \<Rightarrow> mx))"

definition quantile :: "latencyHistogram \<Rightarrow> float64 \<Rightarrow> duration" where
  "quantile h percentile =
     (if lh_total h = 0 then 0
      else quantile_loop (quantile_rank percentile (lh_total h)) (lh_max h) 0 (lh_bounds h) (lh_counts h))"

section \<open>The bounds are increasing\<close>

lemma bounds_loop_map:
  assumes "0 < step" and "0 \<le> ms" and "ms + int n * step \<le> 10000" and "upto_ms = ms + int n * step"
  shows "bounds_loop ms upto_ms step = map (\<lambda>k. (ms + int k * step) * millisecond) [0..<Suc n]"
  using assms
proof (induction n arbitrary: ms)
  case 0
  then have "wrap64 (ms * millisecond) = ms * millisecond"
    by (intro wrap64_small) (auto simp: millisecond_def)
  with 0 show ?case by (simp add: bounds_loop.simps [of ms] bounds_loop.simps [of "ms + step"])
next
  case (Suc n)
  have "0 \<le> int (Suc n) * step" using Suc.prems by simp
  then have ms: "ms \<le> upto_ms" "ms \<le> 10000" using Suc.prems by linarith+
  then have w: "wrap64 (ms * millisecond) = ms * millisecond"
    using Suc.prems by (intro wrap64_small) (auto simp: millisecond_def)
  have "bounds_loop (ms + step) upto_ms step =
      map (\<lambda>k. (ms + step + int k * step) * millisecond) [0..<Suc n]"
    using Suc.prems by (intro Suc.IH) (auto simp: algebra_simps)
  then have "bounds_loop ms upto_ms step =
      ms * millisecond # map (\<lambda>k. (ms + int k * step) * millisecond) (map Suc [0..<Suc n])"
    using ms w Suc.prems(1) by (subst bounds_loop.simps) (simp add: algebra_simps)
  also have "\<dots> = map (\<lambda>k. (ms + int k * step) * millisecond) [0..<Suc (Suc n)]"
    unfolding map_Suc_upt by (subst (2) upt_conv_Cons) auto
  finally show ?case .
qed

lemma bounds_loop_segment:
  assumes "0 < step" and "0 \<le> ms" and "upto_ms \<le> 10000" and "0 < n" and "upto_ms = ms + (int n - 1) * step"
  shows "bounds_loop ms upto_ms step = map (\<lambda>k. (ms + int k * step) * millisecond) [0..<n]"
  using bounds_loop_map [of step ms "n - 1" upto_ms] assms by (simp add: of_nat_diff)

lemma latencyBucketBounds_eq:
  "latencyBucketBounds =
     map (\<lambda>k. (1 + int k * 1) * millisecond) [0..<100] @ map (\<lambda>k. (105 + int k * 5) * millisecond) [0..<80]
     @ map (\<lambda>k. (510 + int k * 10) * millisecond) [0..<50]
     @ map (\<lambda>k. (1100 + int k * 100) * millisecond) [0..<90]"
  unfolding latencyBucketBounds_def buildLatencyBucketBounds_def
  by (intro arg_cong2 [where f = "(@)"] bounds_loop_segment) simp_all

lemma sorted_wrt_map_upt: "(\<And>i j. i < j \<Longrightarrow> j < n \<Longrightarrow> f i < f j) \<Longrightarrow> sorted_wrt (<) (map f [0..<n])"
  by (simp add: sorted_wrt_iff_nth_less)

lemma latencyBucketBounds_sorted: "sorted_wrt (<) latencyBucketBounds"
  unfolding latencyBucketBounds_eq
  by (auto simp: sorted_wrt_append millisecond_def simp del: upt_Suc intro!: sorted_wrt_map_upt)

lemma latencyBucketBounds_nth: "i < 100 \<Longrightarrow> latencyBucketBounds ! i = (1 + int i) * millisecond"
  by (simp add: latencyBucketBounds_eq nth_append del: upt_Suc)

lemma latencyBucketBounds_length: "length latencyBucketBounds = 320"
  by (simp add: latencyBucketBounds_eq)

lemma latencyBucketBounds_pos: "b \<in> set latencyBucketBounds \<Longrightarrow> 0 < b \<and> b \<le> 10000 * millisecond"
  by (auto simp: latencyBucketBounds_eq millisecond_def)

section \<open>sort.Search finds the first index\<close>

lemma search_loop_done: "\<not> i < j \<Longrightarrow> search_loop f i j = i"
  and search_loop_right: "i < j \<Longrightarrow> \<not> f ((i + j) div 2) \<Longrightarrow> search_loop f i j = search_loop f ((i + j) div 2 + 1) j"
  and search_loop_left: "i < j \<Longrightarrow> f ((i + j) div 2) \<Longrightarrow> search_loop f i j = search_loop f i ((i + j) div 2)"
  by (simp_all add: search_loop.simps [of f i j])

lemma midpoint: "(i::nat) < j \<Longrightarrow> i \<le> (i + j) div 2 \<and> (i + j) div 2 < j"
  by auto

lemma search_loop_bounds: "i \<le> j \<Longrightarrow> i \<le> search_loop f i j \<and> search_loop f i j \<le> j"
proof (induction f i j rule: search_loop.induct)
  case (1 f i j)
  consider "i = j" | "i < j" "\<not> f ((i + j) div 2)" | "i < j" "f ((i + j) div 2)"
    using "1.prems" by linarith
  then show ?case
  proof cases
    case 2
    then show ?thesis using "1.IH"(1) [OF 2(1) refl 2(2)] midpoint [OF 2(1)]
      by (simp add: search_loop_right)
  next
    case 3
    then show ?thesis using "1.IH"(2) [OF 3(1) refl] midpoint [OF 3(1)]
      by (simp add: search_loop_left)
  qed (simp add: search_loop_done)
qed

lemma search_loop_spec:
  assumes "i \<le> j" and "j \<le> n" and "\<And>a b. a \<le> b \<Longrightarrow> f a \<Longrightarrow> b < n \<Longrightarrow> f b"
    and "\<And>k. k < i \<Longrightarrow> \<not> f k" and "\<And>k. j \<le> k \<Longrightarrow> k < n \<Longrightarrow> f k"
  shows "(\<forall>k < search_loop f i j. \<not> f k) \<and> (\<forall>k. search_loop f i j \<le> k \<longrightarrow> k < n \<longrightarrow> f k)"
  using assms
proof (induction f i j rule: search_loop.induct)
  case (1 f i j)
  let ?h = "(i + j) div 2"
  consider "i = j" | "i < j" "\<not> f ?h" | "i < j" "f ?h"
    using "1.prems"(1) by linarith
  then show ?case
  proof cases
    case 1
    then show ?thesis using "1.prems" by (simp add: search_loop_done)
  next
    case 2
    note mid = midpoint [OF 2(1)]
    have low: "\<not> f k" if "k < ?h + 1" for k
    proof
      assume "f k"
      with that have "f ?h" using "1.prems"(3) [of k ?h] mid "1.prems"(2) by simp
      with 2(2) show False by simp
    qed
    have "(\<forall>k < search_loop f (?h + 1) j. \<not> f k) \<and> (\<forall>k. search_loop f (?h + 1) j \<le> k \<longrightarrow> k < n \<longrightarrow> f k)"
      by (rule "1.IH"(1) [OF 2(1) refl 2(2)]) (use mid low "1.prems" in auto)
    then show ?thesis using 2 by (simp add: search_loop_right)
  next
    case 3
    note mid = midpoint [OF 3(1)]
    have "(\<forall>k < search_loop f i ?h. \<not> f k) \<and> (\<forall>k. search_loop f i ?h \<le> k \<longrightarrow> k < n \<longrightarrow> f k)"
      by (rule "1.IH"(2) [OF 3(1) refl]) (use mid 3 "1.prems" in auto)
    then show ?thesis using 3 by (simp add: search_loop_left)
  qed
qed

lemma sort_Search_le: "sort_Search n f \<le> n"
  using search_loop_bounds [of 0 n f] by (simp add: sort_Search_def)

lemma sort_Search_iff:
  assumes "\<And>a b. a \<le> b \<Longrightarrow> f a \<Longrightarrow> b < n \<Longrightarrow> f b" and "k < n"
  shows "sort_Search n f \<le> k \<longleftrightarrow> f k"
  using search_loop_spec [of 0 n n f] assms unfolding sort_Search_def
  by (metis le0 less_nat_zero_code linorder_not_le order_refl)

section \<open>The histogram counts the recorded latencies\<close>

text \<open>The bucket a latency falls in, and how many of a list fall in a bucket.\<close>

definition bucket_of :: "duration list \<Rightarrow> duration \<Rightarrow> nat" where
  "bucket_of bounds v = sort_Search (length bounds) (\<lambda>i. v \<le> bounds ! i)"

definition in_bucket :: "duration list \<Rightarrow> nat \<Rightarrow> duration list \<Rightarrow> nat" where
  "in_bucket bounds i ls = length (filter (\<lambda>v. bucket_of bounds v = i) ls)"

lemma bucket_in_range: "bucket_of bounds v \<le> length bounds"
  by (simp add: bucket_of_def sort_Search_le)

lemma bucket_le_iff:
  assumes "sorted_wrt (<) bounds" and "k < length bounds"
  shows "bucket_of bounds v \<le> k \<longleftrightarrow> v \<le> bounds ! k"
  unfolding bucket_of_def
proof (rule sort_Search_iff)
  fix a b assume "a \<le> b" "v \<le> bounds ! a" "b < length bounds"
  moreover have "a = b \<or> bounds ! a < bounds ! b"
    using assms(1) \<open>a \<le> b\<close> \<open>b < length bounds\<close> by (auto simp: sorted_wrt_iff_nth_less le_less)
  ultimately show "v \<le> bounds ! b" by auto
qed (rule assms(2))

text \<open>The abstraction: the histogram is the one of a list of latencies.\<close>

definition clamp0 :: "duration \<Rightarrow> duration" where
  "clamp0 v = (if v < 0 then 0 else v)"

definition hist_rep :: "latencyHistogram \<Rightarrow> duration list \<Rightarrow> bool" where
  "hist_rep h ls \<longleftrightarrow>
     lh_bounds h = latencyBucketBounds
   \<and> lh_counts h = map (\<lambda>i. of_nat (in_bucket latencyBucketBounds i ls)) [0..<length latencyBucketBounds + 1]
   \<and> lh_total h = of_nat (length ls) \<and> lh_sum h = wrap64 (sum_list ls)
   \<and> (ls = [] \<longrightarrow> lh_min h = 0 \<and> lh_max h = 0)
   \<and> (ls \<noteq> [] \<longrightarrow> lh_min h = Min (set ls) \<and> lh_max h = Max (set ls))
   \<and> (\<forall>v \<in> set ls. 0 \<le> v)"

lemma hist_rep_new: "hist_rep newLatencyHistogram []"
  by (simp add: hist_rep_def newLatencyHistogram_def in_bucket_def wrap64_def map_replicate_const
      del: upt_Suc)

lemma in_bucket_snoc:
  "in_bucket bounds i (ls @ [v]) = in_bucket bounds i ls + (if bucket_of bounds v = i then 1 else 0)"
  by (simp add: in_bucket_def)

lemma wrap64_add: "wrap64 (wrap64 a + b) = wrap64 (a + b)"
proof -
  have "(wrap64 a + b + 2 ^ 63) mod 2 ^ 64 = (a + (b + 2 ^ 63)) mod 2 ^ 64"
    using wrap64_cong [of a] by (metis add.assoc mod_add_left_eq)
  then show ?thesis by (simp add: wrap64_def add.assoc)
qed

lemma unat_of_nat_u64: "n < 2 ^ 64 \<Longrightarrow> unat (of_nat n :: u64) = n"
  by (simp add: unat_of_nat take_bit_nat_eq_self)

lemma of_nat_eq_1_u64: "n < 2 ^ 64 \<Longrightarrow> (of_nat n :: u64) = 1 \<longleftrightarrow> n = 1"
proof -
  assume "n < 2 ^ 64"
  then have "unat (of_nat n :: u64) = n" by (rule unat_of_nat_u64)
  then show ?thesis by (metis of_nat_1 unat_1)
qed

lemma of_nat_eq_0_u64: "n < 2 ^ 64 \<Longrightarrow> (of_nat n :: u64) = 0 \<longleftrightarrow> n = 0"
  by (simp only: unat_eq_zero [symmetric] unat_of_nat_u64)

lemma unat_at_least_1: "unat (if w = 0 then 1 else w) = max 1 (unat (w :: u64))"
  using unat_gt_0 [of w] by (auto simp: max_def)

lemma hist_record_counts:
  assumes "hist_rep h ls"
  shows "lh_counts (hist_record h v) =
    map (\<lambda>i. of_nat (in_bucket latencyBucketBounds i (ls @ [clamp0 v]))) [0..<length latencyBucketBounds + 1]"
proof (rule nth_equalityI)
  let ?b = "bucket_of latencyBucketBounds (clamp0 v)"
  have counts: "lh_counts (hist_record h v) = (lh_counts h)[?b := lh_counts h ! ?b + 1]"
    using assms by (simp add: hist_record_def hist_rep_def Let_def bucket_of_def clamp0_def)
  show "length (lh_counts (hist_record h v)) = length (map (\<lambda>i. of_nat (in_bucket latencyBucketBounds i
      (ls @ [clamp0 v])) :: u64) [0..<length latencyBucketBounds + 1])"
    using assms by (simp add: counts hist_rep_def del: upt_Suc)
  fix i assume "i < length (lh_counts (hist_record h v))"
  then have i: "i < length latencyBucketBounds + 1"
    using assms by (simp add: counts hist_rep_def del: upt_Suc)
  have "?b < length latencyBucketBounds + 1"
    using bucket_in_range [of latencyBucketBounds "clamp0 v"] by simp
  with i show "lh_counts (hist_record h v) ! i = map (\<lambda>i. of_nat (in_bucket latencyBucketBounds i
      (ls @ [clamp0 v]))) [0..<length latencyBucketBounds + 1] ! i"
    using assms unfolding counts hist_rep_def in_bucket_snoc by (simp add: nth_list_update del: upt_Suc)
qed

lemma clamp0_nonneg [simp]: "0 \<le> clamp0 v"
  by (simp add: clamp0_def)

lemma hist_record_rep [run_inv]:
  assumes rep: "hist_rep h ls" and len: "length ls + 1 < 2 ^ 64"
  shows "hist_rep (hist_record h v) (ls @ [clamp0 v])"
proof -
  have total: "lh_total (hist_record h v) = of_nat (length (ls @ [clamp0 v]))"
    using rep by (simp add: hist_record_def hist_rep_def Let_def)
  have first: "lh_total h + 1 = 1 \<longleftrightarrow> ls = []"
    using rep of_nat_eq_1_u64 [OF len] by (simp add: hist_rep_def add.commute)
  have mm: "lh_min (hist_record h v) = Min (set (ls @ [clamp0 v])) \<and>
        lh_max (hist_record h v) = Max (set (ls @ [clamp0 v]))"
  proof (cases "ls = []")
    case True
    with first show ?thesis by (simp add: hist_record_def Let_def clamp0_def)
  next
    case False
    then have "Min (set (ls @ [clamp0 v])) = min (clamp0 v) (lh_min h)"
        "Max (set (ls @ [clamp0 v])) = max (clamp0 v) (lh_max h)"
      using rep by (simp_all add: hist_rep_def)
    with False first show ?thesis
      by (auto simp: hist_record_def Let_def clamp0_def min_def max_def)
  qed
  have "lh_sum (hist_record h v) = wrap64 (sum_list (ls @ [clamp0 v]))"
    using rep by (simp add: hist_record_def hist_rep_def Let_def clamp0_def wrap64_add)
  moreover have "lh_bounds (hist_record h v) = latencyBucketBounds"
    using rep by (simp add: hist_record_def hist_rep_def Let_def)
  ultimately show ?thesis
    using total mm hist_record_counts [OF rep, of v] rep unfolding hist_rep_def by auto
qed

section \<open>Cumulative counts and quantiles\<close>

definition cum :: "nat \<Rightarrow> duration list \<Rightarrow> nat" where
  "cum k ls = length (filter (\<lambda>v. bucket_of latencyBucketBounds v < k) ls)"

lemma cum_0 [simp]: "cum 0 ls = 0"
  by (simp add: cum_def)

lemma cum_Suc: "cum (Suc k) ls = cum k ls + in_bucket latencyBucketBounds k ls"
  by (induction ls) (auto simp: cum_def in_bucket_def less_Suc_eq)

lemma cum_all: "cum (Suc (length latencyBucketBounds)) ls = length ls"
  using bucket_in_range [of latencyBucketBounds] by (simp add: cum_def less_Suc_eq_le)

lemma cum_le: "cum k ls \<le> length ls"
  by (simp add: cum_def)

lemma cum_bound:
  "k < length latencyBucketBounds \<Longrightarrow> cum (Suc k) ls = length (filter (\<lambda>v. v \<le> latencyBucketBounds ! k) ls)"
  by (simp add: cum_def less_Suc_eq_le bucket_le_iff [OF latencyBucketBounds_sorted])

lemma unat_cum: "length ls < 2 ^ 64 \<Longrightarrow> unat (of_nat (cum k ls) :: u64) = cum k ls"
  using cum_le [of k ls] by (simp add: unat_of_nat take_bit_nat_eq_self)

text \<open>From index \<open>k\<close> on, the quantile loop stops at the first bucket that reaches the rank.\<close>

lemma quantile_loop_spec:
  assumes "length ls < 2 ^ 64" and "unat rank \<le> length ls" and "k \<le> length latencyBucketBounds"
  shows "\<exists>j. k \<le> j \<and> j \<le> length latencyBucketBounds \<and> unat rank \<le> cum (Suc j) ls
    \<and> (\<forall>i. k \<le> i \<and> i < j \<longrightarrow> cum (Suc i) ls < unat rank)
    \<and> quantile_loop rank mx (of_nat (cum k ls)) (drop k latencyBucketBounds)
        (map (\<lambda>i. of_nat (in_bucket latencyBucketBounds i ls)) [k..<length latencyBucketBounds + 1])
      = (if j < length latencyBucketBounds then latencyBucketBounds ! j else mx)"
  using assms(3)
proof (induction "length latencyBucketBounds - k" arbitrary: k)
  case 0
  then have k: "k = length latencyBucketBounds" by simp
  then have "unat rank \<le> cum (Suc k) ls" using assms(2) by (simp only: cum_all)
  then have "\<not> (of_nat (cum k ls) + of_nat (in_bucket latencyBucketBounds k ls) :: u64) < rank"
    using unat_cum [OF assms(1), of "Suc k"] by (simp add: word_less_nat_alt cum_Suc flip: of_nat_add)
  with k \<open>unat rank \<le> cum (Suc k) ls\<close> show ?case
    by (intro exI [of _ k]) simp
next
  case (Suc m)
  then have k: "k < length latencyBucketBounds" by simp
  have upt: "[k..<Suc (length latencyBucketBounds)] = k # [Suc k..<Suc (length latencyBucketBounds)]"
    using k by (simp add: upt_conv_Cons del: upt_Suc)
  have dr: "drop k latencyBucketBounds = latencyBucketBounds ! k # drop (Suc k) latencyBucketBounds"
    using k by (simp add: Cons_nth_drop_Suc)
  have next_cum: "of_nat (cum k ls) + of_nat (in_bucket latencyBucketBounds k ls) = (of_nat (cum (Suc k) ls) :: u64)"
    by (simp add: cum_Suc)
  have less: "(of_nat (cum (Suc k) ls) :: u64) < rank \<longleftrightarrow> cum (Suc k) ls < unat rank"
    using unat_cum [OF assms(1), of "Suc k"] by (simp add: word_less_nat_alt)
  show ?case
  proof (cases "cum (Suc k) ls < unat rank")
    case True
    have m: "m = length latencyBucketBounds - Suc k" using Suc(2) by simp
    from Suc(1) [OF m Suc_leI [OF k]] obtain j where j: "Suc k \<le> j" "j \<le> length latencyBucketBounds"
        "unat rank \<le> cum (Suc j) ls" "\<forall>i. Suc k \<le> i \<and> i < j \<longrightarrow> cum (Suc i) ls < unat rank"
        "quantile_loop rank mx (of_nat (cum (Suc k) ls)) (drop (Suc k) latencyBucketBounds)
          (map (\<lambda>i. of_nat (in_bucket latencyBucketBounds i ls)) [Suc k..<length latencyBucketBounds + 1])
         = (if j < length latencyBucketBounds then latencyBucketBounds ! j else mx)"
      by blast
    have "\<forall>i. k \<le> i \<and> i < j \<longrightarrow> cum (Suc i) ls < unat rank"
      using j(4) True by (metis Suc_leI le_neq_implies_less)
    with j True show ?thesis
      by (intro exI [of _ j]) (simp add: upt dr next_cum less del: upt_Suc)
  next
    case False
    then show ?thesis
      using k by (intro exI [of _ k]) (simp add: upt dr next_cum less del: upt_Suc)
  qed
qed

text \<open>Nearest rank: \<open>r\<close> of the values are at most \<open>b\<close> exactly when the \<open>r\<close>-th smallest is.\<close>

lemma order_stat_iff:
  assumes "1 \<le> r" and "r \<le> length ls"
  shows "r \<le> length (filter (\<lambda>v. v \<le> b) ls) \<longleftrightarrow> sort ls ! (r - 1) \<le> (b :: duration)"
proof -
  let ?s = "sort ls"
  have "length (filter (\<lambda>v. v \<le> b) ?s) = length (filter (\<lambda>v. v \<le> b) ls)"
    by (simp add: filter_sort)
  moreover have "r \<le> length (filter (\<lambda>v. v \<le> b) ?s)" if le: "?s ! (r - 1) \<le> b"
  proof -
    have "\<forall>v \<in> set (take r ?s). v \<le> b"
    proof
      fix v assume "v \<in> set (take r ?s)"
      then obtain i where i: "i < r" "v = ?s ! i" using assms by (auto simp: in_set_conv_nth)
      then have "i \<le> r - 1" "r - 1 < length ?s" using assms by simp_all
      with i show "v \<le> b" using le sorted_nth_mono [of ?s i "r - 1"] by simp
    qed
    then have "length (filter (\<lambda>v. v \<le> b) (take r ?s)) = r"
      using assms by (simp add: filter_id_conv [THEN iffD2])
    then show ?thesis
      by (metis append_take_drop_id filter_append length_append le_add1)
  qed
  moreover have "length (filter (\<lambda>v. v \<le> b) ?s) < r" if gt: "b < ?s ! (r - 1)"
  proof -
    have "\<forall>v \<in> set (drop (r - 1) ?s). \<not> v \<le> b"
    proof
      fix v assume "v \<in> set (drop (r - 1) ?s)"
      then obtain i where "i < length ?s - (r - 1)" "v = ?s ! (r - 1 + i)"
        using assms by (auto simp: in_set_conv_nth)
      moreover from this have "r - 1 + i < length ?s" by linarith
      ultimately show "\<not> v \<le> b" using gt sorted_nth_mono [of ?s "r - 1" "r - 1 + i"] by simp
    qed
    then have "filter (\<lambda>v. v \<le> b) (drop (r - 1) ?s) = []" by (simp add: filter_empty_conv)
    then have "length (filter (\<lambda>v. v \<le> b) ?s) = length (filter (\<lambda>v. v \<le> b) (take (r - 1) ?s))"
      by (metis append_Nil2 append_take_drop_id filter_append)
    also have "\<dots> \<le> r - 1" by (metis length_filter_le length_take min.bounded_iff order_refl order_trans)
    finally show ?thesis using assms by linarith
  qed
  ultimately show ?thesis by (metis linorder_not_less)
qed

text \<open>The rank: with a 53-bit count it is a position of the sorted latencies.\<close>

lemma quantile_rank_range:
  assumes "0 < n" and "n < 2 ^ 53" and "0 \<le> p" and "p \<le> 1"
  shows "unat (quantile_rank p (of_nat n)) = max 1 (nat \<lceil>fl (p * of_nat n)\<rceil>)"
    and "1 \<le> unat (quantile_rank p (of_nat n))" and "unat (quantile_rank p (of_nat n)) \<le> n"
proof -
  have n: "u64_to_float (of_nat n) = of_nat n"
    using assms(2) by (simp add: u64_to_float_def unat_of_nat take_bit_nat_eq_self fl_of_nat)
  let ?x = "fl (p * of_nat n)"
  have "p * of_nat n \<le> of_nat n" using assms by (simp add: mult_left_le_one_le)
  then have le: "?x \<le> of_nat n" using assms by (intro fl_le_nat) auto
  have ge: "0 \<le> ?x" using assms by (intro fl_nonneg) simp
  have c: "0 \<le> \<lceil>?x\<rceil>" "\<lceil>?x\<rceil> \<le> int n" using le ge by (simp_all add: ceiling_le_iff)
  have "int n < int (2 ^ 53)" using assms(2) by (simp only: of_nat_less_iff)
  then have "int n < 2 ^ 64" by simp
  with c(2) have small: "\<lceil>?x\<rceil> < 2 ^ 64" by (rule order.strict_trans1)
  have un: "unat (of_int \<lceil>?x\<rceil> :: u64) = nat \<lceil>?x\<rceil>"
    using unat_to_u64 [of "\<lceil>?x\<rceil>"] c(1) small unfolding to_u64_def by blast
  show eq: "unat (quantile_rank p (of_nat n)) = max 1 (nat \<lceil>?x\<rceil>)"
    unfolding quantile_rank_def Let_def n unat_at_least_1 un ..
  show "1 \<le> unat (quantile_rank p (of_nat n))" "unat (quantile_rank p (of_nat n)) \<le> n"
    using c assms(1) by (auto simp: eq)
qed

text \<open>The reference: the least bucket bound at or above the order statistic, else the maximum.\<close>

definition nearest_rank :: "nat \<Rightarrow> duration list \<Rightarrow> duration" where
  "nearest_rank r ls = sort ls ! (r - 1)"

definition round_up_to_bucket :: "duration \<Rightarrow> duration \<Rightarrow> duration" where
  "round_up_to_bucket v mx = (case find (\<lambda>b. v \<le> b) latencyBucketBounds of Some b \<Rightarrow> b | None \<Rightarrow> mx)"

lemma quantile_refines:
  assumes rep: "hist_rep h ls" and ls: "ls \<noteq> []" "length ls < 2 ^ 53" and p: "0 \<le> p" "p \<le> 1"
  shows "quantile h p =
    round_up_to_bucket (nearest_rank (unat (quantile_rank p (of_nat (length ls)))) ls) (Max (set ls))"
proof -
  let ?r = "quantile_rank p (of_nat (length ls))" and ?n = "length latencyBucketBounds"
  have r: "1 \<le> unat ?r" "unat ?r \<le> length ls"
    using quantile_rank_range [of "length ls" p] ls p by auto
  have "of_nat (length ls) \<noteq> (0 :: u64)"
    using ls of_nat_eq_0_u64 [of "length ls"] by simp
  then have q: "quantile h p = quantile_loop ?r (Max (set ls)) (of_nat (cum 0 ls)) (drop 0 latencyBucketBounds)
      (map (\<lambda>i. of_nat (in_bucket latencyBucketBounds i ls)) [0..<?n + 1])"
    using rep ls by (simp add: quantile_def hist_rep_def del: upt_Suc)
  have "length ls < 2 ^ 64" using ls(2) by simp
  from quantile_loop_spec [OF this r(2), of 0 "Max (set ls)"] obtain j
    where j: "j \<le> ?n" "unat ?r \<le> cum (Suc j) ls" "\<forall>i < j. cum (Suc i) ls < unat ?r"
      and res: "quantile h p = (if j < ?n then latencyBucketBounds ! j else Max (set ls))"
    unfolding q by auto
  let ?v = "nearest_rank (unat ?r) ls"
  have iff: "unat ?r \<le> cum (Suc i) ls \<longleftrightarrow> ?v \<le> latencyBucketBounds ! i" if "i < ?n" for i
    using that order_stat_iff [OF r] by (simp add: cum_bound nearest_rank_def)
  show ?thesis
  proof (cases "j < ?n")
    case True
    have "?v \<le> latencyBucketBounds ! j" using iff [OF True] j(2) by simp
    moreover have "\<forall>i < j. \<not> ?v \<le> latencyBucketBounds ! i"
    proof (intro allI impI)
      fix i assume "i < j"
      with True have "i < ?n" by simp
      from iff [OF this] j(3) \<open>i < j\<close> show "\<not> ?v \<le> latencyBucketBounds ! i" by (metis linorder_not_less)
    qed
    ultimately have "find (\<lambda>b. ?v \<le> b) latencyBucketBounds = Some (latencyBucketBounds ! j)"
      using True unfolding find_Some_iff by blast
    with True res show ?thesis by (simp add: round_up_to_bucket_def)
  next
    case False
    have "\<not> ?v \<le> b" if b: "b \<in> set latencyBucketBounds" for b
    proof -
      obtain i where i: "i < ?n" "b = latencyBucketBounds ! i" using b by (auto simp: in_set_conv_nth)
      with False j(3) have "cum (Suc i) ls < unat ?r" by simp
      with iff [OF i(1)] i(2) show ?thesis by simp
    qed
    then have "find (\<lambda>b. ?v \<le> b) latencyBucketBounds = None" by (auto simp: find_None_iff)
    with False res show ?thesis by (simp add: round_up_to_bucket_def)
  qed
qed

section \<open>The cumulative buckets of the metrics\<close>

lemma buckets_loop_length: "length cs = Suc (length bs) \<Longrightarrow> length (buckets_loop c bs cs) = length bs"
  by (induction c bs cs rule: buckets_loop.induct) auto

lemma buckets_loop_nth:
  assumes "k \<le> length latencyBucketBounds" and "i < length latencyBucketBounds - k"
  shows "buckets_loop (of_nat (cum k ls)) (drop k latencyBucketBounds)
      (map (\<lambda>i. of_nat (in_bucket latencyBucketBounds i ls)) [k..<Suc (length latencyBucketBounds)]) ! i
    = \<lparr>UpperBoundSeconds = duration_Seconds (latencyBucketBounds ! (k + i)),
       CumulativeCount = of_nat (cum (Suc (k + i)) ls)\<rparr>"
  using assms
proof (induction i arbitrary: k)
  case 0
  then have k: "k < length latencyBucketBounds" by simp
  then show ?case
    by (simp add: upt_conv_Cons Cons_nth_drop_Suc [symmetric] cum_Suc del: upt_Suc)
next
  case (Suc i)
  then have k: "k < length latencyBucketBounds" by simp
  have "of_nat (cum k ls) + of_nat (in_bucket latencyBucketBounds k ls) = (of_nat (cum (Suc k) ls) :: u64)"
    by (simp add: cum_Suc)
  with Suc.IH [of "Suc k"] Suc.prems k show ?case
    by (simp add: upt_conv_Cons [of k] Cons_nth_drop_Suc [OF k, symmetric] del: upt_Suc)
qed

lemma metricsSnapshot_nth:
  assumes "hist_rep h ls" and "i < length latencyBucketBounds"
  shows "hs_Buckets (metricsSnapshot h) ! i =
    \<lparr>UpperBoundSeconds = duration_Seconds (latencyBucketBounds ! i),
     CumulativeCount = of_nat (length (filter (\<lambda>v. v \<le> latencyBucketBounds ! i) ls))\<rparr>"
  using buckets_loop_nth [of 0 i ls] assms
  by (simp add: metricsSnapshot_def hist_rep_def cum_bound del: upt_Suc)

section \<open>What the histogram reports\<close>

text \<open>The histogram after a sequence of calls of \<open>record\<close>.\<close>

definition hist_of :: "duration list \<Rightarrow> latencyHistogram" where
  "hist_of latencies = foldl hist_record newLatencyHistogram latencies"

lemma hist_of_rep: "length ls < 2 ^ 64 \<Longrightarrow> hist_rep (hist_of ls) (map clamp0 ls)"
proof (induction ls rule: rev_induct)
  case Nil
  then show ?case by (simp add: hist_of_def hist_rep_new)
next
  case (snoc v ls)
  then have "hist_rep (hist_of ls) (map clamp0 ls)" by simp
  then have "hist_rep (hist_record (hist_of ls) v) (map clamp0 ls @ [clamp0 v])"
    by (rule hist_record_rep) (use snoc.prems in simp)
  then show ?case by (simp add: hist_of_def)
qed

text \<open>
  C8. A quantile is the nearest-rank order statistic of all the recorded latencies, rounded
  up to the next bucket bound (and the maximum when no bound is large enough): the loop
  over the bucket counts, the binary search of each record and the rank in floating point
  together compute what sorting the full list of latencies would.
\<close>
theorem quantile_is_nearest_rank:
  assumes "ls \<noteq> []" and "length ls < 2 ^ 53" and "0 \<le> p" and "p \<le> 1"
  shows "quantile (hist_of ls) p =
    (let sorted = sort (map clamp0 ls); r = max 1 (nat \<lceil>fl (p * of_nat (length ls))\<rceil>)
     in case find (\<lambda>b. sorted ! (r - 1) \<le> b) latencyBucketBounds of
          Some b \<Rightarrow> b | None \<Rightarrow> Max (clamp0 ` set ls))"
proof -
  have "hist_rep (hist_of ls) (map clamp0 ls)" using assms(2) by (intro hist_of_rep) simp
  from quantile_refines [OF this, of p] quantile_rank_range(1) [of "length ls" p] assms
  show ?thesis by (simp add: Let_def round_up_to_bucket_def nearest_rank_def)
qed

theorem quantile_is_nearest_rank_witness:
  "quantile (hist_of [3000000, 1500000]) (1/2) = 2000000"
proof -
  have b: "find (\<lambda>b. 1500000 \<le> b) latencyBucketBounds = Some 2000000"
    unfolding find_Some_iff
    by (intro exI [of _ 1]) (auto simp: latencyBucketBounds_nth latencyBucketBounds_length millisecond_def)
  have "fl 1 = 1" using fl_of_nat [of 1] by simp
  then show ?thesis
    using quantile_is_nearest_rank [of "[3000000, 1500000]" "1/2"] b by (simp add: clamp0_def)
qed

text \<open>How far above a value the next bucket bound can be.\<close>

definition bucket_width :: "duration \<Rightarrow> duration" where
  "bucket_width v = (if v \<le> 100 * millisecond then 1 * millisecond
     else if v \<le> 500 * millisecond then 5 * millisecond
     else if v \<le> 1000 * millisecond then 10 * millisecond else 100 * millisecond)"

lemma segment_bound:
  assumes "0 < w" and "start < v" and "v \<le> start + int n * w"
    and "\<And>k. k < n \<Longrightarrow> start + (int k + 1) * w \<in> set latencyBucketBounds"
  shows "\<exists>b \<in> set latencyBucketBounds. v \<le> b \<and> b \<le> v + w"
proof -
  define d where "d = (v - 1 - start) div w"
  have eq: "v - 1 - start = d * w + (v - 1 - start) mod w" by (simp add: d_def)
  have m: "0 \<le> (v - 1 - start) mod w" "(v - 1 - start) mod w < w" using assms(1) by simp_all
  from eq m have b: "v \<le> start + (d + 1) * w" "start + (d + 1) * w \<le> v + w"
    by (simp_all add: algebra_simps)
  have "0 \<le> d" using assms(1,2) by (simp add: d_def pos_imp_zdiv_nonneg_iff)
  moreover have "d < int n"
  proof (rule ccontr)
    assume "\<not> d < int n"
    then have "int n * w \<le> d * w" using assms(1) by (simp add: mult_right_mono)
    with eq m(1) show False using assms(3) by linarith
  qed
  ultimately have "start + (d + 1) * w \<in> set latencyBucketBounds"
    using assms(4) [of "nat d"] by simp
  with b show ?thesis by blast
qed

lemma bound_within_width:
  assumes "0 \<le> v" and "v \<le> 10000 * millisecond"
  shows "\<exists>b \<in> set latencyBucketBounds. v \<le> b \<and> b \<le> v + bucket_width v"
proof -
  have seg1: "0 * millisecond + (int k + 1) * (1 * millisecond) \<in> set latencyBucketBounds" if "k < 100" for k
    using that by (auto simp: latencyBucketBounds_eq algebra_simps)
  have seg2: "100 * millisecond + (int k + 1) * (5 * millisecond) \<in> set latencyBucketBounds" if "k < 80" for k
    using that by (auto simp: latencyBucketBounds_eq algebra_simps)
  have seg3: "500 * millisecond + (int k + 1) * (10 * millisecond) \<in> set latencyBucketBounds" if "k < 50" for k
    using that by (auto simp: latencyBucketBounds_eq algebra_simps)
  have seg4: "1000 * millisecond + (int k + 1) * (100 * millisecond) \<in> set latencyBucketBounds" if "k < 90" for k
    using that by (auto simp: latencyBucketBounds_eq algebra_simps)
  consider "v = 0" | "0 < v" "v \<le> 100 * millisecond"
    | "100 * millisecond < v" "v \<le> 500 * millisecond"
    | "500 * millisecond < v" "v \<le> 1000 * millisecond" | "1000 * millisecond < v"
    using assms(1) by linarith
  then show ?thesis
  proof cases
    case 1
    then show ?thesis using seg1 [of 0]
      by (intro bexI [of _ "1 * millisecond"]) (auto simp: bucket_width_def millisecond_def)
  next
    case 2
    then show ?thesis using segment_bound [OF _ _ _ seg1, where n = 100 and v = v] by (simp add: bucket_width_def millisecond_def)
  next
    case 3
    then show ?thesis using segment_bound [OF _ _ _ seg2, where n = 80 and v = v] by (simp add: bucket_width_def millisecond_def)
  next
    case 4
    then show ?thesis using segment_bound [OF _ _ _ seg3, where n = 50 and v = v] by (simp add: bucket_width_def millisecond_def)
  next
    case 5
    then show ?thesis using segment_bound [OF _ _ _ seg4, where n = 90 and v = v] assms(2) by (simp add: bucket_width_def millisecond_def)
  qed
qed

lemma find_sorted_le:
  assumes "sorted_wrt (<) xs" and "b \<in> set xs" and "P b"
  shows "\<exists>c. find P xs = Some c \<and> P c \<and> c \<le> (b :: duration)"
  using assms by (induction xs) (auto simp: le_less)

lemma round_up_to_bucket_bounds:
  assumes "0 \<le> v" and "v \<le> 10000 * millisecond"
  shows "v \<le> round_up_to_bucket v mx" and "round_up_to_bucket v mx \<le> v + bucket_width v"
proof -
  obtain b where "b \<in> set latencyBucketBounds" "v \<le> b" "b \<le> v + bucket_width v"
    using bound_within_width [OF assms] by blast
  with find_sorted_le [OF latencyBucketBounds_sorted, of b "\<lambda>b. v \<le> b"]
  show "v \<le> round_up_to_bucket v mx" "round_up_to_bucket v mx \<le> v + bucket_width v"
    by (auto simp: round_up_to_bucket_def)
qed

text \<open>
  C27. A reported quantile is never below the true nearest-rank latency, and for latencies
  of up to ten seconds it is above it by at most one bucket width: 1 ms up to 100 ms,
  5 ms up to 500 ms, 10 ms up to one second, 100 ms beyond.
\<close>
theorem quantile_resolution:
  assumes "ls \<noteq> []" and "length ls < 2 ^ 53" and "0 \<le> p" and "p \<le> 1"
    and "v = sort (map clamp0 ls) ! (max 1 (nat \<lceil>fl (p * of_nat (length ls))\<rceil>) - 1)"
    and "v \<le> 10000 * millisecond"
  shows "v \<le> quantile (hist_of ls) p \<and> quantile (hist_of ls) p \<le> v + bucket_width v"
proof -
  have rep: "hist_rep (hist_of ls) (map clamp0 ls)" using assms(2) by (intro hist_of_rep) simp
  let ?r = "unat (quantile_rank p (of_nat (length ls)))"
  have r: "?r = max 1 (nat \<lceil>fl (p * of_nat (length ls))\<rceil>)" "1 \<le> ?r" "?r \<le> length ls"
    using quantile_rank_range [of "length ls" p] assms(1-4) by auto
  then have v: "v = nearest_rank ?r (map clamp0 ls)" using assms(5) by (simp add: nearest_rank_def)
  have "?r - 1 < length ls" using r(2,3) by linarith
  then have "v \<in> set (sort (map clamp0 ls))"
    unfolding v nearest_rank_def by (intro nth_mem) simp
  then have "0 \<le> v" by auto
  have q: "quantile (hist_of ls) p = round_up_to_bucket v (Max (set (map clamp0 ls)))"
    unfolding v using quantile_refines [OF rep _ _ assms(3,4)] assms(1,2) by simp
  show ?thesis
    unfolding q using round_up_to_bucket_bounds [OF \<open>0 \<le> v\<close> assms(6)] by blast
qed

theorem quantile_resolution_witness:
  "1500000 \<le> quantile (hist_of [3000000, 1500000]) (1/2)
   \<and> quantile (hist_of [3000000, 1500000]) (1/2) \<le> 2500000"
proof -
  have "fl 1 = 1" using fl_of_nat [of 1] by simp
  then show ?thesis
    using quantile_resolution [of "[3000000, 1500000]" "1/2" 1500000]
    by (simp add: clamp0_def bucket_width_def millisecond_def)
qed

text \<open>
  The reported quantiles are not bounded by the reported maximum: after a single operation
  faster than a millisecond, every quantile is one millisecond, which is more than the
  maximum the same histogram reports.
\<close>
theorem quantile_exceeds_max:
  assumes "0 \<le> v" and "v < millisecond" and "0 \<le> p" and "p \<le> 1"
  shows "quantile (hist_of [v]) p = millisecond \<and> lh_max (hist_of [v]) = v"
proof -
  have rep: "hist_rep (hist_of [v]) [v]" using hist_of_rep [of "[v]"] assms(1) by (simp add: clamp0_def)
  have "unat (quantile_rank p (of_nat (length [v]))) = 1"
    using quantile_rank_range(2,3) [of 1 p] assms by simp
  moreover have "find (\<lambda>b. v \<le> b) latencyBucketBounds = Some millisecond"
    unfolding find_Some_iff using latencyBucketBounds_nth [of 0] assms(2)
    by (intro exI [of _ 0]) (simp add: latencyBucketBounds_length)
  ultimately have "quantile (hist_of [v]) p = millisecond"
    using quantile_refines [OF rep, of p] assms by (simp add: nearest_rank_def round_up_to_bucket_def)
  with rep show ?thesis by (simp add: hist_rep_def)
qed

theorem quantile_exceeds_max_witness:
  "quantile (hist_of [300000]) (1/2) = 1000000 \<and> lh_max (hist_of [300000]) = 300000"
  using quantile_exceeds_max [of 300000 "1/2"] by (simp add: millisecond_def)

text \<open>
  The exported buckets are those of a Prometheus histogram: one per bound, each
  counting exactly the recorded latencies up to its bound, so that the counts never
  decrease from one bucket to the next nor exceed the total that the \<open>+Inf\<close> bucket shows.
\<close>
theorem metricsSnapshot_counts:
  assumes "length ls < 2 ^ 64"
  shows "let s = metricsSnapshot (hist_of ls)
    in length (hs_Buckets s) = length latencyBucketBounds
     \<and> unat (hs_Count s) = length ls
     \<and> (\<forall>i < length latencyBucketBounds.
           unat (CumulativeCount (hs_Buckets s ! i)) =
             length (filter (\<lambda>v. clamp0 v \<le> latencyBucketBounds ! i) ls))
     \<and> (\<forall>i j. i \<le> j \<longrightarrow> j < length latencyBucketBounds \<longrightarrow>
           CumulativeCount (hs_Buckets s ! i) \<le> CumulativeCount (hs_Buckets s ! j)
         \<and> CumulativeCount (hs_Buckets s ! j) \<le> hs_Count s)"
proof -
  let ?s = "metricsSnapshot (hist_of ls)" and ?n = "length latencyBucketBounds"
  note rep = hist_of_rep [OF assms]
  have len: "length (hs_Buckets ?s) = ?n"
    using rep by (simp add: metricsSnapshot_def hist_rep_def buckets_loop_length del: upt_Suc)
  have total: "unat (hs_Count ?s) = length ls"
    using rep assms by (simp add: metricsSnapshot_def hist_rep_def unat_of_nat_u64)
  have count: "unat (CumulativeCount (hs_Buckets ?s ! i)) = cum (Suc i) (map clamp0 ls)" if "i < ?n" for i
    using that unat_cum [of "map clamp0 ls" "Suc i"] assms
    by (simp add: metricsSnapshot_nth [OF rep] cum_bound)
  have "cum (Suc i) l \<le> cum (Suc j) l" if "i \<le> j" for i j l
    using that by (induction l) (auto simp: cum_def)
  then have mono: "CumulativeCount (hs_Buckets ?s ! i) \<le> CumulativeCount (hs_Buckets ?s ! j)
      \<and> CumulativeCount (hs_Buckets ?s ! j) \<le> hs_Count ?s" if "i \<le> j" "j < ?n" for i j
    using that count cum_le [of "Suc j" "map clamp0 ls"] by (simp add: word_le_nat_alt total)
  have "unat (CumulativeCount (hs_Buckets ?s ! i)) =
      length (filter (\<lambda>v. clamp0 v \<le> latencyBucketBounds ! i) ls)" if "i < ?n" for i
    using that count by (simp add: cum_bound filter_map o_def)
  with len total mono show ?thesis by (simp add: Let_def)
qed

theorem metricsSnapshot_counts_witness:
  "unat (CumulativeCount (hs_Buckets (metricsSnapshot (hist_of [3000000, 1500000])) ! 1)) = 1"
proof -
  have "latencyBucketBounds ! 1 = 2000000" "1 < length latencyBucketBounds"
    by (simp_all add: latencyBucketBounds_nth latencyBucketBounds_length millisecond_def)
  then show ?thesis
    using metricsSnapshot_counts [of "[3000000, 1500000]"] by (simp add: Let_def clamp0_def)
qed

end
