(* ===== verification/Samples.thy ===== *)
theory Samples
  imports Go_Text Histogram
begin

text \<open>
  The measurement snapshot and its two views: \<open>internal/benchmarkrun/sample.go\<close> with the
  result types of \<open>results.go\<close> and \<open>metrics.go\<close>. A \<open>Sample\<close> is turned into the \<open>Stats\<close>
  of the JSON results and into the \<open>MetricsSnapshot\<close> of the Prometheus page.
\<close>

record LatencySample =
  la_MinMilliseconds :: float64
  la_MaxMilliseconds :: float64
  la_AverageMilliseconds :: float64
  la_P50Milliseconds :: float64
  la_P90Milliseconds :: float64
  la_P95Milliseconds :: float64
  la_P99Milliseconds :: float64
  la_Buckets :: "LatencyHistogramBucket list"
  la_Count :: u64
  la_SumSeconds :: float64

record OperationCounts =
  oc_PointRead :: u64
  oc_RangeRead :: u64
  oc_HistoryInsert :: u64
  oc_AccountUpdate :: u64
  oc_Transaction :: u64
  oc_Join :: u64
  oc_Aggregation :: u64
  oc_LockContention :: u64
  oc_HotUpdate :: u64

record Sample =
  sa_Latency :: LatencySample
  sa_ElapsedSeconds :: float64
  sa_TotalOperations :: u64
  sa_SuccessfulOperations :: u64
  sa_FailedOperations :: u64
  sa_ActiveClients :: int
  sa_ConfiguredClients :: int
  sa_OperationCounts :: OperationCounts
  sa_LatestError :: string

record LatencyStats =
  ls_MinMilliseconds :: float64
  ls_MaxMilliseconds :: float64
  ls_AverageMilliseconds :: float64
  ls_P50Milliseconds :: float64
  ls_P90Milliseconds :: float64
  ls_P95Milliseconds :: float64
  ls_P99Milliseconds :: float64

record OperationRates =
  or_PointRead :: float64
  or_RangeRead :: float64
  or_HistoryInsert :: float64
  or_AccountUpdate :: float64
  or_Transaction :: float64
  or_Join :: float64
  or_Aggregation :: float64
  or_LockContention :: float64
  or_HotUpdate :: float64

record Stats =
  st_Latency :: LatencyStats
  st_TPS :: float64
  st_TotalOperations :: u64
  st_SuccessfulOperations :: u64
  st_FailedOperations :: u64
  st_ActiveClients :: int
  st_ConfiguredClients :: int
  st_ElapsedSeconds :: float64
  st_OperationRates :: OperationRates
  st_LatestError :: string

record MetricsSnapshot =
  ms_RunActive :: bool
  ms_RunDurationSeconds :: float64
  ms_ConfiguredClients :: int
  ms_ActiveClients :: int
  ms_OperationsTotal :: u64
  ms_OperationErrorsTotal :: u64
  ms_TPS :: float64
  ms_OperationLatency :: LatencyHistogramSnapshot

definition ratePerSecond :: "u64 \<Rightarrow> float64 \<Rightarrow> float64" where
  "ratePerSecond count elapsedSeconds =
     (if count = 0 \<or> elapsedSeconds \<le> 0 then 0 else fl (u64_to_float count / elapsedSeconds))"

definition zeroLatencySample :: LatencySample where
  "zeroLatencySample =
     \<lparr>la_MinMilliseconds = 0, la_MaxMilliseconds = 0, la_AverageMilliseconds = 0,
      la_P50Milliseconds = 0, la_P90Milliseconds = 0, la_P95Milliseconds = 0,
      la_P99Milliseconds = 0, la_Buckets = [], la_Count = 0, la_SumSeconds = 0\<rparr>"

definition zeroOperationCounts :: OperationCounts where
  "zeroOperationCounts =
     \<lparr>oc_PointRead = 0, oc_RangeRead = 0, oc_HistoryInsert = 0, oc_AccountUpdate = 0,
      oc_Transaction = 0, oc_Join = 0, oc_Aggregation = 0, oc_LockContention = 0, oc_HotUpdate = 0\<rparr>"

definition zeroSample :: Sample where
  "zeroSample =
     \<lparr>sa_Latency = zeroLatencySample, sa_ElapsedSeconds = 0, sa_TotalOperations = 0,
      sa_SuccessfulOperations = 0, sa_FailedOperations = 0, sa_ActiveClients = 0,
      sa_ConfiguredClients = 0, sa_OperationCounts = zeroOperationCounts, sa_LatestError = []\<rparr>"

definition Sample_Stats :: "Sample \<Rightarrow> Stats" where
  "Sample_Stats s =
     \<lparr>st_Latency =
        \<lparr>ls_MinMilliseconds = la_MinMilliseconds (sa_Latency s),
         ls_MaxMilliseconds = la_MaxMilliseconds (sa_Latency s),
         ls_AverageMilliseconds = la_AverageMilliseconds (sa_Latency s),
         ls_P50Milliseconds = la_P50Milliseconds (sa_Latency s),
         ls_P90Milliseconds = la_P90Milliseconds (sa_Latency s),
         ls_P95Milliseconds = la_P95Milliseconds (sa_Latency s),
         ls_P99Milliseconds = la_P99Milliseconds (sa_Latency s)\<rparr>,
      st_TPS = ratePerSecond (sa_TotalOperations s) (sa_ElapsedSeconds s),
      st_TotalOperations = sa_TotalOperations s,
      st_SuccessfulOperations = sa_SuccessfulOperations s,
      st_FailedOperations = sa_FailedOperations s,
      st_ActiveClients = sa_ActiveClients s,
      st_ConfiguredClients = sa_ConfiguredClients s,
      st_ElapsedSeconds = sa_ElapsedSeconds s,
      st_OperationRates =
        (let c = sa_OperationCounts s; e = sa_ElapsedSeconds s in
         \<lparr>or_PointRead = ratePerSecond (oc_PointRead c) e,
          or_RangeRead = ratePerSecond (oc_RangeRead c) e,
          or_HistoryInsert = ratePerSecond (oc_HistoryInsert c) e,
          or_AccountUpdate = ratePerSecond (oc_AccountUpdate c) e,
          or_Transaction = ratePerSecond (oc_Transaction c) e,
          or_Join = ratePerSecond (oc_Join c) e,
          or_Aggregation = ratePerSecond (oc_Aggregation c) e,
          or_LockContention = ratePerSecond (oc_LockContention c) e,
          or_HotUpdate = ratePerSecond (oc_HotUpdate c) e\<rparr>),
      st_LatestError = sa_LatestError s\<rparr>"

definition Sample_Metrics :: "Sample \<Rightarrow> bool \<Rightarrow> MetricsSnapshot" where
  "Sample_Metrics s runActive =
     \<lparr>ms_RunActive = runActive,
      ms_RunDurationSeconds = sa_ElapsedSeconds s,
      ms_ConfiguredClients = sa_ConfiguredClients s,
      ms_ActiveClients = sa_ActiveClients s,
      ms_OperationsTotal = sa_TotalOperations s,
      ms_OperationErrorsTotal = sa_FailedOperations s,
      ms_TPS = ratePerSecond (sa_TotalOperations s) (sa_ElapsedSeconds s),
      ms_OperationLatency =
        \<lparr>hs_Buckets = la_Buckets (sa_Latency s), hs_Count = la_Count (sa_Latency s),
         hs_SumSeconds = la_SumSeconds (sa_Latency s)\<rparr>\<rparr>"

lemma ratePerSecond_nonneg: "0 \<le> ratePerSecond c e"
  by (auto simp: ratePerSecond_def intro!: fl_nonneg divide_nonneg_pos)

lemma ratePerSecond_mono: "c \<le> d \<Longrightarrow> ratePerSecond c e \<le> ratePerSecond d e"
proof (cases "c = 0 \<or> e \<le> 0")
  case False
  assume "c \<le> d"
  moreover have "d \<noteq> 0" using False \<open>c \<le> d\<close> by auto
  ultimately show ?thesis using False
    by (auto simp: ratePerSecond_def intro!: fl_mono divide_right_mono u64_to_float_mono)
qed (auto simp: ratePerSecond_nonneg ratePerSecond_def [of c])

end
