(* ===== verification/Transition_Systems.thy ===== *)
theory Transition_Systems
  imports Prelude
begin

text \<open>
  Labelled transition systems and their invariants. The coordinator, the pacing gate and
  the worker pool are used by several goroutines at once; each is modelled as a step
  relation whose steps are the sections the code executes under its mutex, and its safety
  properties are proved through the locale of this theory.
\<close>

inductive reach :: "('s \<Rightarrow> bool) \<Rightarrow> ('s \<Rightarrow> 'e \<Rightarrow> 's \<Rightarrow> bool) \<Rightarrow> 's \<Rightarrow> bool"
  for init :: "'s \<Rightarrow> bool" and step :: "'s \<Rightarrow> 'e \<Rightarrow> 's \<Rightarrow> bool" where
  reach_init: "init s \<Longrightarrow> reach init step s"
| reach_step: "reach init step s \<Longrightarrow> step s e s' \<Longrightarrow> reach init step s'"

text \<open>Executions with the list of their labels.\<close>

inductive steps :: "('s \<Rightarrow> 'e \<Rightarrow> 's \<Rightarrow> bool) \<Rightarrow> 's \<Rightarrow> 'e list \<Rightarrow> 's \<Rightarrow> bool"
  for step :: "'s \<Rightarrow> 'e \<Rightarrow> 's \<Rightarrow> bool" where
  steps_Nil: "steps step s [] s"
| steps_Cons: "step s e t \<Longrightarrow> steps step t es u \<Longrightarrow> steps step s (e # es) u"

inductive_cases steps_NilE [elim!]: "steps step s [] t"
inductive_cases steps_ConsE: "steps step s (e # es) t"

lemma reach_steps: "steps step s es t \<Longrightarrow> reach init step s \<Longrightarrow> reach init step t"
  by (induction rule: steps.induct) (auto intro: reach_step)

lemma steps_append: "steps step a xs b \<Longrightarrow> steps step b ys c \<Longrightarrow> steps step a (xs @ ys) c"
  by (induction rule: steps.induct) (auto intro: steps_Cons)

lemma steps_one: "step a e b \<Longrightarrow> steps step a [e] b"
  by (auto intro: steps_Cons steps_Nil)

text \<open>The contract of an invariant: it holds initially and every step keeps it.\<close>

locale invariant_system =
  fixes init :: "'s \<Rightarrow> bool"
    and step :: "'s \<Rightarrow> 'e \<Rightarrow> 's \<Rightarrow> bool"
    and inv :: "'s \<Rightarrow> bool"
  assumes inv_init: "init s \<Longrightarrow> inv s"
    and inv_step: "inv s \<Longrightarrow> step s e s' \<Longrightarrow> inv s'"
begin

lemma reach_inv: "reach init step s \<Longrightarrow> inv s"
  by (induction rule: reach.induct) (auto intro: inv_init inv_step)

lemma steps_inv: "steps step s es t \<Longrightarrow> inv s \<Longrightarrow> inv t"
  by (induction rule: steps.induct) (auto intro: inv_step)

text \<open>A relation between a state and its past, kept by every step from a good state.\<close>

lemma steps_rel:
  assumes "steps step s es t" and "inv s" and "R s"
    and "\<And>u e v. inv u \<Longrightarrow> R u \<Longrightarrow> e \<in> set es \<Longrightarrow> step u e v \<Longrightarrow> R v"
  shows "R t"
  using assms
proof (induction rule: steps.induct)
  case (steps_Cons s e t es u)
  have "inv t" using steps_Cons.hyps(1) steps_Cons.prems(1) inv_step by blast
  moreover have "R t" using steps_Cons.prems(3) [OF steps_Cons.prems(1,2) _ steps_Cons.hyps(1)] by simp
  ultimately show ?case using steps_Cons.prems(3) by (intro steps_Cons.IH) auto
qed

end

end
