(* ===== verification/Coordinator.thy ===== *)
theory Coordinator
  imports Options Samples Transition_Systems
begin

text \<open>
  The run coordinator, \<open>internal/benchmarkrun/coordinator.go\<close>, and the results view of
  \<open>results.go\<close>. Every section of the code between \<open>c.mu.Lock\<close> and \<open>Unlock\<close> is one
  function on the coordinator; \<open>Start\<close> has two of them, with \<open>runner.Start\<close> running
  unlocked in between, and \<open>waitForRun\<close> runs in a goroutine of its own once the run ended.
  The step relation interleaves these sections arbitrarily.

  The Go interfaces \<open>Runner\<close> and \<open>Run\<close> are a record of methods over a world \<open>'w\<close> in
  which the runs live; a run is a handle \<open>'r\<close>. A context created by
  \<open>context.WithCancel\<close> is a number, and \<open>c.cancel\<close> is the context it cancels.
\<close>

section \<open>Data\<close>

datatype Status = StatusIdle | StatusStarting | StatusRunning | StatusStopping | StatusStopped | StatusFailed

fun status_text :: "Status \<Rightarrow> string" where
  "status_text StatusIdle = ''idle''"
| "status_text StatusStarting = ''starting''"
| "status_text StatusRunning = ''running''"
| "status_text StatusStopping = ''stopping''"
| "status_text StatusStopped = ''stopped''"
| "status_text StatusFailed = ''failed''"

record State =
  cs_Status :: Status
  cs_Options :: StartOptions
  cs_StartedAt :: "gotime option"
  cs_StoppedAt :: "gotime option"
  cs_Error :: string

record ('r, 'w) run_api =
  api_Start :: "nat \<Rightarrow> StartOptions \<Rightarrow> 'w \<Rightarrow> goerror + 'r \<Rightarrow> 'w \<Rightarrow> bool"
  api_Alter :: "'r \<Rightarrow> AlterOptions \<Rightarrow> 'w \<Rightarrow> 'w \<times> goerror option"
  api_Sample :: "'r \<Rightarrow> 'w \<Rightarrow> Sample"
  api_Wait :: "'r \<Rightarrow> 'w \<Rightarrow> goerror option \<Rightarrow> bool"

record 'r Coordinator =
  co_runner :: bool              \<comment> \<open>\<open>c.runner != nil\<close>\<close>
  co_state :: State
  co_sample :: Sample
  co_run :: "'r option"
  co_cancel :: "nat option"
  co_runID :: u64

definition idleState :: State where
  "idleState = \<lparr>cs_Status = StatusIdle, cs_Options = zeroStartOptions, cs_StartedAt = None,
                cs_StoppedAt = None, cs_Error = []\<rparr>"

definition New :: "bool \<Rightarrow> 'r Coordinator" where
  "New runner = \<lparr>co_runner = runner, co_state = idleState, co_sample = zeroSample, co_run = None,
                 co_cancel = None, co_runID = 0\<rparr>"

definition timePtr :: "gotime \<Rightarrow> gotime option" where
  "timePtr value = Some value"

definition cloneTimePtr :: "gotime option \<Rightarrow> gotime option" where
  "cloneTimePtr value = (case value of None \<Rightarrow> None | Some t \<Rightarrow> timePtr t)"

definition cloneState :: "State \<Rightarrow> State" where
  "cloneState state =
     (let cloned = \<lparr>cs_Status = cs_Status state, cs_Options = cloneStartOptions (cs_Options state),
                    cs_StartedAt = None, cs_StoppedAt = None, cs_Error = cs_Error state\<rparr>;
          cloned = (case cs_StartedAt state of None \<Rightarrow> cloned | Some t \<Rightarrow> cloned\<lparr>cs_StartedAt := timePtr t\<rparr>)
      in (case cs_StoppedAt state of None \<Rightarrow> cloned | Some t \<Rightarrow> cloned\<lparr>cs_StoppedAt := timePtr t\<rparr>))"

definition active :: "Status \<Rightarrow> bool" where
  "active status \<longleftrightarrow> status = StatusStarting \<or> status = StatusRunning \<or> status = StatusStopping"

section \<open>Operations\<close>

type_synonym response = "State \<times> goerror option"

definition co_State :: "'r Coordinator \<Rightarrow> State" where
  "co_State c = cloneState (co_state c)"

text \<open>
  \<open>Start\<close> up to the unlock before \<open>runner.Start\<close>: an immediate response, or the id of the
  new run. \<open>ctx_err\<close> is \<open>ctx.Err()\<close> of the caller, \<open>ctx\<close> the context created for the run.
\<close>

definition Start_begin ::
  "goerror option \<Rightarrow> StartOptions \<Rightarrow> nat \<Rightarrow> 'r Coordinator \<Rightarrow> 'r Coordinator \<times> (response + u64)" where
  "Start_begin ctx_err options ctx c =
     (case ctx_err of
        Some err \<Rightarrow> (c, Inl (co_State c, Some (Wrap ''start benchmark run'' err)))
      | None \<Rightarrow>
          (if cs_Status (co_state c) = StatusStarting \<or> cs_Status (co_state c) = StatusRunning
              \<or> cs_Status (co_state c) = StatusStopping
           then (c, Inl (cloneState (co_state c), Some (Sentinel ErrRunActive)))
           else
             (let runID = co_runID c + 1 in
              (c\<lparr>co_runID := runID, co_cancel := Some ctx, co_run := None,
                 co_state := \<lparr>cs_Status = StatusStarting, cs_Options = cloneStartOptions options,
                              cs_StartedAt = None, cs_StoppedAt = None, cs_Error = []\<rparr>,
                 co_sample := zeroSample\<rparr>,
               Inr runID))))"

definition finishStartFailure ::
  "u64 \<Rightarrow> StartOptions \<Rightarrow> goerror \<Rightarrow> gotime \<Rightarrow> 'r Coordinator \<Rightarrow> 'r Coordinator \<times> response" where
  "finishStartFailure runID options err now c =
     (if co_runID c \<noteq> runID then (c, cloneState (co_state c), Some err)
      else
        (let c = c\<lparr>co_run := None, co_cancel := None\<rparr>; stoppedAt = now in
         if cs_Status (co_state c) = StatusStopping \<and> errors_Is err Canceled then
           (let c = c\<lparr>co_state := (co_state c)\<lparr>cs_Status := StatusStopped, cs_Error := [],
                         cs_Options := cloneStartOptions options, cs_StoppedAt := timePtr stoppedAt\<rparr>,
                      co_sample := zeroSample\<rparr>
            in (c, cloneState (co_state c), Some err))
         else
           (let c = c\<lparr>co_state := \<lparr>cs_Status = StatusFailed, cs_Options = cloneStartOptions options,
                         cs_StartedAt = None, cs_StoppedAt = timePtr stoppedAt,
                         cs_Error = compactErrorText (error_text err)\<rparr>,
                      co_sample := zeroSample\<rparr>
            in (c, cloneState (co_state c), Some err))))"

text \<open>The second section of \<open>Start\<close>; the last component is the \<open>waitForRun\<close> it spawns.\<close>

definition Start_finish ::
  "u64 \<Rightarrow> 'r \<Rightarrow> gotime \<Rightarrow> 'r Coordinator \<Rightarrow> 'r Coordinator \<times> response \<times> (u64 \<times> 'r) option" where
  "Start_finish runID run now c =
     (if co_runID c \<noteq> runID then (c, (cloneState (co_state c), None), None)
      else
        (let c = c\<lparr>co_run := Some run\<rparr>;
             c = (if cs_StartedAt (co_state c) = None
                  then c\<lparr>co_state := (co_state c)\<lparr>cs_StartedAt := timePtr now\<rparr>\<rparr> else c);
             c = (if cs_Status (co_state c) = StatusStarting
                  then c\<lparr>co_state := (co_state c)\<lparr>cs_Status := StatusRunning, cs_Error := []\<rparr>\<rparr> else c)
         in (c, (cloneState (co_state c), None), Some (runID, run))))"

text \<open>The test of \<open>c.runner\<close> before the call, and the result of \<open>runner.Start\<close>.\<close>

definition start_outcome :: "'r Coordinator \<Rightarrow> goerror + 'r \<Rightarrow> goerror + 'r" where
  "start_outcome c result = (if co_runner c then result else Inl (Errorf ''benchmark runner is nil''))"

text \<open>What \<open>Start\<close> does with what \<open>runner.Start\<close> returned.\<close>

definition Start_continue ::
  "u64 \<Rightarrow> StartOptions \<Rightarrow> goerror + 'r \<Rightarrow> gotime \<Rightarrow> 'r Coordinator
   \<Rightarrow> 'r Coordinator \<times> response \<times> (u64 \<times> 'r) option" where
  "Start_continue runID options result now c =
     (case start_outcome c result of
        Inl err \<Rightarrow> (case finishStartFailure runID options err now c of (c, r) \<Rightarrow> (c, r, None))
      | Inr run \<Rightarrow> Start_finish runID run now c)"

definition Alter ::
  "('r, 'w) run_api \<Rightarrow> AlterOptions \<Rightarrow> 'w \<Rightarrow> 'r Coordinator \<Rightarrow> 'w \<times> 'r Coordinator \<times> response" where
  "Alter api options w c =
     (case (cs_Status (co_state c) \<noteq> StatusRunning, co_run c) of
        (False, Some run) \<Rightarrow>
          (case ApplyAlter (cs_Options (co_state c)) options of
             Inl err \<Rightarrow> (w, c, cloneState (co_state c), Some err)
           | Inr updated \<Rightarrow>
               (case api_Alter api run options w of
                  (w, Some err) \<Rightarrow> (w, c, cloneState (co_state c), Some err)
                | (w, None) \<Rightarrow>
                    (let c = c\<lparr>co_state := (co_state c)\<lparr>cs_Options := updated\<rparr>\<rparr>
                     in (w, c, cloneState (co_state c), None))))
      | _ \<Rightarrow> (w, c, cloneState (co_state c), Some (Sentinel ErrRunNotRunning)))"

text \<open>The last component is the context whose cancel function \<open>Stop\<close> calls.\<close>

definition Stop :: "'r Coordinator \<Rightarrow> 'r Coordinator \<times> response \<times> nat option" where
  "Stop c =
     (case cs_Status (co_state c) of
        StatusIdle \<Rightarrow> (c, (cloneState (co_state c), None), None)
      | StatusStopped \<Rightarrow> (c, (cloneState (co_state c), None), None)
      | StatusFailed \<Rightarrow> (c, (cloneState (co_state c), None), None)
      | StatusStopping \<Rightarrow> (c, (cloneState (co_state c), None), None)
      | _ \<Rightarrow> (let c = c\<lparr>co_state := (co_state c)\<lparr>cs_Status := StatusStopping\<rparr>\<rparr>
              in (c, (cloneState (co_state c), None), co_cancel c)))"

text \<open>\<open>waitForRun\<close> after \<open>run.Wait()\<close> returned \<open>err\<close>.\<close>

definition waitForRun ::
  "('r, 'w) run_api \<Rightarrow> u64 \<Rightarrow> 'r \<Rightarrow> goerror option \<Rightarrow> gotime \<Rightarrow> 'w \<Rightarrow> 'r Coordinator \<Rightarrow> 'r Coordinator" where
  "waitForRun api runID run err now w c =
     (if co_runID c \<noteq> runID then c
      else
        (let c = c\<lparr>co_sample := api_Sample api run w, co_run := None, co_cancel := None\<rparr>;
             c = c\<lparr>co_state := (co_state c)\<lparr>cs_StoppedAt := timePtr now\<rparr>\<rparr>
         in if cs_Status (co_state c) = StatusStopping
            then c\<lparr>co_state := (co_state c)\<lparr>cs_Status := StatusStopped, cs_Error := []\<rparr>\<rparr>
            else (case err of
                    None \<Rightarrow> c\<lparr>co_state := (co_state c)\<lparr>cs_Status := StatusStopped, cs_Error := []\<rparr>\<rparr>
                  | Some e \<Rightarrow>
                      (if errors_Is e Canceled
                       then c\<lparr>co_state := (co_state c)\<lparr>cs_Status := StatusFailed,
                                cs_Error := compactErrorText (error_text e)\<rparr>\<rparr>
                       else c\<lparr>co_state := (co_state c)\<lparr>cs_Status := StatusFailed,
                                cs_Error := compactErrorText (error_text e)\<rparr>\<rparr>))))"

subsection \<open>Views\<close>

record Results =
  re_Status :: Status
  re_Options :: StartOptions
  re_StartedAt :: "gotime option"
  re_StoppedAt :: "gotime option"
  re_Error :: string
  re_Stats :: Stats

definition normalizeResultsSample :: "State \<Rightarrow> Sample \<Rightarrow> Sample" where
  "normalizeResultsSample state sample =
     (if cs_Status state = StatusStopped \<and> cs_Error state = []
         \<and> compactErrorText (sa_LatestError sample) = error_text (Sentinel Canceled)
      then sample\<lparr>sa_LatestError := []\<rparr> else sample)"

definition stateToResults :: "State \<Rightarrow> Sample \<Rightarrow> Results" where
  "stateToResults state sample0 =
     (let sample = normalizeResultsSample state sample0 in
      \<lparr>re_Status = cs_Status state, re_Options = cloneStartOptions (cs_Options state),
       re_StartedAt = cloneTimePtr (cs_StartedAt state), re_StoppedAt = cloneTimePtr (cs_StoppedAt state),
       re_Error = cs_Error state, re_Stats = Sample_Stats sample\<rparr>)"

definition currentSample :: "('r, 'w) run_api \<Rightarrow> 'w \<Rightarrow> 'r Coordinator \<Rightarrow> Sample" where
  "currentSample api w c = (case co_run c of None \<Rightarrow> co_sample c | Some run \<Rightarrow> api_Sample api run w)"

definition co_Results :: "('r, 'w) run_api \<Rightarrow> 'w \<Rightarrow> 'r Coordinator \<Rightarrow> Results" where
  "co_Results api w c = stateToResults (co_state c) (currentSample api w c)"

definition co_Metrics :: "('r, 'w) run_api \<Rightarrow> 'w \<Rightarrow> 'r Coordinator \<Rightarrow> MetricsSnapshot" where
  "co_Metrics api w c =
     Sample_Metrics (currentSample api w c)
       (cs_Status (co_state c) = StatusStarting \<or> cs_Status (co_state c) = StatusRunning
        \<or> cs_Status (co_state c) = StatusStopping)"

section \<open>The coordinator under concurrent use\<close>

text \<open>
  The whole system: the coordinator, the world of the runs, the \<open>Start\<close> calls that are in
  \<open>runner.Start\<close> (run id, options, context), the \<open>waitForRun\<close> goroutines, the cancelled
  contexts and the next fresh context.
\<close>

record ('r, 'w) system =
  sy_co :: "'r Coordinator"
  sy_world :: 'w
  sy_starting :: "(u64 \<times> StartOptions \<times> nat) list"
  sy_waiting :: "(u64 \<times> 'r) list"
  sy_cancelled :: "nat set"
  sy_next :: nat

datatype 'r event =
    EvStart "goerror option" StartOptions
  | EvStarted "goerror + 'r" gotime
  | EvAlter AlterOptions
  | EvStop
  | EvDone "goerror option" gotime
  | EvWorld

definition sy_init :: "('r, 'w) system \<Rightarrow> bool" where
  "sy_init s \<longleftrightarrow> (\<exists>runner. sy_co s = New runner) \<and> sy_starting s = [] \<and> sy_waiting s = [] \<and> sy_cancelled s = {}"

text \<open>\<open>env\<close> is what the runs do on their own, given the cancelled contexts.\<close>

inductive co_step ::
  "('r, 'w) run_api \<Rightarrow> (nat set \<Rightarrow> 'w \<Rightarrow> 'w \<Rightarrow> bool) \<Rightarrow> ('r, 'w) system \<Rightarrow> 'r event \<Rightarrow> ('r, 'w) system \<Rightarrow> bool"
  for api env where
  start_rejected:
    "Start_begin ctx_err options (sy_next s) (sy_co s) = (c, Inl r) \<Longrightarrow>
     co_step api env s (EvStart ctx_err options) (s\<lparr>sy_co := c\<rparr>)"
| start_begun:
    "Start_begin ctx_err options (sy_next s) (sy_co s) = (c, Inr runID) \<Longrightarrow>
     co_step api env s (EvStart ctx_err options)
       (s\<lparr>sy_co := c, sy_starting := (runID, options, sy_next s) # sy_starting s, sy_next := Suc (sy_next s)\<rparr>)"
| started:
    "sy_starting s = xs @ (runID, options, ctx) # ys \<Longrightarrow>
     (if co_runner (sy_co s) then api_Start api ctx (cloneStartOptions options) (sy_world s) result w
      else w = sy_world s) \<Longrightarrow>
     Start_continue runID options result now (sy_co s) = (c, r, spawned) \<Longrightarrow>
     co_step api env s (EvStarted result now)
       (s\<lparr>sy_co := c, sy_world := w, sy_starting := xs @ ys,
          sy_waiting := (case spawned of None \<Rightarrow> sy_waiting s | Some t \<Rightarrow> t # sy_waiting s)\<rparr>)"
| altered:
    "Alter api options (sy_world s) (sy_co s) = (w, c, r) \<Longrightarrow>
     co_step api env s (EvAlter options) (s\<lparr>sy_co := c, sy_world := w\<rparr>)"
| stopped:
    "Stop (sy_co s) = (c, r, cancel) \<Longrightarrow>
     co_step api env s EvStop
       (s\<lparr>sy_co := c, sy_cancelled := (case cancel of None \<Rightarrow> sy_cancelled s | Some ctx \<Rightarrow> insert ctx (sy_cancelled s))\<rparr>)"
| run_ended:
    "sy_waiting s = xs @ (runID, run) # ys \<Longrightarrow> api_Wait api run (sy_world s) err \<Longrightarrow>
     co_step api env s (EvDone err now)
       (s\<lparr>sy_co := waitForRun api runID run err now (sy_world s) (sy_co s), sy_waiting := xs @ ys\<rparr>)"
| world: "env (sy_cancelled s) (sy_world s) w \<Longrightarrow> co_step api env s EvWorld (s\<lparr>sy_world := w\<rparr>)"

inductive_cases EvStartE [consumes 1]: "co_step api env s (EvStart ctx_err options) t"
inductive_cases EvStartedE [consumes 1]: "co_step api env s (EvStarted result now) t"
inductive_cases EvAlterE [consumes 1]: "co_step api env s (EvAlter options) t"
inductive_cases EvStopE [consumes 1]: "co_step api env s EvStop t"
inductive_cases EvDoneE [consumes 1]: "co_step api env s (EvDone err now) t"
inductive_cases EvWorldE [consumes 1]: "co_step api env s EvWorld t"

subsection \<open>The invariant\<close>

text \<open>
  At most one goroutine is inside a start or a wait, it carries the current run id, and
  its kind determines the status, the run, the cancel function and the time stamps.
\<close>

definition state_wf :: "State \<Rightarrow> bool" where
  "state_wf st \<longleftrightarrow>
     (cs_StoppedAt st \<noteq> None \<longleftrightarrow> cs_Status st = StatusStopped \<or> cs_Status st = StatusFailed)
   \<and> (cs_Status st = StatusIdle \<or> cs_Status st = StatusStarting \<longrightarrow> cs_StartedAt st = None)
   \<and> (cs_Status st = StatusRunning \<longrightarrow> cs_StartedAt st \<noteq> None)
   \<and> (cs_Error st \<noteq> [] \<longrightarrow> cs_Status st = StatusFailed)
   \<and> length (cs_Error st) \<le> 160"

definition phase_idle :: "('r, 'w) system \<Rightarrow> bool" where
  "phase_idle s \<longleftrightarrow> sy_starting s = [] \<and> sy_waiting s = [] \<and> \<not> active (cs_Status (co_state (sy_co s)))
     \<and> co_run (sy_co s) = None \<and> co_cancel (sy_co s) = None"

definition cancel_seen :: "('r, 'w) system \<Rightarrow> nat \<Rightarrow> bool" where
  "cancel_seen s ctx \<longleftrightarrow> co_cancel (sy_co s) = Some ctx \<and> ctx < sy_next s
     \<and> (ctx \<in> sy_cancelled s \<longleftrightarrow> cs_Status (co_state (sy_co s)) = StatusStopping)"

definition phase_starting :: "('r, 'w) system \<Rightarrow> bool" where
  "phase_starting s \<longleftrightarrow> (\<exists>options ctx. sy_starting s = [(co_runID (sy_co s), options, ctx)] \<and> sy_waiting s = []
     \<and> (cs_Status (co_state (sy_co s)) = StatusStarting \<or> cs_Status (co_state (sy_co s)) = StatusStopping)
     \<and> cs_StartedAt (co_state (sy_co s)) = None \<and> cs_Options (co_state (sy_co s)) = options
     \<and> co_run (sy_co s) = None \<and> cancel_seen s ctx)"

definition phase_running :: "('r, 'w) system \<Rightarrow> bool" where
  "phase_running s \<longleftrightarrow> (\<exists>run ctx. sy_waiting s = [(co_runID (sy_co s), run)] \<and> sy_starting s = []
     \<and> (cs_Status (co_state (sy_co s)) = StatusRunning \<or> cs_Status (co_state (sy_co s)) = StatusStopping)
     \<and> cs_StartedAt (co_state (sy_co s)) \<noteq> None
     \<and> co_run (sy_co s) = Some run \<and> cancel_seen s ctx)"

definition co_inv :: "('r, 'w) system \<Rightarrow> bool" where
  "co_inv s \<longleftrightarrow> (phase_idle s \<or> phase_starting s \<or> phase_running s) \<and> state_wf (co_state (sy_co s))
     \<and> (\<forall>ctx \<in> sy_cancelled s. ctx < sy_next s)"

lemma cloneState_id [simp]: "cloneState st = st"
  by (cases st) (simp add: cloneState_def timePtr_def Let_def split: option.splits)

lemma cloneTimePtr_id [simp]: "cloneTimePtr t = t"
  by (simp add: cloneTimePtr_def timePtr_def split: option.splits)

lemmas phase_defs = phase_idle_def phase_starting_def phase_running_def cancel_seen_def

lemma co_inv_init: "sy_init s \<Longrightarrow> co_inv s"
  by (auto simp: sy_init_def co_inv_def phase_idle_def New_def idleState_def active_def state_wf_def)

lemma co_inv_cases:
  assumes "co_inv s"
  obtains (idle) "phase_idle s" | (starting) "phase_starting s" | (running) "phase_running s"
  using assms by (auto simp: co_inv_def)

text \<open>One preservation lemma per kind of step.\<close>

lemma co_inv_start [run_inv]:
  assumes inv: "co_inv s" and step: "co_step api env s (EvStart ctx_err options) t"
  shows "co_inv t"
  using step
proof (cases rule: EvStartE)
  case (1 c r)
  then have "c = sy_co s" by (auto simp: Start_begin_def Let_def split: option.splits if_splits)
  with 1 inv show ?thesis by simp
next
  case (2 c runID)
  then have begun: "ctx_err = None" "\<not> active (cs_Status (co_state (sy_co s)))"
    "runID = co_runID (sy_co s) + 1"
    by (auto simp: Start_begin_def active_def Let_def split: option.splits if_splits)
  with inv have "phase_idle s" by (auto simp: co_inv_def phase_defs active_def)
  moreover have "c = (sy_co s)\<lparr>co_runID := runID, co_cancel := Some (sy_next s), co_run := None,
      co_state := \<lparr>cs_Status = StatusStarting, cs_Options = options, cs_StartedAt = None,
        cs_StoppedAt = None, cs_Error = []\<rparr>, co_sample := zeroSample\<rparr>"
    using 2(2) begun by (auto simp: Start_begin_def active_def Let_def cloneStartOptions_id split: if_splits)
  ultimately show ?thesis using inv unfolding 2(1)
    by (auto simp: co_inv_def phase_starting_def phase_idle_def cancel_seen_def state_wf_def)
qed

lemma Stop_changes:
  "cs_Status (co_state c) = StatusStarting \<or> cs_Status (co_state c) = StatusRunning \<Longrightarrow>
   Stop c = (let c' = c\<lparr>co_state := (co_state c)\<lparr>cs_Status := StatusStopping\<rparr>\<rparr>
             in (c', (co_state c', None), co_cancel c))"
  by (auto simp: Stop_def Let_def)

lemma Stop_keeps:
  "\<not> (cs_Status (co_state c) = StatusStarting \<or> cs_Status (co_state c) = StatusRunning) \<Longrightarrow>
   Stop c = (c, (co_state c, None), None)"
  by (cases "cs_Status (co_state c)") (simp_all add: Stop_def)

lemma co_inv_stop [run_inv]:
  assumes inv: "co_inv s" and step: "co_step api env s EvStop t"
  shows "co_inv t"
  using step
proof (cases rule: EvStopE)
  case (1 c r cancel)
  let ?st = "co_state (sy_co s)"
  show ?thesis
  proof (cases "cs_Status ?st = StatusStarting \<or> cs_Status ?st = StatusRunning")
    case True
    then have c: "c = (sy_co s)\<lparr>co_state := ?st\<lparr>cs_Status := StatusStopping\<rparr>\<rparr>" "cancel = co_cancel (sy_co s)"
      using 1(2) by (simp_all add: Stop_changes Let_def)
    have wf: "state_wf (?st\<lparr>cs_Status := StatusStopping\<rparr>)"
      using inv True by (auto simp: co_inv_def state_wf_def)
    from inv show ?thesis
    proof (cases rule: co_inv_cases)
      case idle
      with True show ?thesis by (simp add: phase_idle_def active_def)
    next
      case starting
      then have "phase_starting t" unfolding 1(1) c by (auto simp: phase_starting_def cancel_seen_def)
      moreover have "\<forall>ctx \<in> sy_cancelled t. ctx < sy_next t"
        using inv starting unfolding 1(1) c by (auto simp: co_inv_def phase_starting_def cancel_seen_def)
      ultimately show ?thesis using wf unfolding 1(1) c by (simp add: co_inv_def)
    next
      case running
      then have "phase_running t" unfolding 1(1) c by (auto simp: phase_running_def cancel_seen_def)
      moreover have "\<forall>ctx \<in> sy_cancelled t. ctx < sy_next t"
        using inv running unfolding 1(1) c by (auto simp: co_inv_def phase_running_def cancel_seen_def)
      ultimately show ?thesis using wf unfolding 1(1) c by (simp add: co_inv_def)
    qed
  next
    case False
    then have "c = sy_co s" "cancel = None" using 1(2) by (simp_all add: Stop_keeps)
    with inv show ?thesis unfolding 1(1) by simp
  qed
qed

lemma compactErrorText_le_160 [simp]: "length (compactErrorText s) \<le> 160"
  using compactErrorText_le [of s] by simp

lemma co_inv_started [run_inv]:
  assumes inv: "co_inv s" and step: "co_step api env s (EvStarted result now) t"
  shows "co_inv t"
  using step
proof (cases rule: EvStartedE)
  case (1 xs runID options ctx ys w c r spawned)
  with inv have "phase_starting s" by (auto simp: co_inv_def phase_idle_def phase_running_def)
  then have s: "xs = []" "ys = []" "runID = co_runID (sy_co s)" "sy_waiting s = []"
    "cs_Status (co_state (sy_co s)) = StatusStarting \<or> cs_Status (co_state (sy_co s)) = StatusStopping"
    "cs_StartedAt (co_state (sy_co s)) = None" "cancel_seen s ctx"
    using 1(2) by (auto simp: phase_starting_def)
  have wf: "cs_Error (co_state (sy_co s)) = []" "cs_StoppedAt (co_state (sy_co s)) = None"
    "\<forall>ctx \<in> sy_cancelled s. ctx < sy_next s"
    using inv s(5) by (auto simp: co_inv_def state_wf_def)
  show ?thesis
  proof (cases "start_outcome (sy_co s) result")
    case (Inl err)
    with 1(4) s wf show ?thesis unfolding 1(1)
      by (auto simp: Start_continue_def finishStartFailure_def Let_def timePtr_def co_inv_def
          phase_idle_def active_def state_wf_def split: if_splits)
  next
    case (Inr run)
    with 1(4) s wf show ?thesis unfolding 1(1)
      by (auto simp: Start_continue_def Start_finish_def Let_def timePtr_def co_inv_def
          phase_running_def cancel_seen_def state_wf_def split: if_splits)
  qed
qed

text \<open>\<open>Alter\<close> changes nothing but the options, and those only while running.\<close>

lemma Alter_cases:
  assumes "Alter api options w c = (w', c', r)"
  obtains (keeps) "c' = c" "snd r \<noteq> None"
  | (changes) run updated where "cs_Status (co_state c) = StatusRunning" "co_run c = Some run"
      "ApplyAlter (cs_Options (co_state c)) options = Inr updated"
      "api_Alter api run options w = (w', None)"
      "c' = c\<lparr>co_state := (co_state c)\<lparr>cs_Options := updated\<rparr>\<rparr>" "r = (co_state c', None)"
proof (cases "cs_Status (co_state c) = StatusRunning")
  case running: True
  show thesis
  proof (cases "co_run c")
    case None
    then show thesis using assms running by (intro keeps) (auto simp: Alter_def)
  next
    case (Some run)
    show thesis
    proof (cases "ApplyAlter (cs_Options (co_state c)) options")
      case (Inl err)
      then show thesis using assms running Some by (intro keeps) (auto simp: Alter_def)
    next
      case (Inr updated)
      obtain w'' res where a: "api_Alter api run options w = (w'', res)" by (cases "api_Alter api run options w")
      show thesis
      proof (cases res)
        case None
        with assms running Some Inr a show thesis by (intro changes) (auto simp: Alter_def Let_def)
      next
        case (Some e)
        with assms running \<open>co_run c = Some run\<close> Inr a show thesis
          by (intro keeps) (auto simp: Alter_def Let_def)
      qed
    qed
  qed
next
  case False
  then show thesis using assms by (intro keeps) (auto simp: Alter_def)
qed

lemma co_inv_alter [run_inv]:
  assumes inv: "co_inv s" and step: "co_step api env s (EvAlter options) t"
  shows "co_inv t"
  using step
proof (cases rule: EvAlterE)
  case (1 w c r)
  from 1(2) show ?thesis
  proof (cases rule: Alter_cases)
    case keeps
    with inv 1(1) show ?thesis by (simp add: co_inv_def phase_defs)
  next
    case (changes run updated)
    have "state_wf (co_state c)" using inv unfolding changes(5) by (simp add: co_inv_def state_wf_def)
    moreover have "phase_running s" using inv changes(1,2) by (auto simp: co_inv_def phase_idle_def phase_starting_def)
    then have "phase_running t" unfolding 1(1) changes(5) by (simp add: phase_running_def cancel_seen_def)
    ultimately show ?thesis using inv unfolding 1(1) by (simp add: co_inv_def)
  qed
qed

lemma co_inv_done [run_inv]:
  assumes inv: "co_inv s" and step: "co_step api env s (EvDone err now) t"
  shows "co_inv t"
  using step
proof (cases rule: EvDoneE)
  case (1 xs runID run ys)
  with inv have "phase_running s" by (auto simp: co_inv_def phase_idle_def phase_starting_def)
  then have s: "xs = []" "ys = []" "runID = co_runID (sy_co s)" "sy_starting s = []"
    using 1(2) by (auto simp: phase_running_def)
  have "\<not> active (cs_Status (co_state (waitForRun api runID run err now (sy_world s) (sy_co s))))
    \<and> state_wf (co_state (waitForRun api runID run err now (sy_world s) (sy_co s)))"
    using s(3) inv by (auto simp: waitForRun_def Let_def active_def timePtr_def state_wf_def co_inv_def
        split: option.splits)
  moreover have "co_run (waitForRun api runID run err now (sy_world s) (sy_co s)) = None"
    "co_cancel (waitForRun api runID run err now (sy_world s) (sy_co s)) = None"
    using s(3) by (auto simp: waitForRun_def Let_def split: option.splits)
  ultimately show ?thesis using inv s unfolding 1(1) by (simp add: co_inv_def phase_idle_def)
qed

lemma co_inv_world [run_inv]:
  assumes inv: "co_inv s" and step: "co_step api env s EvWorld t"
  shows "co_inv t"
  using step inv by (cases rule: EvWorldE) (simp add: co_inv_def phase_defs)

lemma co_inv_step: "co_inv s \<Longrightarrow> co_step api env s e t \<Longrightarrow> co_inv t"
  by (cases e) (auto intro: run_inv)

interpretation coord: invariant_system sy_init "co_step api env" co_inv for api env
  by unfold_locales (auto intro: co_inv_init co_inv_step)


lemmas reach_co_inv = coord.reach_inv

subsection \<open>One run at a time\<close>

text \<open>
  C1. However starts, stops, alterations and the ends of runs interleave, there is never
  more than one goroutine inside \<open>runner.Start\<close> or \<open>waitForRun\<close>; it carries the current
  run id, so the stale-id branches of \<open>Start\<close>, \<open>finishStartFailure\<close> and \<open>waitForRun\<close> are
  never taken; and one exists exactly while the status is starting, running or stopping.
\<close>
theorem single_run_in_flight:
  assumes "reach sy_init (co_step api env) s"
  shows "length (sy_starting s) + length (sy_waiting s) \<le> 1
    \<and> (\<forall>(runID, options, ctx) \<in> set (sy_starting s). runID = co_runID (sy_co s))
    \<and> (\<forall>(runID, run) \<in> set (sy_waiting s). runID = co_runID (sy_co s) \<and> co_run (sy_co s) = Some run)
    \<and> (length (sy_starting s) + length (sy_waiting s) = 1 \<longleftrightarrow>
         cs_Status (co_state (sy_co s)) \<in> {StatusStarting, StatusRunning, StatusStopping})"
proof -
  from reach_co_inv [OF assms] show ?thesis
  proof (cases rule: co_inv_cases)
    case idle
    then show ?thesis by (simp add: phase_idle_def active_def)
  next
    case starting
    then show ?thesis by (auto simp: phase_starting_def)
  next
    case running
    then show ?thesis by (auto simp: phase_running_def)
  qed
qed

text \<open>
  A small world for concrete executions: starting always succeeds with run 7, altering is
  accepted, the sample is empty and the run ends without an error.
\<close>

definition demo_api :: "(nat, unit) run_api" where
  "demo_api = \<lparr>api_Start = (\<lambda>ctx options w result w'. result = Inr 7), api_Alter = (\<lambda>run options w. (w, None)),
               api_Sample = (\<lambda>run w. zeroSample), api_Wait = (\<lambda>run w err. err = None)\<rparr>"

definition demo_options :: StartOptions where
  "demo_options = \<lparr>so_Scale = 10, so_Clients = 1, so_DurationSeconds = 60, so_WarmupSeconds = 10,
      so_Reset = False, so_Profile = ProfileRead, so_ReadPercent = None, so_TransactionMix = [],
      so_TargetTPS = None\<rparr>"

definition demo0 :: "(nat, unit) system" where
  "demo0 = \<lparr>sy_co = New True, sy_world = (), sy_starting = [], sy_waiting = [], sy_cancelled = {}, sy_next = 0\<rparr>"

definition demo1 :: "(nat, unit) system" where
  "demo1 = demo0\<lparr>sy_co := fst (Start_begin None demo_options 0 (sy_co demo0)),
     sy_starting := [(1, demo_options, 0)], sy_next := 1\<rparr>"

definition demo2 :: "(nat, unit) system" where
  "demo2 = demo1\<lparr>sy_co := fst (Start_continue 1 demo_options (Inr 7) 100 (sy_co demo1)),
     sy_starting := [], sy_waiting := [(1, 7)]\<rparr>"

lemma demo0_init: "sy_init demo0"
  by (auto simp: sy_init_def demo0_def)

lemma demo01: "co_step demo_api (\<lambda>_ _ _. False) demo0 (EvStart None demo_options) demo1"
proof -
  have "Start_begin None demo_options (sy_next demo0) (sy_co demo0) =
      (fst (Start_begin None demo_options 0 (sy_co demo0)), Inr 1)"
    by (simp add: Start_begin_def demo0_def New_def idleState_def Let_def)
  from start_begun [OF this, of demo_api "\<lambda>_ _ _. False"] show ?thesis
    by (simp add: demo1_def demo0_def)
qed

lemma demo12: "co_step demo_api (\<lambda>_ _ _. False) demo1 (EvStarted (Inr 7) 100) demo2"
proof -
  have c: "Start_continue 1 demo_options (Inr 7) 100 (sy_co demo1) =
      (fst (Start_continue 1 demo_options (Inr 7) 100 (sy_co demo1)),
       (co_state (fst (Start_continue 1 demo_options (Inr 7) 100 (sy_co demo1))), None), Some (1, 7))"
    by (simp add: Start_continue_def start_outcome_def Start_finish_def demo1_def demo0_def Start_begin_def New_def
        idleState_def Let_def)
  have "sy_starting demo1 = [] @ (1, demo_options, 0) # []" by (simp add: demo1_def)
  from started [OF this _ c, of demo_api "()" "\<lambda>_ _ _. False"] show ?thesis
    by (simp add: demo2_def demo_api_def demo1_def demo0_def)
qed

lemma demo1_reach: "reach sy_init (co_step demo_api (\<lambda>_ _ _. False)) demo1"
  by (rule reach_step [where s = demo0]) (auto intro: reach_init demo0_init demo01)

lemma demo2_reach: "reach sy_init (co_step demo_api (\<lambda>_ _ _. False)) demo2"
  by (rule reach_step [where s = demo1]) (auto intro: demo1_reach demo12)

lemma demo2_fields [simp]: "sy_starting demo2 = []" "sy_waiting demo2 = [(1, 7)]"
  "cs_Status (co_state (sy_co demo2)) = StatusRunning" "co_run (sy_co demo2) = Some 7"
  "co_runID (sy_co demo2) = 1" "co_cancel (sy_co demo2) = Some 0" "sy_cancelled demo2 = {}"
  "cs_Options (co_state (sy_co demo2)) = demo_options" "sy_world demo2 = ()"
  by (simp_all add: demo2_def demo1_def demo0_def Start_continue_def start_outcome_def Start_finish_def Start_begin_def
      New_def idleState_def Let_def cloneStartOptions_id)

theorem single_run_in_flight_witness:
  "length (sy_starting demo2) + length (sy_waiting demo2) \<le> 1 \<and> co_run (sy_co demo2) = Some 7"
  using single_run_in_flight [OF demo2_reach] by simp

text \<open>
  While a run is starting, running or stopping, another \<open>Start\<close> is refused with
  \<open>ErrRunActive\<close>, reports the current state and changes nothing; in every other state a
  \<open>Start\<close> whose own context is live is accepted, takes a new run id and resets the sample.
\<close>
theorem start_guard:
  "Start_begin None options ctx c =
     (if cs_Status (co_state c) \<in> {StatusStarting, StatusRunning, StatusStopping}
      then (c, Inl (co_state c, Some (Sentinel ErrRunActive)))
      else (c\<lparr>co_runID := co_runID c + 1, co_cancel := Some ctx, co_run := None,
              co_state := \<lparr>cs_Status = StatusStarting, cs_Options = options, cs_StartedAt = None,
                           cs_StoppedAt = None, cs_Error = []\<rparr>,
              co_sample := zeroSample\<rparr>, Inr (co_runID c + 1)))"
  by (simp add: Start_begin_def Let_def cloneStartOptions_id)

subsection \<open>Status transitions\<close>

text \<open>The edges of the status machine.\<close>

definition status_edge :: "Status \<Rightarrow> Status \<Rightarrow> bool" where
  "status_edge a b \<longleftrightarrow> (a, b) \<in>
     {(StatusIdle, StatusStarting), (StatusStopped, StatusStarting), (StatusFailed, StatusStarting),
      (StatusStarting, StatusRunning), (StatusStarting, StatusStopping), (StatusStarting, StatusFailed),
      (StatusRunning, StatusStopping), (StatusRunning, StatusStopped), (StatusRunning, StatusFailed),
      (StatusStopping, StatusStopped), (StatusStopping, StatusFailed)}"

abbreviation status_of :: "('r, 'w) system \<Rightarrow> Status" where
  "status_of s \<equiv> cs_Status (co_state (sy_co s))"

lemma status_start:
  assumes "co_step api env s (EvStart ctx_err options) t"
  shows "status_of t = status_of s \<or> \<not> active (status_of s) \<and> status_of t = StatusStarting"
  using assms
proof (cases rule: EvStartE)
  case (1 c r)
  then show ?thesis by (auto simp: Start_begin_def Let_def split: option.splits if_splits)
next
  case (2 c runID)
  then show ?thesis by (auto simp: Start_begin_def Let_def active_def split: option.splits if_splits)
qed

lemma started_effect:
  assumes "co_inv s" and "co_step api env s (EvStarted result now) t"
  shows "phase_starting s \<and>
    (case start_outcome (sy_co s) result of
       Inl err \<Rightarrow> (if status_of s = StatusStopping \<and> errors_Is err Canceled then status_of t = StatusStopped
                   else status_of t = StatusFailed)
     | Inr run \<Rightarrow> status_of t = (if status_of s = StatusStarting then StatusRunning else StatusStopping))"
  using assms(2)
proof (cases rule: EvStartedE)
  case (1 xs runID options ctx ys w c r spawned)
  with assms(1) have p: "phase_starting s" by (auto simp: co_inv_def phase_idle_def phase_running_def)
  then have s: "runID = co_runID (sy_co s)" "status_of s = StatusStarting \<or> status_of s = StatusStopping"
    using 1(2) by (auto simp: phase_starting_def)
  show ?thesis
  proof (cases "start_outcome (sy_co s) result")
    case (Inl err)
    with 1(4) s p show ?thesis unfolding 1(1)
      by (auto simp: Start_continue_def finishStartFailure_def Let_def split: if_splits)
  next
    case (Inr run)
    with 1(4) s p show ?thesis unfolding 1(1)
      by (auto simp: Start_continue_def Start_finish_def Let_def split: if_splits)
  qed
qed

lemma done_effect:
  assumes "co_inv s" and "co_step api env s (EvDone err now) t"
  shows "phase_running s \<and>
    status_of t = (if status_of s = StatusStopping \<or> err = None then StatusStopped else StatusFailed)"
  using assms(2)
proof (cases rule: EvDoneE)
  case (1 xs runID run ys)
  with assms(1) have p: "phase_running s" by (auto simp: co_inv_def phase_idle_def phase_starting_def)
  then have "runID = co_runID (sy_co s)" using 1(2) by (auto simp: phase_running_def)
  with p show ?thesis unfolding 1(1) by (auto simp: waitForRun_def Let_def split: option.splits)
qed

lemma alter_status:
  assumes "co_step api env s (EvAlter options) t"
  shows "status_of t = status_of s"
  using assms
proof (cases rule: EvAlterE)
  case (1 w c r)
  from 1(2) show ?thesis unfolding 1(1) by (cases rule: Alter_cases) simp_all
qed

lemma stop_status:
  assumes "co_step api env s EvStop t"
  shows "status_of t = (if status_of s \<in> {StatusStarting, StatusRunning} then StatusStopping else status_of s)"
  using assms
proof (cases rule: EvStopE)
  case (1 c r cancel)
  then show ?thesis by (auto simp: Stop_def Let_def split: Status.splits)
qed

lemma world_status: "co_step api env s EvWorld t \<Longrightarrow> status_of t = status_of s"
  by (auto elim: EvWorldE)

text \<open>
  C24. Every step of a reachable system leaves the status alone or follows one of the
  eleven edges of the status machine: idle, stopped or failed to starting; starting to
  running, stopping or failed; running to stopping, stopped or failed; stopping to stopped
  or failed.
\<close>
theorem status_transitions:
  assumes "reach sy_init (co_step api env) s" and "co_step api env s e t"
  shows "cs_Status (co_state (sy_co t)) = cs_Status (co_state (sy_co s))
    \<or> status_edge (cs_Status (co_state (sy_co s))) (cs_Status (co_state (sy_co t)))"
proof (cases e)
  case (EvStart ctx_err options)
  with status_start [of api env s ctx_err options t] assms(2) show ?thesis
    by (cases "status_of s") (auto simp: status_edge_def active_def)
next
  case (EvStarted result now)
  with started_effect [OF reach_co_inv [OF assms(1)], of api env result now t] assms(2) show ?thesis
    by (auto simp: phase_starting_def status_edge_def split: sum.splits if_splits)
next
  case (EvAlter options)
  with alter_status [of api env s options t] assms(2) show ?thesis by simp
next
  case EvStop
  with stop_status [of api env s t] assms(2) show ?thesis
    by (cases "status_of s") (simp_all add: status_edge_def)
next
  case (EvDone err now)
  with done_effect [OF reach_co_inv [OF assms(1)], of api env err now t] assms(2) show ?thesis
    by (auto simp: phase_running_def status_edge_def)
next
  case EvWorld
  with world_status [of api env s t] assms(2) show ?thesis by simp
qed

theorem status_transitions_witness:
  "cs_Status (co_state (sy_co demo2)) = StatusRunning \<and> status_edge StatusStarting StatusRunning"
  using status_transitions [OF demo1_reach demo12]
  by (auto simp: demo1_def demo0_def Start_begin_def New_def idleState_def Let_def)


subsection \<open>Stopping\<close>

text \<open>
  C20. A stop request takes effect: it cancels the context of the run in flight and no
  other, and from then on, as long as that run has not ended, every step of the system
  keeps the status stopping. When the run ends the status is stopped, without an error,
  whatever error \<open>Wait\<close> returned; when the start was still under way and fails, the status
  is stopped if the failure is the cancellation, and failed otherwise.
\<close>
theorem stop_takes_effect:
  assumes "reach sy_init (co_step api env) s"
    and "cs_Status (co_state (sy_co s)) = StatusStopping" and "co_step api env s e t"
  shows "(\<exists>ctx. co_cancel (sy_co s) = Some ctx \<and> ctx \<in> sy_cancelled s) \<and>
    (case e of
       EvDone err now \<Rightarrow> cs_Status (co_state (sy_co t)) = StatusStopped \<and> cs_Error (co_state (sy_co t)) = []
     | EvStarted result now \<Rightarrow>
         (case start_outcome (sy_co s) result of
            Inr run \<Rightarrow> cs_Status (co_state (sy_co t)) = StatusStopping
          | Inl err \<Rightarrow> cs_Status (co_state (sy_co t)) =
              (if errors_Is err Canceled then StatusStopped else StatusFailed))
     | _ \<Rightarrow> cs_Status (co_state (sy_co t)) = StatusStopping)"
proof -
  have inv: "co_inv s" using assms(1) by (rule reach_co_inv)
  have c: "\<exists>ctx. co_cancel (sy_co s) = Some ctx \<and> ctx \<in> sy_cancelled s"
    using inv assms(2) by (auto simp: co_inv_def phase_defs active_def)
  show ?thesis
  proof (cases e)
    case (EvStart ctx_err options)
    with status_start [of api env s ctx_err options t] assms(2,3) c show ?thesis by (auto simp: active_def)
  next
    case (EvStarted result now)
    with started_effect [OF inv, of api env result now t] assms(2,3) c show ?thesis
      by (simp split: sum.splits)
  next
    case (EvAlter options)
    with alter_status [of api env s options t] assms(2,3) c show ?thesis by simp
  next
    case EvStop
    with stop_status [of api env s t] assms(2,3) c show ?thesis by simp
  next
    case (EvDone err now)
    have "state_wf (co_state (sy_co t))" using co_inv_step [OF inv assms(3)] by (simp add: co_inv_def)
    with EvDone done_effect [OF inv, of api env err now t] assms(2,3) c show ?thesis
      by (auto simp: state_wf_def)
  next
    case EvWorld
    with world_status [of api env s t] assms(2,3) c show ?thesis by simp
  qed
qed

text \<open>The execution above continued: the run is stopped, then ends.\<close>

definition demo3 :: "(nat, unit) system" where
  "demo3 = demo2\<lparr>sy_co := fst (Stop (sy_co demo2)), sy_cancelled := {0}\<rparr>"

definition demo4 :: "(nat, unit) system" where
  "demo4 = demo3\<lparr>sy_co := waitForRun demo_api 1 7 None 200 () (sy_co demo3), sy_waiting := []\<rparr>"

lemma demo23: "co_step demo_api (\<lambda>_ _ _. False) demo2 EvStop demo3"
proof -
  have "Stop (sy_co demo2) = (fst (Stop (sy_co demo2)), (co_state (fst (Stop (sy_co demo2))), None), Some 0)"
    by (simp add: Stop_changes Let_def)
  from stopped [OF this, of demo_api "\<lambda>_ _ _. False"] show ?thesis by (simp add: demo3_def)
qed

lemma demo3_reach: "reach sy_init (co_step demo_api (\<lambda>_ _ _. False)) demo3"
  by (rule reach_step [where s = demo2]) (auto intro: demo2_reach demo23)

lemma demo3_status: "cs_Status (co_state (sy_co demo3)) = StatusStopping"
  by (simp add: demo3_def Stop_changes Let_def)

lemma demo34: "co_step demo_api (\<lambda>_ _ _. False) demo3 (EvDone None 200) demo4"
proof -
  have "sy_waiting demo3 = [] @ (1, 7) # []" by (simp add: demo3_def)
  from run_ended [OF this, of demo_api None "\<lambda>_ _ _. False" 200] show ?thesis
    by (simp add: demo4_def demo3_def demo_api_def)
qed

theorem stop_takes_effect_witness:
  "cs_Status (co_state (sy_co demo4)) = StatusStopped \<and> cs_Error (co_state (sy_co demo4)) = []"
  using stop_takes_effect [OF demo3_reach demo3_status demo34] by simp

text \<open>
  C23. A run never wedges the coordinator: as soon as the pending \<open>runner.Start\<close> or the
  pending \<open>Wait\<close> returns, the coordinator takes the step it was waiting for. After a
  \<open>Wait\<close> it is stopped or failed with no run, no cancel function and the final sample of
  the run kept for the results, and the next \<open>Start\<close> is accepted.
\<close>
theorem run_end_frees_coordinator:
  assumes "reach sy_init (co_step api env) s" and "sy_waiting s \<noteq> []"
    and "\<And>run. co_run (sy_co s) = Some run \<Longrightarrow> api_Wait api run (sy_world s) err"
  shows "\<exists>t run. co_step api env s (EvDone err now) t
    \<and> co_run (sy_co s) = Some run
    \<and> cs_Status (co_state (sy_co t)) \<in> {StatusStopped, StatusFailed}
    \<and> cs_StoppedAt (co_state (sy_co t)) = Some now
    \<and> co_run (sy_co t) = None \<and> co_cancel (sy_co t) = None
    \<and> co_sample (sy_co t) = api_Sample api run (sy_world s)
    \<and> sy_starting t = [] \<and> sy_waiting t = []
    \<and> (\<forall>options ctx. \<exists>c. Start_begin None options ctx (sy_co t) = (c, Inr (co_runID (sy_co s) + 1)))"
proof -
  have inv: "co_inv s" using assms(1) by (rule reach_co_inv)
  with assms(2) obtain run where run: "sy_waiting s = [(co_runID (sy_co s), run)]" "co_run (sy_co s) = Some run"
    "sy_starting s = []"
    by (auto simp: co_inv_def phase_defs)
  let ?c = "waitForRun api (co_runID (sy_co s)) run err now (sy_world s) (sy_co s)"
  let ?t = "s\<lparr>sy_co := ?c, sy_waiting := [] @ []\<rparr>"
  have "sy_waiting s = [] @ (co_runID (sy_co s), run) # []" using run(1) by simp
  from run_ended [OF this assms(3) [OF run(2)], of env now] have step: "co_step api env s (EvDone err now) ?t" .
  have st: "cs_Status (co_state ?c) \<in> {StatusStopped, StatusFailed}"
    using done_effect [OF inv step] by auto
  have "cs_StoppedAt (co_state ?c) = Some now" "co_run ?c = None" "co_cancel ?c = None"
    "co_sample ?c = api_Sample api run (sy_world s)" "co_runID ?c = co_runID (sy_co s)"
    by (auto simp: waitForRun_def Let_def timePtr_def split: option.splits)
  moreover from this st have "\<exists>c. Start_begin None options ctx ?c = (c, Inr (co_runID (sy_co s) + 1))"
    for options ctx by (auto simp: Start_begin_def Let_def)
  ultimately show ?thesis using step st run(2,3)
    by (intro exI [of _ ?t] exI [of _ run]) simp
qed

theorem run_end_frees_coordinator_witness:
  "\<exists>t run. co_step demo_api (\<lambda>_ _ _. False) demo2 (EvDone None 300) t
    \<and> cs_Status (co_state (sy_co t)) \<in> {StatusStopped, StatusFailed} \<and> co_run (sy_co t) = None"
  using run_end_frees_coordinator [OF demo2_reach, of None 300] by (auto simp: demo_api_def)


subsection \<open>The reported state\<close>

text \<open>
  Every state the API can report is well formed: it has a stop time exactly when it is
  stopped or failed, no start time before the run started and one while it is running; an
  error text appears only in a failed state and has at most 160 bytes.
\<close>
theorem reported_state_well_formed:
  assumes "reach sy_init (co_step api env) s"
  shows "let st = co_State (sy_co s) in
      (cs_StoppedAt st \<noteq> None \<longleftrightarrow> cs_Status st \<in> {StatusStopped, StatusFailed})
    \<and> (cs_Status st \<in> {StatusIdle, StatusStarting} \<longrightarrow> cs_StartedAt st = None)
    \<and> (cs_Status st = StatusRunning \<longrightarrow> cs_StartedAt st \<noteq> None)
    \<and> (cs_Error st \<noteq> [] \<longrightarrow> cs_Status st = StatusFailed)
    \<and> length (cs_Error st) \<le> 160"
proof -
  have "state_wf (co_state (sy_co s))" using reach_co_inv [OF assms] by (simp add: co_inv_def)
  then show ?thesis unfolding state_wf_def Let_def co_State_def cloneState_id by simp
qed

theorem reported_state_well_formed_witness:
  "cs_StartedAt (co_State (sy_co demo2)) \<noteq> None \<and> cs_StoppedAt (co_State (sy_co demo2)) = None"
proof -
  have "cs_Status (co_State (sy_co demo2)) = StatusRunning" by (simp add: co_State_def)
  then show ?thesis using reported_state_well_formed [OF demo2_reach] by (simp add: Let_def)
qed

text \<open>The options a state carries, when every start request carries valid ones.\<close>

definition options_ok :: "State \<Rightarrow> bool" where
  "options_ok st \<longleftrightarrow> cs_Status st = StatusIdle \<or> validateStartOptions (cs_Options st) = None"

definition carries_valid :: "'r event \<Rightarrow> bool" where
  "carries_valid e \<longleftrightarrow> (case e of EvStart ctx_err options \<Rightarrow> validateStartOptions options = None | _ \<Rightarrow> True)"

lemma options_ok_step:
  assumes inv: "co_inv s" and ok: "options_ok (co_state (sy_co s))" and e: "carries_valid e"
    and step: "co_step api env s e t"
  shows "options_ok (co_state (sy_co t))"
  using step
proof (cases rule: co_step.cases)
  case (start_rejected ctx_err options c r)
  then have "c = sy_co s" by (auto simp: Start_begin_def Let_def split: option.splits if_splits)
  with start_rejected ok show ?thesis by simp
next
  case (start_begun ctx_err options c runID)
  then have "cs_Options (co_state c) = options"
    by (auto simp: Start_begin_def Let_def cloneStartOptions_id split: option.splits if_splits)
  with start_begun e show ?thesis by (simp add: options_ok_def carries_valid_def)
next
  case (started xs runID options ctx ys result w now c r spawned)
  have p: "phase_starting s" using started_effect [OF inv] step started(1) by blast
  then have o: "cs_Options (co_state (sy_co s)) = options" "status_of s \<noteq> StatusIdle"
    using started(3) by (auto simp: phase_starting_def)
  have "cs_Options (co_state c) = options" using started(5) o(1)
    by (auto simp: Start_continue_def finishStartFailure_def Start_finish_def Let_def cloneStartOptions_id
        split: sum.splits if_splits)
  with started o ok show ?thesis by (simp add: options_ok_def)
next
  case (altered options w c r)
  from altered(3) show ?thesis
  proof (cases rule: Alter_cases)
    case keeps
    with altered ok show ?thesis by simp
  next
    case (changes run updated)
    have "validateStartOptions updated = None"
      using changes(3) unfolding ApplyAlter_Inr validateStartOptions_iff by (elim conjE)
    with altered changes(5) show ?thesis by (simp add: options_ok_def)
  qed
next
  case (stopped c r cancel)
  then have "cs_Options (co_state c) = cs_Options (co_state (sy_co s))"
    "cs_Status (co_state c) = StatusIdle \<longleftrightarrow> status_of s = StatusIdle"
    by (auto simp: Stop_def Let_def split: Status.splits)
  with stopped ok show ?thesis by (simp add: options_ok_def)
next
  case (run_ended xs runID run ys err now)
  have "phase_running s" using done_effect [OF inv] step run_ended(1) by blast
  then have "status_of s \<noteq> StatusIdle" by (auto simp: phase_running_def)
  moreover have "cs_Options (co_state (waitForRun api runID run err now (sy_world s) (sy_co s)))
      = cs_Options (co_state (sy_co s))"
    by (auto simp: waitForRun_def Let_def split: option.splits)
  ultimately show ?thesis using run_ended ok by (simp add: options_ok_def)
next
  case (world w)
  with ok show ?thesis by simp
qed

text \<open>
  As long as the start requests carry validated options, which is what
  \<open>DecodeStartOptions\<close> returns, the options of the current run stay valid through every
  alteration, stop and restart.
\<close>
theorem options_stay_valid:
  assumes "sy_init s0" and "steps (co_step api env) s0 es s" and "\<forall>e \<in> set es. carries_valid e"
  shows "cs_Status (co_state (sy_co s)) = StatusIdle
    \<or> validateStartOptions (cs_Options (co_state (sy_co s))) = None"
proof -
  have "options_ok (co_state (sy_co s0))"
    using assms(1) by (auto simp: sy_init_def New_def idleState_def options_ok_def)
  then have "options_ok (co_state (sy_co s))"
    by (rule coord.steps_rel [OF assms(2) co_inv_init [OF assms(1)]])
      (use assms(3) in \<open>auto intro: options_ok_step\<close>)
  then show ?thesis by (simp add: options_ok_def)
qed

lemma demo_options_valid: "validateStartOptions demo_options = None"
  by (simp add: validateStartOptions_def demo_options_def isValidProfile_def profile_defs)

theorem options_stay_valid_witness:
  "validateStartOptions (cs_Options (co_state (sy_co demo2))) = None"
proof -
  have "steps (co_step demo_api (\<lambda>_ _ _. False)) demo0 [EvStart None demo_options, EvStarted (Inr 7) 100] demo2"
    by (intro steps_Cons [where t = demo1] steps_Cons [where t = demo2] steps_Nil demo01 demo12)
  from options_stay_valid [OF demo0_init this] show ?thesis
    by (auto simp: carries_valid_def demo_options_valid)
qed

subsection \<open>The views\<close>

text \<open>
  C30. The two views agree with the state: the metrics say active exactly while a goroutine
  of a run is in flight; the results and the metrics report the same totals, rate and
  clients, those of the live run while there is one and of the kept final sample after;
  and the results drop the latest error only when a cleanly stopped run ended on its own
  cancellation.
\<close>
theorem views_agree:
  assumes "reach sy_init (co_step api env) s"
  shows "let r = co_Results api (sy_world s) (sy_co s); m = co_Metrics api (sy_world s) (sy_co s);
             x = (case co_run (sy_co s) of Some run \<Rightarrow> api_Sample api run (sy_world s) | None \<Rightarrow> co_sample (sy_co s))
         in (ms_RunActive m \<longleftrightarrow> sy_starting s \<noteq> [] \<or> sy_waiting s \<noteq> [])
          \<and> re_Status r = cs_Status (co_State (sy_co s))
          \<and> st_TotalOperations (re_Stats r) = sa_TotalOperations x \<and> ms_OperationsTotal m = sa_TotalOperations x
          \<and> st_TPS (re_Stats r) = ms_TPS m \<and> st_FailedOperations (re_Stats r) = ms_OperationErrorsTotal m
          \<and> st_ActiveClients (re_Stats r) = ms_ActiveClients m
          \<and> st_ElapsedSeconds (re_Stats r) = ms_RunDurationSeconds m
          \<and> st_LatestError (re_Stats r) =
              (if re_Status r = StatusStopped \<and> compactErrorText (sa_LatestError x) = ''context canceled''
               then [] else sa_LatestError x)"
proof -
  have inv: "co_inv s" using assms by (rule reach_co_inv)
  have act: "ms_RunActive (co_Metrics api (sy_world s) (sy_co s)) \<longleftrightarrow> sy_starting s \<noteq> [] \<or> sy_waiting s \<noteq> []"
    using inv by (cases rule: co_inv_cases)
      (auto simp: co_Metrics_def Sample_Metrics_def phase_idle_def active_def phase_starting_def phase_running_def)
  have "cs_Error (co_state (sy_co s)) = []" if "status_of s = StatusStopped"
    using inv that by (auto simp: co_inv_def state_wf_def)
  with act show ?thesis
    by (simp add: Let_def co_Results_def co_Metrics_def stateToResults_def normalizeResultsSample_def
        Sample_Stats_def Sample_Metrics_def currentSample_def co_State_def)
qed

theorem views_agree_witness:
  "ms_RunActive (co_Metrics demo_api () (sy_co demo2))"
  using views_agree [OF demo2_reach] by (simp add: Let_def)


section \<open>The contract of a run\<close>

text \<open>
  What the coordinator relies on of a run for the number of its clients: a new run has the
  clients it was started with, a successful \<open>Alter\<close> sets them, a refused one leaves them,
  and the run does not change them by itself.
\<close>

locale run_contract =
  fixes api :: "('r, 'w) run_api"
    and env :: "nat set \<Rightarrow> 'w \<Rightarrow> 'w \<Rightarrow> bool"
    and clients :: "'r \<Rightarrow> 'w \<Rightarrow> int"
  assumes clients_start: "api_Start api ctx options w (Inr run) w' \<Longrightarrow> clients run w' = so_Clients options"
    and clients_alter: "api_Alter api run a w = (w', None) \<Longrightarrow>
      clients run w' = (case ao_Clients a of None \<Rightarrow> clients run w | Some n \<Rightarrow> n)"
    and clients_refused: "api_Alter api run a w = (w', Some e) \<Longrightarrow> clients run w' = clients run w"
    and clients_env: "env cancelled w w' \<Longrightarrow> clients run w' = clients run w"
begin

definition in_step :: "('r, 'w) system \<Rightarrow> bool" where
  "in_step s \<longleftrightarrow> (\<forall>run. co_run (sy_co s) = Some run \<longrightarrow>
     clients run (sy_world s) = so_Clients (cs_Options (co_state (sy_co s))))"

lemma alter_in_step:
  assumes "in_step s" and "Alter api a (sy_world s) (sy_co s) = (w, c, r)"
  shows "in_step (s\<lparr>sy_co := c, sy_world := w\<rparr>)"
  using assms(2)
proof (cases rule: Alter_cases)
  case keeps
  show ?thesis
  proof (cases "\<exists>run. co_run (sy_co s) = Some run \<and> cs_Status (co_state (sy_co s)) = StatusRunning")
    case False
    then have "w = sy_world s" using assms(2) by (cases "co_run (sy_co s)") (auto simp: Alter_def split: bool.splits)
    with keeps assms(1) show ?thesis by (simp add: in_step_def)
  next
    case True
    then obtain run where run: "co_run (sy_co s) = Some run" "cs_Status (co_state (sy_co s)) = StatusRunning" by blast
    have "w = sy_world s \<or> (\<exists>e. api_Alter api run a (sy_world s) = (w, Some e))"
      using assms(2) run keeps(2)
      by (auto simp: Alter_def Let_def split: sum.splits prod.splits option.splits)
    with assms(1) keeps(1) run clients_refused show ?thesis by (auto simp: in_step_def)
  qed
next
  case (changes run updated)
  have "so_Clients updated = (case ao_Clients a of None \<Rightarrow> so_Clients (cs_Options (co_state (sy_co s))) | Some n \<Rightarrow> n)"
    using changes(3) by (auto simp: ApplyAlter_Inr altered_def split: option.splits)
  with changes clients_alter [OF changes(4)] assms(1) show ?thesis
    by (auto simp: in_step_def split: option.splits)
qed

lemma step_in_step:
  assumes inv: "co_inv s" and ok: "in_step s" and step: "co_step api env s e t"
  shows "in_step t"
  using step
proof (cases rule: co_step.cases)
  case (start_rejected ctx_err options c r)
  then have "c = sy_co s" by (auto simp: Start_begin_def Let_def split: option.splits if_splits)
  with start_rejected ok show ?thesis by (simp add: in_step_def)
next
  case (start_begun ctx_err options c runID)
  then have "co_run c = None" by (auto simp: Start_begin_def Let_def split: option.splits if_splits)
  with start_begun show ?thesis by (simp add: in_step_def)
next
  case (started xs runID options ctx ys result w now c r spawned)
  have "phase_starting s" using started_effect [OF inv] step started(1) by blast
  then have id: "runID = co_runID (sy_co s)" "cs_Options (co_state (sy_co s)) = options"
    using started(3) by (auto simp: phase_starting_def)
  show ?thesis
  proof (cases "start_outcome (sy_co s) result")
    case (Inl err)
    then have "co_run c = None" using started(5) id
      by (auto simp: Start_continue_def finishStartFailure_def Let_def split: if_splits)
    with started show ?thesis by (simp add: in_step_def)
  next
    case (Inr run)
    then have r: "co_runner (sy_co s)" "result = Inr run" by (auto simp: start_outcome_def split: if_splits)
    have c: "co_run c = Some run" "cs_Options (co_state c) = options"
      using started(5) id Inr by (auto simp: Start_continue_def Start_finish_def Let_def split: if_splits)
    have "clients run w = so_Clients options"
      using started(4) r clients_start [of ctx options "sy_world s" run w] by simp
    with started(2) c show ?thesis by (simp add: in_step_def)
  qed
next
  case (altered options w c r)
  with alter_in_step [OF ok] show ?thesis by simp
next
  case (stopped c r cancel)
  then have "co_run c = co_run (sy_co s)" "cs_Options (co_state c) = cs_Options (co_state (sy_co s))"
    by (auto simp: Stop_def Let_def split: Status.splits)
  with stopped ok show ?thesis by (simp add: in_step_def)
next
  case (run_ended xs runID run ys err now)
  have "phase_running s" using done_effect [OF inv] step run_ended(1) by blast
  then have "runID = co_runID (sy_co s)" using run_ended(3) by (auto simp: phase_running_def)
  then have "co_run (waitForRun api runID run err now (sy_world s) (sy_co s)) = None"
    by (auto simp: waitForRun_def Let_def split: option.splits)
  with run_ended show ?thesis by (simp add: in_step_def)
next
  case (world w)
  with ok clients_env show ?thesis by (auto simp: in_step_def)
qed

lemma reach_in_step: "reach sy_init (co_step api env) s \<Longrightarrow> in_step s"
proof (induction rule: reach.induct)
  case (reach_init s)
  then show ?case by (auto simp: sy_init_def New_def in_step_def)
next
  case (reach_step s e s')
  then show ?case using step_in_step [OF reach_co_inv] by blast
qed

end


text \<open>
  What it relies on of the runs as a whole: a property of their world that a start with
  acceptable options, an alteration and the runs themselves keep.
\<close>

locale world_contract =
  fixes api :: "('r, 'w) run_api"
    and env :: "nat set \<Rightarrow> 'w \<Rightarrow> 'w \<Rightarrow> bool"
    and acceptable :: "StartOptions \<Rightarrow> bool"
    and good :: "'w \<Rightarrow> bool"
  assumes good_start: "acceptable options \<Longrightarrow> good w \<Longrightarrow> api_Start api ctx options w result w' \<Longrightarrow> good w'"
    and good_alter: "good w \<Longrightarrow> good (fst (api_Alter api run a w))"
    and good_env: "good w \<Longrightarrow> env cancelled w w' \<Longrightarrow> good w'"
begin

definition requests_ok :: "'r event list \<Rightarrow> bool" where
  "requests_ok es \<longleftrightarrow> (\<forall>ctx_err options. EvStart ctx_err options \<in> set es \<longrightarrow> acceptable options)"

definition good_system :: "('r, 'w) system \<Rightarrow> bool" where
  "good_system s \<longleftrightarrow> good (sy_world s) \<and> (\<forall>(runID, options, ctx) \<in> set (sy_starting s). acceptable options)"

lemma good_step:
  assumes ok: "good_system s" and req: "requests_ok [e]" and step: "co_step api env s e t"
  shows "good_system t"
  using step
proof (cases rule: co_step.cases)
  case (started xs runID options ctx ys result w now c r spawned)
  have "acceptable options" using ok started(3) by (auto simp: good_system_def)
  then have "good w" using started(4) ok good_start [of options "sy_world s" ctx result w]
    by (auto simp: good_system_def split: if_splits)
  with started ok show ?thesis by (auto simp: good_system_def)
next
  case (altered options w c r)
  have "w = sy_world s \<or> (\<exists>run. w = fst (api_Alter api run options (sy_world s)))"
    using altered(3) by (cases "co_run (sy_co s)")
      (auto simp: Alter_def Let_def split: bool.splits sum.splits prod.splits option.splits, metis fst_conv, metis fst_conv)
  with altered ok good_alter show ?thesis by (auto simp: good_system_def)
next
  case (start_begun ctx_err options c runID)
  with req ok show ?thesis by (auto simp: good_system_def requests_ok_def)
next
  case (world w)
  with ok good_env show ?thesis by (auto simp: good_system_def)
qed (use ok in \<open>auto simp: good_system_def\<close>)

lemma good_steps:
  assumes "steps (co_step api env) s es t" and "requests_ok es" and "good_system s"
  shows "good_system t"
  using assms
proof (induction rule: steps.induct)
  case (steps_Cons s e t es u)
  have "requests_ok [e]" "requests_ok es" using steps_Cons.prems(1) by (auto simp: requests_ok_def)
  with steps_Cons good_step show ?case by blast
qed simp

end

end
