(* ===== verification/Run_Stats.thy ===== *)
theory Run_Stats
  imports Samples Go_Errors
begin

text \<open>
  The measurement state of a run, \<open>runStats\<close> of \<open>internal/benchrunner/stats.go\<close>, and the
  operation kinds of \<open>workload.go\<close>. Every method takes the mutex for its whole body, so
  each is one atomic function on the state. \<open>stats_rep\<close> relates the state to the list of
  the operations counted after the warm-up; the counters, the histogram and the sample
  are functions of that list.
\<close>

section \<open>Operation kinds\<close>

definition operationKindPointRead :: int where "operationKindPointRead = 0"
definition operationKindRangeRead :: int where "operationKindRangeRead = 1"
definition operationKindHistoryInsert :: int where "operationKindHistoryInsert = 2"
definition operationKindAccountUpdate :: int where "operationKindAccountUpdate = 3"
definition operationKindTransaction :: int where "operationKindTransaction = 4"
definition operationKindJoin :: int where "operationKindJoin = 5"
definition operationKindAggregation :: int where "operationKindAggregation = 6"
definition operationKindLockContention :: int where "operationKindLockContention = 7"
definition operationKindHotUpdate :: int where "operationKindHotUpdate = 8"
definition operationKindCount :: int where "operationKindCount = 9"

lemmas kind_defs = operationKindPointRead_def operationKindRangeRead_def
  operationKindHistoryInsert_def operationKindAccountUpdate_def operationKindTransaction_def
  operationKindJoin_def operationKindAggregation_def operationKindLockContention_def
  operationKindHotUpdate_def operationKindCount_def

lemma kind_range [simp]:
  "0 \<le> operationKindPointRead" "operationKindPointRead < operationKindCount"
  "0 \<le> operationKindRangeRead" "operationKindRangeRead < operationKindCount"
  "0 \<le> operationKindHistoryInsert" "operationKindHistoryInsert < operationKindCount"
  "0 \<le> operationKindAccountUpdate" "operationKindAccountUpdate < operationKindCount"
  "0 \<le> operationKindTransaction" "operationKindTransaction < operationKindCount"
  "0 \<le> operationKindJoin" "operationKindJoin < operationKindCount"
  "0 \<le> operationKindAggregation" "operationKindAggregation < operationKindCount"
  "0 \<le> operationKindLockContention" "operationKindLockContention < operationKindCount"
  "0 \<le> operationKindHotUpdate" "operationKindHotUpdate < operationKindCount"
  by (simp_all add: kind_defs)

section \<open>runStats\<close>

record runStats =
  rs_runStartedAt :: gotime
  rs_measurementStartedAt :: gotime
  rs_finishedAt :: "gotime option"
  rs_activeClients :: int
  rs_configuredClients :: int
  rs_totalOperations :: u64
  rs_successfulOperations :: u64
  rs_failedOperations :: u64
  rs_perKind :: "u64 list"
  rs_latency :: latencyHistogram
  rs_latestError :: string

definition newRunStats :: "gotime \<Rightarrow> duration \<Rightarrow> int \<Rightarrow> runStats" where
  "newRunStats startedAt warmup configuredClients =
     \<lparr>rs_runStartedAt = startedAt, rs_measurementStartedAt = startedAt + warmup,
      rs_finishedAt = None, rs_activeClients = 0, rs_configuredClients = configuredClients,
      rs_totalOperations = 0, rs_successfulOperations = 0, rs_failedOperations = 0,
      rs_perKind = replicate (nat operationKindCount) 0, rs_latency = newLatencyHistogram,
      rs_latestError = []\<rparr>"

definition setConfiguredClients :: "runStats \<Rightarrow> int \<Rightarrow> runStats" where
  "setConfiguredClients s configuredClients = s\<lparr>rs_configuredClients := configuredClients\<rparr>"

definition workerStarted :: "runStats \<Rightarrow> runStats" where
  "workerStarted s = s\<lparr>rs_activeClients := wrap64 (rs_activeClients s + 1)\<rparr>"

definition stats_workerStopped :: "runStats \<Rightarrow> runStats" where
  "stats_workerStopped s =
     (if rs_activeClients s > 0 then s\<lparr>rs_activeClients := rs_activeClients s - 1\<rparr> else s)"

definition stats_record :: "runStats \<Rightarrow> int \<Rightarrow> duration \<Rightarrow> gotime \<Rightarrow> goerror option \<Rightarrow> runStats" where
  "stats_record s kind latency completedAt err =
     (let s = (case err of None \<Rightarrow> s
               | Some e \<Rightarrow> s\<lparr>rs_latestError := compactErrorText_stats (error_text e)\<rparr>)
      in if completedAt < rs_measurementStartedAt s then s
         else
           (let s = s\<lparr>rs_totalOperations := rs_totalOperations s + 1\<rparr>;
                s = (if err = None then s\<lparr>rs_successfulOperations := rs_successfulOperations s + 1\<rparr>
                     else s\<lparr>rs_failedOperations := rs_failedOperations s + 1\<rparr>);
                s = (if kind \<ge> 0 \<and> kind < operationKindCount
                     then s\<lparr>rs_perKind := (rs_perKind s)[nat kind := rs_perKind s ! nat kind + 1]\<rparr>
                     else s)
            in s\<lparr>rs_latency := hist_record (rs_latency s) latency\<rparr>))"

definition stats_finish :: "runStats \<Rightarrow> gotime \<Rightarrow> goerror option \<Rightarrow> runStats" where
  "stats_finish s finishedAt err =
     (let s = (if rs_finishedAt s = None then s\<lparr>rs_finishedAt := Some finishedAt\<rparr> else s)
      in case err of None \<Rightarrow> s
         | Some e \<Rightarrow> s\<lparr>rs_latestError := compactErrorText_stats (error_text e)\<rparr>)"

definition durationMilliseconds :: "duration \<Rightarrow> float64" where
  "durationMilliseconds d = fl (duration_to_float d / duration_to_float millisecond)"

definition averageMilliseconds :: "duration \<Rightarrow> u64 \<Rightarrow> float64" where
  "averageMilliseconds lsum count =
     (if count = 0 then 0
      else fl (fl (duration_to_float lsum / u64_to_float count) / duration_to_float millisecond))"

text \<open>The zero \<open>time.Time\<close>, the first of January of year 1, in nanoseconds from 1970.\<close>

definition zero_time :: gotime where
  "zero_time = - 62135596800 * 1000000000"

definition elapsedSecondsAt :: "runStats \<Rightarrow> gotime \<Rightarrow> float64" where
  "elapsedSecondsAt s now =
     (let endAt = (case rs_finishedAt s of None \<Rightarrow> now | Some t \<Rightarrow> t);
          elapsedSeconds = (if endAt > rs_measurementStartedAt s
                            then duration_Seconds (time_sub endAt (rs_measurementStartedAt s)) else 0)
      in if rs_finishedAt s = None \<and> rs_runStartedAt s \<noteq> zero_time \<and> now < rs_measurementStartedAt s
         then 0 else elapsedSeconds)"

definition sampleLocked :: "runStats \<Rightarrow> gotime \<Rightarrow> Sample" where
  "sampleLocked s now =
     \<lparr>sa_Latency =
        \<lparr>la_MinMilliseconds = durationMilliseconds (lh_min (rs_latency s)),
         la_MaxMilliseconds = durationMilliseconds (lh_max (rs_latency s)),
         la_AverageMilliseconds = averageMilliseconds (lh_sum (rs_latency s)) (lh_total (rs_latency s)),
         la_P50Milliseconds = durationMilliseconds (quantile (rs_latency s) (fl (50/100))),
         la_P90Milliseconds = durationMilliseconds (quantile (rs_latency s) (fl (90/100))),
         la_P95Milliseconds = durationMilliseconds (quantile (rs_latency s) (fl (95/100))),
         la_P99Milliseconds = durationMilliseconds (quantile (rs_latency s) (fl (99/100))),
         la_Buckets = hs_Buckets (metricsSnapshot (rs_latency s)),
         la_Count = lh_total (rs_latency s),
         la_SumSeconds = duration_Seconds (lh_sum (rs_latency s))\<rparr>,
      sa_ElapsedSeconds = elapsedSecondsAt s now,
      sa_TotalOperations = rs_totalOperations s,
      sa_SuccessfulOperations = rs_successfulOperations s,
      sa_FailedOperations = rs_failedOperations s,
      sa_ActiveClients = rs_activeClients s,
      sa_ConfiguredClients = rs_configuredClients s,
      sa_OperationCounts =
        \<lparr>oc_PointRead = rs_perKind s ! nat operationKindPointRead,
         oc_RangeRead = rs_perKind s ! nat operationKindRangeRead,
         oc_HistoryInsert = rs_perKind s ! nat operationKindHistoryInsert,
         oc_AccountUpdate = rs_perKind s ! nat operationKindAccountUpdate,
         oc_Transaction = rs_perKind s ! nat operationKindTransaction,
         oc_Join = rs_perKind s ! nat operationKindJoin,
         oc_Aggregation = rs_perKind s ! nat operationKindAggregation,
         oc_LockContention = rs_perKind s ! nat operationKindLockContention,
         oc_HotUpdate = rs_perKind s ! nat operationKindHotUpdate\<rparr>,
      sa_LatestError = rs_latestError s\<rparr>"

definition stats_sample :: "runStats \<Rightarrow> gotime \<Rightarrow> Sample" where
  "stats_sample s now = sampleLocked s now"

section \<open>The state counts the measured operations\<close>

text \<open>
  A measured operation: its kind, its latency and whether it failed. \<open>stats_rep m ops s\<close>:
  the measurement starts at \<open>m\<close>, and \<open>ops\<close> are the operations counted so far.
\<close>

type_synonym measured = "int \<times> duration \<times> bool"

definition op_kind :: "measured \<Rightarrow> int" where "op_kind m = fst m"
definition op_latency :: "measured \<Rightarrow> duration" where "op_latency m = fst (snd m)"
definition op_failed :: "measured \<Rightarrow> bool" where "op_failed m = snd (snd m)"

lemma op_sel [simp]: "op_kind (k, l, f) = k" "op_latency (k, l, f) = l" "op_failed (k, l, f) = f"
  by (simp_all add: op_kind_def op_latency_def op_failed_def)

definition stats_rep :: "gotime \<Rightarrow> measured list \<Rightarrow> runStats \<Rightarrow> bool" where
  "stats_rep m ops s \<longleftrightarrow>
     rs_measurementStartedAt s = m
   \<and> rs_totalOperations s = of_nat (length ops)
   \<and> rs_successfulOperations s = of_nat (length (filter (\<lambda>x. \<not> op_failed x) ops))
   \<and> rs_failedOperations s = of_nat (length (filter op_failed ops))
   \<and> rs_perKind s = map (\<lambda>k. of_nat (length (filter (\<lambda>x. op_kind x = int k) ops))) [0..<nat operationKindCount]
   \<and> hist_rep (rs_latency s) (map (clamp0 \<circ> op_latency) ops)"

lemma stats_rep_new [run_inv]: "stats_rep (t + w) [] (newRunStats t w c)"
  by (simp add: stats_rep_def newRunStats_def hist_rep_new map_replicate_const)

lemma stats_rep_others [run_inv]:
  "stats_rep m ops (setConfiguredClients s c) = stats_rep m ops s"
  "stats_rep m ops (workerStarted s) = stats_rep m ops s"
  "stats_rep m ops (stats_workerStopped s) = stats_rep m ops s"
  "stats_rep m ops (stats_finish s t err) = stats_rep m ops s"
  by (auto simp: stats_rep_def setConfiguredClients_def workerStarted_def stats_workerStopped_def
      stats_finish_def Let_def split: option.splits)

text \<open>What a record does to the fields, in the two cases of the warm-up test.\<close>

lemma stats_record_warmup:
  "t < rs_measurementStartedAt s \<Longrightarrow> stats_rep m ops (stats_record s k l t err) = stats_rep m ops s"
  by (auto simp: stats_record_def stats_rep_def Let_def split: option.splits)

lemma stats_record_fields:
  assumes "\<not> t < rs_measurementStartedAt s"
  shows "rs_measurementStartedAt (stats_record s k l t err) = rs_measurementStartedAt s"
    and "rs_totalOperations (stats_record s k l t err) = rs_totalOperations s + 1"
    and "rs_successfulOperations (stats_record s k l t err) =
           rs_successfulOperations s + (if err = None then 1 else 0)"
    and "rs_failedOperations (stats_record s k l t err) = rs_failedOperations s + (if err = None then 0 else 1)"
    and "rs_perKind (stats_record s k l t err) =
           (if 0 \<le> k \<and> k < operationKindCount
            then (rs_perKind s)[nat k := rs_perKind s ! nat k + 1] else rs_perKind s)"
    and "rs_latency (stats_record s k l t err) = hist_record (rs_latency s) l"
  using assms by (auto simp: stats_record_def Let_def split: option.splits)

lemma stats_rep_record [run_inv]:
  assumes "stats_rep m ops s" and "length ops + 1 < 2 ^ 64"
  shows "stats_rep m (if t < m then ops else ops @ [(k, l, err \<noteq> None)]) (stats_record s k l t err)"
proof (cases "t < m")
  case True
  with assms stats_record_warmup [of t s] show ?thesis by (simp add: stats_rep_def)
next
  case False
  with assms(1) have t: "\<not> t < rs_measurementStartedAt s" by (simp add: stats_rep_def)
  let ?ops = "ops @ [(k, l, err \<noteq> None)]"
  have "rs_perKind (stats_record s k l t err) =
      map (\<lambda>j. of_nat (length (filter (\<lambda>x. op_kind x = int j) ?ops))) [0..<nat operationKindCount]"
    using assms(1) by (intro nth_equalityI)
      (auto simp: stats_record_fields [OF t] stats_rep_def nth_list_update operationKindCount_def)
  moreover have "hist_rep (hist_record (rs_latency s) l) (map (clamp0 \<circ> op_latency) ?ops)"
    using hist_record_rep [of "rs_latency s" "map (clamp0 \<circ> op_latency) ops" l] assms
    by (simp add: stats_rep_def)
  ultimately show ?thesis
    using assms(1) False by (simp add: stats_rep_def stats_record_fields [OF t])
qed


section \<open>A run of the methods\<close>

text \<open>
  The calls a run makes, in the order in which they take the mutex, and the operations
  among them that complete after the warm-up.
\<close>

datatype stats_call =
    CallSetConfiguredClients int
  | CallWorkerStarted
  | CallWorkerStopped
  | CallRecord int duration gotime "goerror option"
  | CallFinish gotime "goerror option"

fun apply_call :: "runStats \<Rightarrow> stats_call \<Rightarrow> runStats" where
  "apply_call s (CallSetConfiguredClients c) = setConfiguredClients s c"
| "apply_call s CallWorkerStarted = workerStarted s"
| "apply_call s CallWorkerStopped = stats_workerStopped s"
| "apply_call s (CallRecord k l t err) = stats_record s k l t err"
| "apply_call s (CallFinish t err) = stats_finish s t err"

definition stats_after :: "gotime \<Rightarrow> duration \<Rightarrow> int \<Rightarrow> stats_call list \<Rightarrow> runStats" where
  "stats_after startedAt warmup clients calls = foldl apply_call (newRunStats startedAt warmup clients) calls"

fun measured_in :: "gotime \<Rightarrow> stats_call list \<Rightarrow> measured list" where
  "measured_in m [] = []"
| "measured_in m (CallRecord k l t err # cs) =
     (if t < m then [] else [(k, l, err \<noteq> None)]) @ measured_in m cs"
| "measured_in m (_ # cs) = measured_in m cs"

lemma measured_in_append: "measured_in m (cs @ ds) = measured_in m cs @ measured_in m ds"
  by (induction m cs rule: measured_in.induct) auto

lemma measured_in_length: "length (measured_in m cs) \<le> length cs"
  by (induction m cs rule: measured_in.induct) auto

lemma stats_rep_after:
  "length calls < 2 ^ 64 \<Longrightarrow>
   stats_rep (startedAt + warmup) (measured_in (startedAt + warmup) calls) (stats_after startedAt warmup clients calls)"
proof (induction calls rule: rev_induct)
  case Nil
  then show ?case by (simp add: stats_after_def stats_rep_new)
next
  case (snoc c cs)
  let ?m = "startedAt + warmup" and ?s = "stats_after startedAt warmup clients cs"
  have rep: "stats_rep ?m (measured_in ?m cs) ?s" using snoc by simp
  have len: "length (measured_in ?m cs) + 1 < 2 ^ 64"
    using measured_in_length [of ?m cs] snoc.prems by simp
  have "stats_after startedAt warmup clients (cs @ [c]) = apply_call ?s c" by (simp add: stats_after_def)
  moreover have "stats_rep ?m (measured_in ?m (cs @ [c])) (apply_call ?s c)"
  proof (cases c)
    case (CallRecord k l t err)
    then show ?thesis using stats_rep_record [OF rep len, of t k l err]
      by (cases "t < ?m") (simp_all add: measured_in_append del: not_None_eq)
  qed (use rep in \<open>simp_all add: measured_in_append stats_rep_others\<close>)
  ultimately show ?case by simp
qed

lemma filter_split_length: "length (filter P xs) + length (filter (\<lambda>x. \<not> P x) xs) = length xs"
  by (induction xs) auto

lemma unat_count: "length xs < 2 ^ 64 \<Longrightarrow> unat (of_nat (length (filter P xs)) :: u64) = length (filter P xs)"
  by (rule unat_of_nat_u64) (meson length_filter_le le_less_trans)

section \<open>What a sample reports\<close>

definition count_kind :: "int \<Rightarrow> measured list \<Rightarrow> nat" where
  "count_kind k ops = length (filter (\<lambda>x. op_kind x = k) ops)"

lemma count_kinds_sum:
  "(\<forall>x \<in> set ops. 0 \<le> op_kind x \<and> op_kind x < operationKindCount) \<Longrightarrow>
   (\<Sum>k = 0..<9. count_kind (int k) ops) = length ops"
proof (induction ops)
  case (Cons x ops)
  have "(\<Sum>k = 0..<9. count_kind (int k) (x # ops)) =
      (\<Sum>k = 0..<9. (if k = nat (op_kind x) then 1 else 0)) + (\<Sum>k = 0..<9. count_kind (int k) ops)"
    unfolding sum.distrib [symmetric] using Cons.prems by (intro sum.cong) (auto simp: count_kind_def)
  also have "(\<Sum>k = 0..<9. (if k = nat (op_kind x) then 1 else 0)) = (1 :: nat)"
    using Cons.prems by (auto simp: operationKindCount_def nat_less_iff)
  finally show ?case using Cons by simp
qed (simp add: count_kind_def)

lemma stats_rep_kind:
  assumes "stats_rep m ops s" and "length ops < 2 ^ 64" and "0 \<le> k" and "k < operationKindCount"
  shows "unat (rs_perKind s ! nat k) = count_kind k ops"
proof -
  have "nat k < nat operationKindCount" using assms(3,4) by simp
  then have "rs_perKind s ! nat k = of_nat (count_kind k ops)"
    using assms(1,3) by (simp add: stats_rep_def count_kind_def del: upt_Suc)
  then show ?thesis using unat_count [OF assms(2)] by (simp only: count_kind_def)
qed

text \<open>
  C6. Whatever the calls on the statistics and their order, a sample counts exactly the
  operations that completed after the warm-up: all of them, those without and those with
  an error, and those of each kind; and the latency histogram holds one entry for each.
\<close>
theorem sample_counts_measured:
  assumes "length calls < 2 ^ 64"
  shows "let ops = measured_in (startedAt + warmup) calls;
             x = stats_sample (stats_after startedAt warmup clients calls) now;
             c = sa_OperationCounts x
         in unat (sa_TotalOperations x) = length ops
          \<and> unat (sa_SuccessfulOperations x) = length (filter (\<lambda>r. \<not> op_failed r) ops)
          \<and> unat (sa_FailedOperations x) = length (filter op_failed ops)
          \<and> unat (la_Count (sa_Latency x)) = length ops
          \<and> unat (oc_PointRead c) = count_kind operationKindPointRead ops
          \<and> unat (oc_RangeRead c) = count_kind operationKindRangeRead ops
          \<and> unat (oc_HistoryInsert c) = count_kind operationKindHistoryInsert ops
          \<and> unat (oc_AccountUpdate c) = count_kind operationKindAccountUpdate ops
          \<and> unat (oc_Transaction c) = count_kind operationKindTransaction ops
          \<and> unat (oc_Join c) = count_kind operationKindJoin ops
          \<and> unat (oc_Aggregation c) = count_kind operationKindAggregation ops
          \<and> unat (oc_LockContention c) = count_kind operationKindLockContention ops
          \<and> unat (oc_HotUpdate c) = count_kind operationKindHotUpdate ops"
proof -
  let ?ops = "measured_in (startedAt + warmup) calls" and ?s = "stats_after startedAt warmup clients calls"
  have rep: "stats_rep (startedAt + warmup) ?ops ?s" using assms by (rule stats_rep_after)
  have len: "length ?ops < 2 ^ 64"
    using measured_in_length [of "startedAt + warmup" calls] assms by linarith
  have "unat (rs_totalOperations ?s) = length ?ops" "unat (lh_total (rs_latency ?s)) = length ?ops"
    using rep unat_of_nat_u64 [OF len] by (simp_all only: stats_rep_def hist_rep_def length_map)
  moreover have "unat (rs_successfulOperations ?s) = length (filter (\<lambda>r. \<not> op_failed r) ?ops)"
    "unat (rs_failedOperations ?s) = length (filter op_failed ?ops)"
    using rep unat_count [OF len] by (simp_all only: stats_rep_def)
  ultimately show ?thesis
    by (simp add: Let_def stats_sample_def sampleLocked_def stats_rep_kind [OF rep len])
qed

theorem sample_counts_measured_witness:
  "let x = stats_sample (stats_after 0 10 1 [CallWorkerStarted, CallRecord 4 7 5 None, CallRecord 4 7 15 None,
             CallRecord 7 7 20 (Some (Errorf ''busy''))]) 30
   in unat (sa_TotalOperations x) = 2 \<and> unat (sa_FailedOperations x) = 1
    \<and> unat (oc_Transaction (sa_OperationCounts x)) = 1 \<and> unat (oc_LockContention (sa_OperationCounts x)) = 1"
  using sample_counts_measured [of "[CallWorkerStarted, CallRecord 4 7 5 None, CallRecord 4 7 15 None,
      CallRecord 7 7 20 (Some (Errorf ''busy''))]" 0 10 1 30]
  by (simp add: Let_def count_kind_def kind_defs)


text \<open>
  Every counted operation is counted once: the successes and the failures add up to
  the total, and so do the nine per-kind counts when the workload reports one of the nine
  kinds.
\<close>
theorem sample_counts_add_up:
  assumes "length calls < 2 ^ 64"
    and "\<forall>k l t err. CallRecord k l t err \<in> set calls \<longrightarrow> 0 \<le> k \<and> k < operationKindCount"
  shows "let x = stats_sample (stats_after startedAt warmup clients calls) now; c = sa_OperationCounts x
         in unat (sa_SuccessfulOperations x) + unat (sa_FailedOperations x) = unat (sa_TotalOperations x)
          \<and> unat (oc_PointRead c) + unat (oc_RangeRead c) + unat (oc_HistoryInsert c)
             + unat (oc_AccountUpdate c) + unat (oc_Transaction c) + unat (oc_Join c)
             + unat (oc_Aggregation c) + unat (oc_LockContention c) + unat (oc_HotUpdate c)
            = unat (sa_TotalOperations x)"
proof -
  let ?m = "startedAt + warmup"
  let ?ops = "measured_in ?m calls" and ?s = "stats_after startedAt warmup clients calls"
  have rep: "stats_rep ?m ?ops ?s" using assms(1) by (rule stats_rep_after)
  have len: "length ?ops < 2 ^ 64" using measured_in_length [of ?m calls] assms(1) by linarith
  have "\<forall>x \<in> set ?ops. 0 \<le> op_kind x \<and> op_kind x < operationKindCount"
    using assms(2) by (induction ?m calls rule: measured_in.induct) auto
  from count_kinds_sum [OF this]
  have kinds: "(\<Sum>k = 0..<9. count_kind (int k) ?ops) = length ?ops" .
  have kind: "unat (rs_perKind ?s ! k) = count_kind (int k) ?ops" if "k < 9" for k
    using stats_rep_kind [OF rep len, of "int k"] that by (simp add: operationKindCount_def)
  have "unat (rs_totalOperations ?s) = length ?ops"
    using rep unat_of_nat_u64 [OF len] by (simp only: stats_rep_def)
  moreover have "unat (rs_successfulOperations ?s) = length (filter (\<lambda>r. \<not> op_failed r) ?ops)"
    "unat (rs_failedOperations ?s) = length (filter op_failed ?ops)"
    using rep unat_count [OF len] by (simp_all only: stats_rep_def)
  ultimately show ?thesis
    using kinds filter_split_length [of op_failed ?ops]
    by (simp add: Let_def stats_sample_def sampleLocked_def kind_defs kind numeral_eq_Suc)
qed

theorem sample_counts_add_up_witness:
  "let x = stats_sample (stats_after 0 10 1 [CallRecord 4 7 15 None]) 30
   in unat (sa_SuccessfulOperations x) + unat (sa_FailedOperations x) = unat (sa_TotalOperations x)"
  using sample_counts_add_up [of "[CallRecord 4 7 15 None]" 0 10 1 30]
  by (simp add: Let_def kind_defs)

subsection \<open>The clock stops when the run finishes\<close>

lemma finished_kept: "rs_finishedAt s = Some t \<Longrightarrow> rs_finishedAt (apply_call s c) = Some t"
  by (cases c) (auto simp: setConfiguredClients_def workerStarted_def stats_workerStopped_def
      stats_record_def stats_finish_def Let_def split: option.splits)

lemma measurement_kept: "rs_measurementStartedAt (apply_call s c) = rs_measurementStartedAt s"
  by (cases c) (auto simp: setConfiguredClients_def workerStarted_def stats_workerStopped_def
      stats_record_def stats_finish_def Let_def split: option.splits)

lemma foldl_finished:
  "rs_finishedAt s = Some t \<Longrightarrow> rs_finishedAt (foldl apply_call s cs) = Some t
     \<and> rs_measurementStartedAt (foldl apply_call s cs) = rs_measurementStartedAt s"
  by (induction cs arbitrary: s) (auto simp: finished_kept measurement_kept)

lemma unfinished_calls:
  "(\<forall>t err. CallFinish t err \<notin> set cs) \<Longrightarrow> rs_finishedAt (foldl apply_call s cs) = rs_finishedAt s
     \<and> rs_measurementStartedAt (foldl apply_call s cs) = rs_measurementStartedAt s"
proof (induction cs arbitrary: s)
  case (Cons c cs)
  then have "rs_finishedAt (apply_call s c) = rs_finishedAt s"
    by (cases c) (auto simp: setConfiguredClients_def workerStarted_def stats_workerStopped_def
        stats_record_def Let_def split: option.splits)
  with Cons show ?case by (simp add: measurement_kept)
qed simp

text \<open>
  From the first \<open>finish\<close> on the elapsed time of every sample is the time from the end
  of the warm-up to that \<open>finish\<close>, zero when the run ended within its warm-up: it depends
  neither on the moment of the sample nor on any later call.
\<close>
theorem finished_sample_elapsed_fixed:
  assumes "\<forall>t e. CallFinish t e \<notin> set before"
  shows "sa_ElapsedSeconds (stats_sample
      (stats_after startedAt warmup clients (before @ CallFinish finishedAt err # later)) now) =
    (if finishedAt > startedAt + warmup
     then duration_Seconds (time_sub finishedAt (startedAt + warmup)) else 0)"
proof -
  let ?b = "foldl apply_call (newRunStats startedAt warmup clients) before"
  have b: "rs_finishedAt ?b = None" "rs_measurementStartedAt ?b = startedAt + warmup"
    using unfinished_calls [OF assms, of "newRunStats startedAt warmup clients"]
    by (simp_all add: newRunStats_def)
  then have "rs_finishedAt (apply_call ?b (CallFinish finishedAt err)) = Some finishedAt"
    by (simp add: stats_finish_def Let_def split: option.splits)
  from foldl_finished [OF this, of later] b show ?thesis
    by (simp add: stats_after_def stats_sample_def sampleLocked_def elapsedSecondsAt_def
        measurement_kept [of _ "CallFinish finishedAt err", simplified])
qed

theorem finished_sample_elapsed_fixed_witness:
  "sa_ElapsedSeconds (stats_sample (stats_after 0 10 1
     [CallWorkerStarted, CallFinish 7 None, CallWorkerStopped, CallFinish 50 None]) 99) = 0"
  using finished_sample_elapsed_fixed [of "[CallWorkerStarted]" 0 10 1 7 None
      "[CallWorkerStopped, CallFinish 50 None]" 99] by simp

subsection \<open>The latency figures are ordered\<close>

lemma round_up_to_bucket_ge: "v \<le> mx \<Longrightarrow> v \<le> round_up_to_bucket v mx"
  by (auto simp: round_up_to_bucket_def find_Some_iff split: option.splits)

lemma round_up_to_bucket_mono:
  assumes "v \<le> w" and "w \<le> mx"
  shows "round_up_to_bucket v mx \<le> round_up_to_bucket w mx"
proof (cases "find (\<lambda>b. w \<le> b) latencyBucketBounds")
  case None
  have "b \<le> mx" if "b \<in> set latencyBucketBounds" for b
    using None assms(2) that by (force simp: find_None_iff)
  then show ?thesis using None
    by (auto simp: round_up_to_bucket_def find_Some_iff split: option.splits)
next
  case (Some b)
  then have b: "b \<in> set latencyBucketBounds" "w \<le> b" by (auto simp: find_Some_iff)
  with find_sorted_le [OF latencyBucketBounds_sorted, of b "\<lambda>b. v \<le> b"] assms(1) Some
  show ?thesis by (auto simp: round_up_to_bucket_def)
qed

lemma quantile_rank_mono:
  assumes "0 < n" and "n < 2 ^ 53" and "0 \<le> p" and "p \<le> q" and "q \<le> 1"
  shows "unat (quantile_rank p (of_nat n)) \<le> unat (quantile_rank q (of_nat n))"
proof -
  have "fl (p * of_nat n) \<le> fl (q * of_nat n)" using assms by (intro fl_mono) (auto intro: mult_right_mono)
  then have "nat \<lceil>fl (p * of_nat n)\<rceil> \<le> nat \<lceil>fl (q * of_nat n)\<rceil>" by (intro nat_mono ceiling_mono)
  then show ?thesis using assms quantile_rank_range(1) [of n p] quantile_rank_range(1) [of n q] by simp
qed

lemma nearest_rank_in: "1 \<le> r \<Longrightarrow> r \<le> length ls \<Longrightarrow> nearest_rank r ls \<in> set ls"
  unfolding nearest_rank_def by (metis Suc_diff_1 Suc_le_lessD less_imp_diff_less length_sort
      nth_mem set_sort le_imp_less_Suc less_Suc_eq_le zero_less_one order.strict_trans2 diff_Suc_less)

lemma quantile_mono:
  assumes "hist_rep h ls" and "length ls < 2 ^ 53" and "0 \<le> p" and "p \<le> q" and "q \<le> 1"
  shows "quantile h p \<le> quantile h q"
proof (cases "ls = []")
  case True
  then show ?thesis using assms(1) by (simp add: quantile_def hist_rep_def)
next
  case False
  let ?r = "unat (quantile_rank p (of_nat (length ls)))" and ?s = "unat (quantile_rank q (of_nat (length ls)))"
  have n: "0 < length ls" using False by simp
  have r: "1 \<le> ?r" "?r \<le> ?s" "?s \<le> length ls"
    using quantile_rank_range(2) [of "length ls" p] quantile_rank_range(3) [of "length ls" q]
      quantile_rank_mono [of "length ls" p q] assms n by simp_all
  then have "nearest_rank ?r ls \<le> nearest_rank ?s ls"
    unfolding nearest_rank_def by (intro sorted_nth_mono) auto
  moreover have "nearest_rank ?s ls \<le> Max (set ls)" using nearest_rank_in [of ?s ls] r by simp
  ultimately show ?thesis
    using quantile_refines [OF assms(1) False assms(2), of p] quantile_refines [OF assms(1) False assms(2), of q]
      round_up_to_bucket_mono assms by simp
qed

lemma quantile_ge_min:
  assumes "hist_rep h ls" and "length ls < 2 ^ 53" and "0 \<le> p" and "p \<le> 1"
  shows "lh_min h \<le> quantile h p"
proof (cases "ls = []")
  case True
  then show ?thesis using assms(1) by (simp add: quantile_def hist_rep_def)
next
  case False
  let ?v = "nearest_rank (unat (quantile_rank p (of_nat (length ls)))) ls"
  have "?v \<in> set ls"
    using quantile_rank_range(2,3) [of "length ls" p] assms False by (intro nearest_rank_in) auto
  then have "Min (set ls) \<le> ?v" "?v \<le> Max (set ls)" by simp_all
  with round_up_to_bucket_ge [of ?v "Max (set ls)"] show ?thesis
    using quantile_refines [OF assms(1) False assms(2-4)] assms(1) False by (simp add: hist_rep_def)
qed


lemma fl_millisecond [simp]: "0 < duration_to_float millisecond"
  using fl_of_nat [of 1000000] by (simp add: duration_to_float_def millisecond_def)

lemma durationMilliseconds_mono: "0 \<le> d \<Longrightarrow> d \<le> e \<Longrightarrow> durationMilliseconds d \<le> durationMilliseconds e"
  unfolding durationMilliseconds_def
  by (intro fl_mono divide_right_mono duration_to_float_mono divide_nonneg_pos fl_millisecond
      less_imp_le [OF fl_millisecond]) (auto simp: duration_to_float_def fl_nonneg)

lemma sum_list_between:
  "(\<forall>v \<in> set ls. a \<le> v \<and> v \<le> b) \<Longrightarrow> a * int (length ls) \<le> sum_list ls \<and> sum_list ls \<le> b * int (length ls)"
  by (induction ls) (auto simp: algebra_simps)

lemma duration_to_float_exact: "0 \<le> d \<Longrightarrow> d < 2 ^ 53 \<Longrightarrow> duration_to_float d = of_int d"
  using fl_of_nat [of "nat d"] by (simp add: duration_to_float_def nat_less_iff)

text \<open>The quotient of an exact sum and an exact count lies between the extremes.\<close>

lemma averageMilliseconds_between:
  assumes "0 \<le> a" and "a * int n \<le> t" and "t \<le> b * int n" and "t < 2 ^ 53" and "0 < n" and "n < 2 ^ 53"
  shows "durationMilliseconds a \<le> averageMilliseconds t (of_nat n)"
    and "averageMilliseconds t (of_nat n) \<le> durationMilliseconds b"
proof -
  have t0: "0 \<le> t" using assms(1,2) by (meson mult_nonneg_nonneg of_nat_0_le_iff order_trans)
  have n0: "of_nat n \<noteq> (0 :: u64)" using of_nat_eq_0_u64 [of n] assms(5,6) by simp
  have n: "u64_to_float (of_nat n) = of_nat n"
    using assms(6) by (simp add: u64_to_float_def unat_of_nat take_bit_nat_eq_self fl_of_nat)
  have avg: "averageMilliseconds t (of_nat n) =
      fl (fl (of_int t / of_nat n) / duration_to_float millisecond)"
    using n0 n duration_to_float_exact [OF t0 assms(4)] by (simp add: averageMilliseconds_def)
  have ms: "0 < duration_to_float millisecond" by simp
  have "of_int (a * int n) \<le> (of_int t :: rat)" "(of_int t :: rat) \<le> of_int (b * int n)"
    using assms(2,3) by (simp_all only: of_int_le_iff)
  then have le: "of_int a \<le> (of_int t :: rat) / of_nat n" "(of_int t :: rat) / of_nat n \<le> of_int b"
    using assms(5) by (simp_all add: pos_le_divide_eq pos_divide_le_eq)
  have "0 \<le> fl (of_int a)" "0 \<le> fl (of_int t / of_nat n)"
    using assms(1) t0 by (auto intro!: fl_nonneg)
  then show "durationMilliseconds a \<le> averageMilliseconds t (of_nat n)"
    and "averageMilliseconds t (of_nat n) \<le> durationMilliseconds b"
    unfolding avg durationMilliseconds_def duration_to_float_def
    using le ms assms(1,5) t0 unfolding duration_to_float_def
    by (auto intro!: fl_mono divide_right_mono divide_nonneg_pos)
qed

lemma sample_latencies_ordered:
  assumes "hist_rep h ls" and "length ls < 2 ^ 53"
  shows "durationMilliseconds (lh_min h) \<le> durationMilliseconds (quantile h (fl (50/100)))"
    and "durationMilliseconds (quantile h (fl (50/100))) \<le> durationMilliseconds (quantile h (fl (90/100)))"
    and "durationMilliseconds (quantile h (fl (90/100))) \<le> durationMilliseconds (quantile h (fl (95/100)))"
    and "durationMilliseconds (quantile h (fl (95/100))) \<le> durationMilliseconds (quantile h (fl (99/100)))"
proof -
  have p: "0 \<le> fl (50/100)" "fl (50/100) \<le> fl (90/100)" "fl (90/100) \<le> fl (95/100)"
    "fl (95/100) \<le> fl (99/100)" "fl (99/100) \<le> 1"
    using fl_le_nat [of "99/100" 1] by (auto intro!: fl_mono fl_nonneg)
  have "Min (set ls) \<in> set ls" if "ls \<noteq> []" using that by simp
  then have m: "0 \<le> lh_min h" using assms(1) by (cases "ls = []") (auto simp: hist_rep_def)
  have q: "0 \<le> quantile h x" if "0 \<le> x" "x \<le> 1" for x
    using quantile_ge_min [OF assms that] m by linarith
  show "durationMilliseconds (lh_min h) \<le> durationMilliseconds (quantile h (fl (50/100)))"
    using m p by (intro durationMilliseconds_mono quantile_ge_min [OF assms]) linarith+
  show "durationMilliseconds (quantile h (fl (50/100))) \<le> durationMilliseconds (quantile h (fl (90/100)))"
    using p by (intro durationMilliseconds_mono q quantile_mono [OF assms]) linarith+
  show "durationMilliseconds (quantile h (fl (90/100))) \<le> durationMilliseconds (quantile h (fl (95/100)))"
    using p by (intro durationMilliseconds_mono q quantile_mono [OF assms]) linarith+
  show "durationMilliseconds (quantile h (fl (95/100))) \<le> durationMilliseconds (quantile h (fl (99/100)))"
    using p by (intro durationMilliseconds_mono q quantile_mono [OF assms]) linarith+
qed

text \<open>
  C28. The latency figures of every sample are consistent, after all the floating-point
  roundings: the minimum is at most the average and the average at most the maximum, and
  the minimum, the median and the 90th, 95th and 99th percentiles never decrease; as long
  as fewer than \<open>2\<^sup>53\<close> operations were measured and their latencies add up to less than
  \<open>2\<^sup>53\<close> nanoseconds, about a hundred days.
\<close>
theorem sample_latency_consistent:
  assumes "length calls < 2 ^ 53"
    and "sum_list (map (clamp0 \<circ> op_latency) (measured_in (startedAt + warmup) calls)) < 2 ^ 53"
  shows "let l = sa_Latency (stats_sample (stats_after startedAt warmup clients calls) now)
         in la_MinMilliseconds l \<le> la_AverageMilliseconds l
          \<and> la_AverageMilliseconds l \<le> la_MaxMilliseconds l
          \<and> la_MinMilliseconds l \<le> la_P50Milliseconds l
          \<and> la_P50Milliseconds l \<le> la_P90Milliseconds l
          \<and> la_P90Milliseconds l \<le> la_P95Milliseconds l
          \<and> la_P95Milliseconds l \<le> la_P99Milliseconds l"
proof -
  let ?s = "stats_after startedAt warmup clients calls" and ?m = "startedAt + warmup"
  let ?h = "rs_latency ?s" and ?ls = "map (clamp0 \<circ> op_latency) (measured_in ?m calls)"
  have rep: "hist_rep ?h ?ls"
    using stats_rep_after [of calls startedAt warmup clients] assms(1) by (simp add: stats_rep_def)
  have len: "length ?ls < 2 ^ 53"
    using measured_in_length [of ?m calls] assms(1) by simp
  have "durationMilliseconds (lh_min ?h) \<le> averageMilliseconds (lh_sum ?h) (lh_total ?h)
      \<and> averageMilliseconds (lh_sum ?h) (lh_total ?h) \<le> durationMilliseconds (lh_max ?h)"
  proof (cases "?ls = []")
    case True
    then show ?thesis using rep by (simp add: hist_rep_def averageMilliseconds_def durationMilliseconds_def
          duration_to_float_def wrap64_def)
  next
    case False
    have nonneg: "\<forall>v \<in> set ?ls. 0 \<le> v" by simp
    then have s0: "0 \<le> sum_list ?ls" by (intro sum_list_nonneg) auto
    then have s: "lh_sum ?h = sum_list ?ls"
      using rep assms(2) by (simp add: hist_rep_def wrap64_small)
    have mm: "lh_min ?h = Min (set ?ls)" "lh_max ?h = Max (set ?ls)" "lh_total ?h = of_nat (length ?ls)"
      using rep False unfolding hist_rep_def by blast+
    have "Min (set ?ls) \<in> set ?ls" using False by (intro Min_in) auto
    then have a0: "0 \<le> Min (set ?ls)" using nonneg by blast
    have b: "\<forall>v \<in> set ?ls. Min (set ?ls) \<le> v \<and> v \<le> Max (set ?ls)" by simp
    show ?thesis
      unfolding s mm
      using averageMilliseconds_between [OF a0 conjunct1 [OF sum_list_between [OF b]]
          conjunct2 [OF sum_list_between [OF b]] assms(2) _ len] False by blast
  qed
  with sample_latencies_ordered [OF rep len] show ?thesis
    by (simp add: Let_def stats_sample_def sampleLocked_def)
qed

theorem sample_latency_consistent_witness:
  "let l = sa_Latency (stats_sample (stats_after 0 10 1
       [CallRecord 0 3000000 15 None, CallRecord 0 1500000 20 None]) 30)
   in la_P50Milliseconds l \<le> la_P99Milliseconds l"
  using sample_latency_consistent [of "[CallRecord 0 3000000 15 None, CallRecord 0 1500000 20 None]" 0 10 1 30]
  by (simp add: Let_def clamp0_def)

end
