(* ===== verification/Metrics_Text.thy ===== *)
theory Metrics_Text
  imports Samples Run_Stats Go_Print
begin

text \<open>
  The Prometheus page, \<open>internal/benchmarkrun/metrics.go\<close>. An \<open>io.Writer\<close> is a parameter:
  a function that takes the text of one \<open>Write\<close> and a world, and returns the world and an
  error (\<open>fmt.Fprintf\<close> formats into a buffer and calls \<open>Write\<close> once). The theorems show
  which writes are made, in which order and what happens at the first failure, and that a
  scraper that reads the page line by line gets the numbers of the snapshot back.
\<close>

type_synonym 'w writer = "string \<Rightarrow> 'w \<Rightarrow> 'w \<times> goerror option"

section \<open>metrics.go\<close>

definition prometheusContentType :: string where
  "prometheusContentType = ''text/plain; version=0.0.4; charset=utf-8''"

definition PrometheusContentType :: string where
  "PrometheusContentType = prometheusContentType"

definition boolGaugeValue :: "bool \<Rightarrow> int" where
  "boolGaugeValue value = (if value then 1 else 0)"

text \<open>The values passed as \<open>any\<close>, and the verb \<open>%v\<close> on them.\<close>

datatype gauge = GInt int | GUint u64 | GFloat float64

fun fmt_v :: "gauge \<Rightarrow> string" where
  "fmt_v (GInt i) = decimal_int i"
| "fmt_v (GUint w) = decimal (unat w)"
| "fmt_v (GFloat x) = FormatFloat x"

definition writePrometheusMetric :: "'w writer \<Rightarrow> string \<Rightarrow> gauge \<Rightarrow> 'w \<Rightarrow> 'w \<times> goerror option" where
  "writePrometheusMetric write name val w =
     wrapE (''write '' @ name @ '' metric'') (write (name @ '' '' @ fmt_v val @ nl) w)"

definition prometheusFloat :: "float64 \<Rightarrow> string" where
  "prometheusFloat value = FormatFloat value"

definition bucket_line :: "string \<Rightarrow> string \<Rightarrow> u64 \<Rightarrow> string" where
  "bucket_line name le count = name @ ''_bucket{le='' @ go_quote le @ ''} '' @ decimal (unat count) @ nl"

fun write_buckets :: "'w writer \<Rightarrow> string \<Rightarrow> LatencyHistogramBucket list \<Rightarrow> 'w \<Rightarrow> 'w \<times> goerror option" where
  "write_buckets write name [] w = (w, None)"
| "write_buckets write name (bucket # buckets) w =
     seqE (wrapE (''write '' @ name @ '' bucket metric'')
        (write (bucket_line name (prometheusFloat (UpperBoundSeconds bucket)) (CumulativeCount bucket)) w))
       (write_buckets write name buckets)"

definition writePrometheusHistogram ::
  "'w writer \<Rightarrow> string \<Rightarrow> LatencyHistogramSnapshot \<Rightarrow> 'w \<Rightarrow> 'w \<times> goerror option" where
  "writePrometheusHistogram write name histogram w =
     seqE (write_buckets write name (hs_Buckets histogram) w) (\<lambda>w.
     seqE (wrapE (''write '' @ name @ '' +Inf bucket metric'')
        (write (bucket_line name ''+Inf'' (hs_Count histogram)) w)) (\<lambda>w.
     seqE (writePrometheusMetric write (name @ ''_count'') (GUint (hs_Count histogram)) w)
       (writePrometheusMetric write (name @ ''_sum'') (GFloat (hs_SumSeconds histogram)))))"

definition WritePrometheus :: "'w writer \<Rightarrow> MetricsSnapshot \<Rightarrow> 'w \<Rightarrow> 'w \<times> goerror option" where
  "WritePrometheus write m w =
     seqE (writePrometheusMetric write ''pg_gobench_run_active'' (GInt (boolGaugeValue (ms_RunActive m))) w) (\<lambda>w.
     seqE (writePrometheusMetric write ''pg_gobench_run_duration_seconds'' (GFloat (ms_RunDurationSeconds m)) w) (\<lambda>w.
     seqE (writePrometheusMetric write ''pg_gobench_configured_clients'' (GInt (ms_ConfiguredClients m)) w) (\<lambda>w.
     seqE (writePrometheusMetric write ''pg_gobench_active_clients'' (GInt (ms_ActiveClients m)) w) (\<lambda>w.
     seqE (writePrometheusMetric write ''pg_gobench_operations_total'' (GUint (ms_OperationsTotal m)) w) (\<lambda>w.
     seqE (writePrometheusMetric write ''pg_gobench_operation_errors_total'' (GUint (ms_OperationErrorsTotal m)) w) (\<lambda>w.
     seqE (writePrometheusMetric write ''pg_gobench_tps'' (GFloat (ms_TPS m)) w)
       (writePrometheusHistogram write ''pg_gobench_operation_latency_seconds'' (ms_OperationLatency m))))))))"

section \<open>The page\<close>

text \<open>A writer used for a list of texts, up to the first failure.\<close>

fun write_all :: "'w writer \<Rightarrow> (string \<times> string) list \<Rightarrow> 'w \<Rightarrow> 'w \<times> goerror option" where
  "write_all write [] w = (w, None)"
| "write_all write ((label, txt) # rest) w =
     seqE (wrapE (''write '' @ label @ '' metric'') (write txt w)) (write_all write rest)"

definition metric_line :: "string \<Rightarrow> gauge \<Rightarrow> string \<times> string" where
  "metric_line name val = (name, name @ '' '' @ fmt_v val @ nl)"

definition histogram_lines :: "string \<Rightarrow> LatencyHistogramSnapshot \<Rightarrow> (string \<times> string) list" where
  "histogram_lines name h =
     map (\<lambda>b. (name @ '' bucket'', bucket_line name (prometheusFloat (UpperBoundSeconds b)) (CumulativeCount b))) (hs_Buckets h)
     @ [(name @ '' +Inf bucket'', bucket_line name ''+Inf'' (hs_Count h)),
        metric_line (name @ ''_count'') (GUint (hs_Count h)), metric_line (name @ ''_sum'') (GFloat (hs_SumSeconds h))]"

definition page_lines :: "MetricsSnapshot \<Rightarrow> (string \<times> string) list" where
  "page_lines m =
     [metric_line ''pg_gobench_run_active'' (GInt (boolGaugeValue (ms_RunActive m))),
      metric_line ''pg_gobench_run_duration_seconds'' (GFloat (ms_RunDurationSeconds m)),
      metric_line ''pg_gobench_configured_clients'' (GInt (ms_ConfiguredClients m)),
      metric_line ''pg_gobench_active_clients'' (GInt (ms_ActiveClients m)),
      metric_line ''pg_gobench_operations_total'' (GUint (ms_OperationsTotal m)),
      metric_line ''pg_gobench_operation_errors_total'' (GUint (ms_OperationErrorsTotal m)),
      metric_line ''pg_gobench_tps'' (GFloat (ms_TPS m))]
     @ histogram_lines ''pg_gobench_operation_latency_seconds'' (ms_OperationLatency m)"

lemma seqE_simps [simp]: "seqE (w, None) f = f w" "seqE (w, Some e) f = (w, Some e)"
  by (simp_all add: seqE_def)

lemma seqE_alt: "seqE m f = (if snd m = None then f (fst m) else m)"
  by (cases m) (auto simp: seqE_def split: option.splits)

lemma seqE_right [simp]: "seqE m (\<lambda>w. (w, None)) = m"
  by (cases m) (auto simp: seqE_def split: option.splits)

lemma seqE_assoc: "seqE (seqE m f) g = seqE m (\<lambda>w. seqE (f w) g)"
  by (cases m) (auto simp: seqE_def split: option.splits)

lemma write_all_fun:
  "write_all write [] = (\<lambda>w. (w, None))"
  "write_all write ((label, txt) # rest) = (\<lambda>w. seqE (wrapE (''write '' @ label @ '' metric'') (write txt w)) (write_all write rest))"
  by (rule ext, simp)+

lemma write_all_append: "write_all write (xs @ ys) w = seqE (write_all write xs w) (write_all write ys)"
proof (induction xs arbitrary: w)
  case (Cons x xs)
  have "write_all write (xs @ ys) = (\<lambda>w. seqE (write_all write xs w) (write_all write ys))"
    using Cons.IH by (rule ext)
  then show ?case by (cases x) (simp add: seqE_assoc)
qed simp

lemma write_metric_line: "writePrometheusMetric write name val w = write_all write [metric_line name val] w"
  by (simp add: writePrometheusMetric_def metric_line_def write_all_fun)

lemma write_buckets_lines:
  "write_buckets write name bs w = write_all write
     (map (\<lambda>b. (name @ '' bucket'', bucket_line name (prometheusFloat (UpperBoundSeconds b)) (CumulativeCount b))) bs) w"
proof (induction bs arbitrary: w)
  case (Cons b bs)
  then have "write_buckets write name bs = write_all write
     (map (\<lambda>b. (name @ '' bucket'', bucket_line name (prometheusFloat (UpperBoundSeconds b)) (CumulativeCount b))) bs)"
    by (rule ext)
  then show ?case by simp
qed simp

lemma writePrometheusHistogram_lines:
  "writePrometheusHistogram write name h w = write_all write (histogram_lines name h) w"
  by (simp add: writePrometheusHistogram_def histogram_lines_def write_all_append write_buckets_lines
      writePrometheusMetric_def [abs_def] metric_line_def write_all_fun)

lemma WritePrometheus_lines: "WritePrometheus write m w = write_all write (page_lines m) w"
  by (simp add: WritePrometheus_def page_lines_def writePrometheusMetric_def [abs_def] metric_line_def write_all_fun
      writePrometheusHistogram_lines [abs_def])

section \<open>Scraping\<close>

text \<open>
  A scraper splits the page into lines and each line at the blank into a series and its
  value. \<open>buffer\<close> is a writer that keeps everything and never fails.
\<close>

definition buffer :: "string writer" where
  "buffer txt w = (w @ txt, None)"

function text_lines :: "string \<Rightarrow> string list" where
  "text_lines [] = []"
| "text_lines (c # s) = (case cut_at CHR 0x0A (c # s) of (l, rest) \<Rightarrow> l # text_lines rest)"
  by pat_completeness auto
termination
proof (relation "measure length")
  show "(rest, c # s) \<in> measure length" if "(l, rest) = cut_at CHR 0x0A (c # s)" for c s l rest
    using that length_dropWhile_le [of "\<lambda>x. x \<noteq> CHR 0x0A" s] by (auto simp: cut_at_def)
qed simp

definition scrape :: "string \<Rightarrow> string \<Rightarrow> string option" where
  "scrape page = map_of (map (cut_at CHR '' '') (text_lines page))"

definition bucket_series :: "string \<Rightarrow> string" where
  "bucket_series le = ''pg_gobench_operation_latency_seconds_bucket{le='' @ go_quote le @ ''}''"

definition page_series :: "MetricsSnapshot \<Rightarrow> (string \<times> string) list" where
  "page_series m =
     [(''pg_gobench_run_active'', decimal_int (boolGaugeValue (ms_RunActive m))),
      (''pg_gobench_run_duration_seconds'', FormatFloat (ms_RunDurationSeconds m)),
      (''pg_gobench_configured_clients'', decimal_int (ms_ConfiguredClients m)),
      (''pg_gobench_active_clients'', decimal_int (ms_ActiveClients m)),
      (''pg_gobench_operations_total'', decimal (unat (ms_OperationsTotal m))),
      (''pg_gobench_operation_errors_total'', decimal (unat (ms_OperationErrorsTotal m))),
      (''pg_gobench_tps'', FormatFloat (ms_TPS m))]
     @ map (\<lambda>b. (bucket_series (FormatFloat (UpperBoundSeconds b)), decimal (unat (CumulativeCount b))))
         (hs_Buckets (ms_OperationLatency m))
     @ [(bucket_series ''+Inf'', decimal (unat (hs_Count (ms_OperationLatency m)))),
        (''pg_gobench_operation_latency_seconds_count'', decimal (unat (hs_Count (ms_OperationLatency m)))),
        (''pg_gobench_operation_latency_seconds_sum'', FormatFloat (hs_SumSeconds (ms_OperationLatency m)))]"

definition snapshot_ok :: "MetricsSnapshot \<Rightarrow> bool" where
  "snapshot_ok m \<longleftrightarrow> is_float (ms_RunDurationSeconds m) \<and> is_float (ms_TPS m)
     \<and> is_float (hs_SumSeconds (ms_OperationLatency m))
     \<and> list_all is_float (map UpperBoundSeconds (hs_Buckets (ms_OperationLatency m)))
     \<and> distinct (map UpperBoundSeconds (hs_Buckets (ms_OperationLatency m)))"

lemma write_all_buffer: "write_all buffer ls w = (w @ concat (map snd ls), None)"
  by (induction buffer ls w rule: write_all.induct) (simp_all add: buffer_def wrapE_def)

lemma page_text:
  "fst (WritePrometheus buffer m []) = concat (map (\<lambda>(n, v). (n @ '' '' @ v) @ nl) (page_series m))"
  unfolding WritePrometheus_lines write_all_buffer
  by (simp add: page_lines_def page_series_def histogram_lines_def metric_line_def bucket_line_def
      bucket_series_def prometheusFloat_def comp_def)

lemma text_lines_concat:
  "\<forall>l \<in> set ls. CHR 0x0A \<notin> set l \<Longrightarrow> text_lines (concat (map (\<lambda>l. l @ nl) ls)) = ls"
proof (induction ls)
  case (Cons l ls)
  have "text_lines (l @ CHR 0x0A # t) = l # text_lines t" for t
    using Cons.prems cut_at_mid [of "CHR 0x0A" l t] by (cases "l @ CHR 0x0A # t") auto
  with Cons show ?case by simp
qed simp

lemma bucket_series_float: "bucket_series (FormatFloat x) =
    ''pg_gobench_operation_latency_seconds_bucket{le='' @ [CHR 0x22] @ FormatFloat x @ [CHR 0x22] @ ''}''"
  by (simp add: bucket_series_def go_quote_number [OF FormatFloat_number])

lemma bucket_series_Inf: "bucket_series ''+Inf'' =
    ''pg_gobench_operation_latency_seconds_bucket{le='' @ [CHR 0x22] @ ''+Inf'' @ [CHR 0x22] @ ''}''"
  by (simp add: bucket_series_def go_quote_def quote_char_def)

definition head_names :: "string list" where
  "head_names =
     [''pg_gobench_run_active'', ''pg_gobench_run_duration_seconds'', ''pg_gobench_configured_clients'',
      ''pg_gobench_active_clients'', ''pg_gobench_operations_total'', ''pg_gobench_operation_errors_total'',
      ''pg_gobench_tps'']"

definition tail_names :: "string list" where
  "tail_names = [''pg_gobench_operation_latency_seconds_count'', ''pg_gobench_operation_latency_seconds_sum'']"

lemma page_series_names: "map fst (page_series m) =
    head_names @ map (\<lambda>b. bucket_series (FormatFloat (UpperBoundSeconds b))) (hs_Buckets (ms_OperationLatency m))
    @ bucket_series ''+Inf'' # tail_names"
  by (simp add: page_series_def head_names_def tail_names_def comp_def)

lemma page_series_values: "(n, v) \<in> set (page_series m) \<Longrightarrow> number_text v"
proof -
  have "\<forall>v \<in> set (map snd (page_series m)). number_text v"
    by (simp add: page_series_def decimal_number FormatFloat_number)
  then show "(n, v) \<in> set (page_series m) \<Longrightarrow> number_text v" by force
qed

lemma names_distinct: "distinct (head_names @ tail_names)"
  by (simp add: head_names_def tail_names_def)

lemma bucket_series_other [simp]: "bucket_series le \<notin> set head_names" "bucket_series le \<notin> set tail_names"
  by (simp_all add: bucket_series_def head_names_def tail_names_def)

lemma bucket_series_eq [simp]:
  "bucket_series (FormatFloat x) = bucket_series (FormatFloat y) \<longleftrightarrow> FormatFloat x = FormatFloat y"
  by (simp add: bucket_series_float)

lemma bucket_series_ne_Inf [simp]: "bucket_series (FormatFloat x) \<noteq> bucket_series ''+Inf''"
proof
  assume "bucket_series (FormatFloat x) = bucket_series ''+Inf''"
  then have "FormatFloat x = ''+Inf''" by (simp add: bucket_series_float bucket_series_Inf)
  then have "number_text ''+Inf''" using FormatFloat_number [of x] by simp
  then show False by (simp add: number_char_def is_digit_def)
qed

lemma page_series_clean:
  assumes "(n, v) \<in> set (page_series m)"
  shows "CHR '' '' \<notin> set n \<and> CHR 0x0A \<notin> set n \<and> CHR 0x0A \<notin> set v"
proof -
  have "\<not> number_char CHR '' ''" "\<not> number_char CHR 0x0A" by (simp_all add: number_char_def is_digit_def)
  then have f: "CHR '' '' \<notin> set (FormatFloat x)" "CHR 0x0A \<notin> set (FormatFloat x)" for x
    using FormatFloat_number number_text_free by blast+
  have fixed: "\<forall>s \<in> set (head_names @ tail_names). CHR '' '' \<notin> set s \<and> CHR 0x0A \<notin> set s"
    by (simp add: head_names_def tail_names_def)
  have bucket: "CHR '' '' \<notin> set (bucket_series (FormatFloat x))" "CHR 0x0A \<notin> set (bucket_series (FormatFloat x))" for x
    by (simp_all add: bucket_series_float f)
  have inf: "CHR '' '' \<notin> set (bucket_series ''+Inf'')" "CHR 0x0A \<notin> set (bucket_series ''+Inf'')"
    by (simp_all add: bucket_series_Inf)
  have "n \<in> set (map fst (page_series m))" using assms by force
  then consider "n \<in> set (head_names @ tail_names)" | "n = bucket_series ''+Inf''" | x where "n = bucket_series (FormatFloat x)"
    unfolding page_series_names by auto
  then have "CHR '' '' \<notin> set n \<and> CHR 0x0A \<notin> set n"
    by cases (use fixed bucket inf in blast)+
  moreover have "CHR 0x0A \<notin> set v"
    using page_series_values [OF assms] by (rule number_text_free) (simp add: number_char_def is_digit_def)
  ultimately show ?thesis by blast
qed

lemma scrape_page: "scrape (fst (WritePrometheus buffer m [])) = map_of (page_series m)"
proof -
  let ?ls = "map (\<lambda>(n, v). n @ '' '' @ v) (page_series m)"
  have "\<forall>l \<in> set ?ls. CHR 0x0A \<notin> set l" using page_series_clean by fastforce
  then have "text_lines (concat (map (\<lambda>l. l @ nl) ?ls)) = ?ls" by (rule text_lines_concat)
  moreover have "concat (map (\<lambda>l. l @ nl) ?ls) = fst (WritePrometheus buffer m [])"
    unfolding page_text by (simp add: comp_def split_def)
  moreover have "map (cut_at CHR '' '') ?ls = page_series m"
    using page_series_clean cut_at_mid [of "CHR '' ''"]
    by (auto simp: comp_def intro!: map_idI split: prod.splits)
  ultimately show ?thesis by (simp add: scrape_def)
qed

lemma page_series_distinct:
  assumes "snapshot_ok m"
  shows "distinct (map fst (page_series m))"
proof -
  let ?bs = "hs_Buckets (ms_OperationLatency m)"
  have inj: "inj_on FormatFloat {x. is_float x}"
    using FormatFloat_roundtrip by (metis inj_onI mem_Collect_eq)
  have "distinct (map FormatFloat (map UpperBoundSeconds ?bs))"
    unfolding distinct_map [of FormatFloat] using assms inj
    by (auto simp: snapshot_ok_def list_all_iff intro: inj_on_subset)
  then have "distinct (map (\<lambda>b. bucket_series (FormatFloat (UpperBoundSeconds b))) ?bs)"
    by (simp add: distinct_map inj_on_def)
  then show ?thesis unfolding page_series_names using names_distinct bucket_series_ne_Inf [symmetric] by auto
qed

lemma scrape_series: "snapshot_ok m \<Longrightarrow> (n, v) \<in> set (page_series m) \<Longrightarrow> scrape (fst (WritePrometheus buffer m [])) n = Some v"
  unfolding scrape_page by (intro map_of_is_SomeI page_series_distinct)

lemma page_series_in:
  "(''pg_gobench_run_active'', decimal_int (boolGaugeValue (ms_RunActive m))) \<in> set (page_series m)"
  "(''pg_gobench_run_duration_seconds'', FormatFloat (ms_RunDurationSeconds m)) \<in> set (page_series m)"
  "(''pg_gobench_configured_clients'', decimal_int (ms_ConfiguredClients m)) \<in> set (page_series m)"
  "(''pg_gobench_active_clients'', decimal_int (ms_ActiveClients m)) \<in> set (page_series m)"
  "(''pg_gobench_operations_total'', decimal (unat (ms_OperationsTotal m))) \<in> set (page_series m)"
  "(''pg_gobench_operation_errors_total'', decimal (unat (ms_OperationErrorsTotal m))) \<in> set (page_series m)"
  "(''pg_gobench_tps'', FormatFloat (ms_TPS m)) \<in> set (page_series m)"
  "b \<in> set (hs_Buckets (ms_OperationLatency m)) \<Longrightarrow>
     (bucket_series (FormatFloat (UpperBoundSeconds b)), decimal (unat (CumulativeCount b))) \<in> set (page_series m)"
  "(bucket_series ''+Inf'', decimal (unat (hs_Count (ms_OperationLatency m)))) \<in> set (page_series m)"
  "(''pg_gobench_operation_latency_seconds_count'', decimal (unat (hs_Count (ms_OperationLatency m)))) \<in> set (page_series m)"
  "(''pg_gobench_operation_latency_seconds_sum'', FormatFloat (hs_SumSeconds (ms_OperationLatency m))) \<in> set (page_series m)"
  by (simp_all only: page_series_def set_append list.set set_map Un_iff insert_iff simp_thms) blast

lemma scrape_values:
  assumes "snapshot_ok m"
  shows "(n, decimal_int i) \<in> set (page_series m) \<Longrightarrow>
      map_option read_int (scrape (fst (WritePrometheus buffer m [])) n) = Some i"
    and "(n, decimal k) \<in> set (page_series m) \<Longrightarrow>
      map_option read_digits (scrape (fst (WritePrometheus buffer m [])) n) = Some k"
    and "(n, FormatFloat x) \<in> set (page_series m) \<Longrightarrow> is_float x \<Longrightarrow>
      map_option ParseFloat (scrape (fst (WritePrometheus buffer m [])) n) = Some x"
  using scrape_series [OF assms] by (simp_all add: decimal_int_inverse FormatFloat_roundtrip)

section \<open>The page of a run\<close>

lemma is_float_fl: "0 \<le> x \<Longrightarrow> is_float (fl x)"
  by (simp add: is_float_def fl_nonneg fl_idem)

lemma duration_Seconds_eq:
  "0 \<le> d \<Longrightarrow> duration_Seconds d =
     fl (fl (of_int (d div 1000000000)) + fl (fl (of_int (d mod 1000000000)) / 1000000000))"
  by (simp add: duration_Seconds_def signed_divide_int_def signed_modulo_int_def sgn_if minus_mult_div_eq_mod)

lemma is_float_duration: "0 \<le> d \<Longrightarrow> is_float (duration_Seconds d)"
  unfolding duration_Seconds_eq
  by (intro is_float_fl add_nonneg_nonneg fl_nonneg divide_nonneg_nonneg) (simp_all add: pos_imp_zdiv_nonneg_iff)

lemma is_float_rate: "is_float (ratePerSecond c e)"
  by (auto simp: ratePerSecond_def is_float_def [of 0] intro!: is_float_fl divide_nonneg_nonneg)

lemma is_float_elapsed: "is_float (elapsedSecondsAt s now)"
proof -
  have "0 \<le> time_sub t u" if "u < t" for t u using that by (simp add: time_sub_def)
  then show ?thesis
    by (auto simp: elapsedSecondsAt_def Let_def is_float_def [of 0] intro!: is_float_duration split: option.splits)
qed

text \<open>Bounds that differ by a millisecond or more are different numbers of seconds.\<close>

lemma seconds_of_bound:
  assumes "0 < m" and "m \<le> 10000"
  shows "\<bar>duration_Seconds (m * millisecond) - of_int m / 1000\<bar> \<le> 1 / 5000"
proof -
  let ?d = "m * millisecond"
  have q: "?d div 1000000000 = m div 1000" "?d mod 1000000000 = m mod 1000 * millisecond"
    using div_mult_mult2 [of millisecond m 1000] mod_mult_mult2 [of m millisecond 1000] by (simp_all add: millisecond_def)
  have fq: "fl (of_int (m div 1000)) = of_int (m div 1000)"
    using fl_of_nat [of "nat (m div 1000)"] assms by (simp add: nat_less_iff pos_imp_zdiv_nonneg_iff)
  have "m mod 1000 * millisecond < 1000 * millisecond" by (simp add: millisecond_def)
  then have fr: "fl (of_int (m mod 1000 * millisecond)) = of_int (m mod 1000 * millisecond)"
    using fl_of_nat [of "nat (m mod 1000 * millisecond)"] by (simp add: nat_less_iff millisecond_def)
  define r :: rat where "r = of_int (m mod 1000) / 1000"
  have r: "0 \<le> r" "r < 1" using pos_mod_bound [of 1000 m] by (simp_all add: r_def of_int_less_iff [of _ 1000, symmetric])
  have k: "0 \<le> m div 1000" "m div 1000 \<le> 10" using assms by (simp_all add: pos_imp_zdiv_nonneg_iff)
  then have kr: "(0::rat) \<le> of_int (m div 1000)" "of_int (m div 1000) \<le> (10::rat)" by simp_all
  have part: "of_int (m mod 1000 * millisecond) / 1000000000 = r" by (simp add: r_def millisecond_def)
  have "0 \<le> ?d" using assms by (simp add: millisecond_def)
  then have "duration_Seconds ?d = fl (of_int (m div 1000) + fl r)"
    by (simp only: duration_Seconds_eq q fq fr part)
  moreover have err: "\<bar>fl x - x\<bar> \<le> 1 / 10000" if "0 \<le> x" "x < 16" for x
    using fl_error [OF that] by (rule order_trans) simp
  then have e1: "\<bar>fl r - r\<bar> \<le> 1 / 10000" using r by simp
  moreover have "of_int (m div 1000) + fl r < 16" using kr r e1 by linarith
  then have "\<bar>fl (of_int (m div 1000) + fl r) - (of_int (m div 1000) + fl r)\<bar> \<le> 1 / 10000"
    using kr fl_nonneg [OF r(1)] by (intro err) auto
  moreover have "of_int m / 1000 = of_int (m div 1000) + r"
  proof -
    have "(of_int m :: rat) = of_int (1000 * (m div 1000) + m mod 1000)" by simp
    also have "\<dots> = 1000 * of_int (m div 1000) + of_int (m mod 1000)" by (simp only: of_int_add of_int_mult of_int_numeral)
    finally show ?thesis by (simp add: r_def)
  qed
  ultimately show ?thesis using e1 by linarith
qed

lemma latencyBucketBounds_ms: "b \<in> set latencyBucketBounds \<Longrightarrow> \<exists>m. b = m * millisecond \<and> 0 < m \<and> m \<le> 10000"
  unfolding latencyBucketBounds_eq by auto

lemma bound_seconds_inj: "inj_on duration_Seconds (set latencyBucketBounds)"
proof (rule inj_onI)
  fix a b assume ab: "a \<in> set latencyBucketBounds" "b \<in> set latencyBucketBounds" "duration_Seconds a = duration_Seconds b"
  obtain m n where mn: "a = m * millisecond" "0 < m" "m \<le> 10000" "b = n * millisecond" "0 < n" "n \<le> 10000"
    using ab latencyBucketBounds_ms by meson
  have "\<bar>of_int m / 1000 - of_int n / 1000 :: rat\<bar> \<le> 1 / 2500"
    using seconds_of_bound [OF mn(2,3)] seconds_of_bound [OF mn(5,6)] ab(3) [unfolded mn(1,4)] by linarith
  then have "(of_int m :: rat) - of_int n < 1" "(of_int n :: rat) - of_int m < 1" by linarith+
  then have "\<bar>of_int (m - n) :: rat\<bar> < 1" by (simp add: abs_less_iff)
  then have "m = n" by (simp flip: of_int_abs)
  with mn show "a = b" by simp
qed

lemma snapshot_bounds:
  assumes "hist_rep h ls"
  shows "map UpperBoundSeconds (hs_Buckets (metricsSnapshot h)) = map duration_Seconds latencyBucketBounds"
proof (rule nth_equalityI)
  have "length (hs_Buckets (metricsSnapshot h)) = length latencyBucketBounds"
    using assms by (simp add: metricsSnapshot_def hist_rep_def buckets_loop_length del: upt_Suc)
  then show "length (map UpperBoundSeconds (hs_Buckets (metricsSnapshot h))) = length (map duration_Seconds latencyBucketBounds)"
    by simp
  show "map UpperBoundSeconds (hs_Buckets (metricsSnapshot h)) ! i = map duration_Seconds latencyBucketBounds ! i"
    if "i < length (map UpperBoundSeconds (hs_Buckets (metricsSnapshot h)))" for i
    using that \<open>length _ = length latencyBucketBounds\<close> metricsSnapshot_nth [OF assms] by simp
qed

lemma hist_sum_exact:
  assumes "hist_rep h ls" and "sum_list ls < 2 ^ 63"
  shows "lh_sum h = sum_list ls" "0 \<le> sum_list ls"
proof -
  show "0 \<le> sum_list ls" using assms(1) by (intro sum_list_nonneg) (simp add: hist_rep_def)
  then show "lh_sum h = sum_list ls" using assms by (simp add: hist_rep_def wrap64_small)
qed

lemma run_snapshot_ok:
  assumes "hist_rep (rs_latency s) ls" and "sum_list ls < 2 ^ 63"
  shows "snapshot_ok (Sample_Metrics (stats_sample s now) runActive)"
proof -
  have "0 \<le> lh_sum (rs_latency s)" using hist_sum_exact [OF assms] by simp
  moreover have "distinct (map duration_Seconds latencyBucketBounds)"
    using latencyBucketBounds_sorted bound_seconds_inj by (simp add: distinct_map strict_sorted_iff)
  moreover have "list_all is_float (map duration_Seconds latencyBucketBounds)"
    using latencyBucketBounds_pos by (auto simp: list_all_iff intro!: is_float_duration less_imp_le)
  ultimately show ?thesis
    by (simp add: snapshot_ok_def Sample_Metrics_def stats_sample_def sampleLocked_def snapshot_bounds [OF assms(1)]
        is_float_duration is_float_rate is_float_elapsed)
qed

text \<open>
  C7. A scraper that reads the metrics page of a run, taken at any moment of it, gets exact
  figures: whether a run is active, the clients, the number of operations measured after
  the warm-up and of those that failed, for every latency bound the number of operations
  at most that slow, and under \<open>+Inf\<close> and \<open>_count\<close> all of them; every printed
  floating-point number is read back as the very number of the sample.
\<close>
theorem scraped_page_reports_run:
  assumes "length calls < 2 ^ 64"
    and "sum_list (map (clamp0 \<circ> op_latency) (measured_in (startedAt + warmup) calls)) < 2 ^ 63"
  shows "let ops = measured_in (startedAt + warmup) calls;
             x = stats_sample (stats_after startedAt warmup clients calls) now;
             page = fst (WritePrometheus buffer (Sample_Metrics x runActive) []);
             int_of = (\<lambda>name. map_option read_int (scrape page name));
             nat_of = (\<lambda>name. map_option read_digits (scrape page name));
             float_of = (\<lambda>name. map_option ParseFloat (scrape page name))
         in int_of ''pg_gobench_run_active'' = Some (if runActive then 1 else 0)
          \<and> float_of ''pg_gobench_run_duration_seconds'' = Some (sa_ElapsedSeconds x)
          \<and> int_of ''pg_gobench_configured_clients'' = Some (sa_ConfiguredClients x)
          \<and> int_of ''pg_gobench_active_clients'' = Some (sa_ActiveClients x)
          \<and> nat_of ''pg_gobench_operations_total'' = Some (length ops)
          \<and> nat_of ''pg_gobench_operation_errors_total'' = Some (length (filter op_failed ops))
          \<and> float_of ''pg_gobench_tps'' = Some (ratePerSecond (of_nat (length ops)) (sa_ElapsedSeconds x))
          \<and> (\<forall>bound \<in> set latencyBucketBounds.
                nat_of (bucket_series (FormatFloat (duration_Seconds bound))) =
                  Some (length (filter (\<lambda>r. clamp0 (op_latency r) \<le> bound) ops)))
          \<and> nat_of (bucket_series ''+Inf'') = Some (length ops)
          \<and> nat_of ''pg_gobench_operation_latency_seconds_count'' = Some (length ops)
          \<and> float_of ''pg_gobench_operation_latency_seconds_sum'' =
              Some (duration_Seconds (sum_list (map (clamp0 \<circ> op_latency) ops)))"
proof -
  let ?ops = "measured_in (startedAt + warmup) calls" and ?s = "stats_after startedAt warmup clients calls"
  let ?ls = "map (clamp0 \<circ> op_latency) ?ops"
  define m where "m = Sample_Metrics (stats_sample ?s now) runActive"
  have rep: "stats_rep (startedAt + warmup) ?ops ?s" using assms(1) by (rule stats_rep_after)
  then have hist: "hist_rep (rs_latency ?s) ?ls" by (simp add: stats_rep_def)
  have len: "length ?ops < 2 ^ 64" using measured_in_length [of "startedAt + warmup" calls] assms(1) by linarith
  have ok: "snapshot_ok m" unfolding m_def by (rule run_snapshot_ok [OF hist assms(2)])
  note ints = scrape_values(1) [OF ok] and nats = scrape_values(2) [OF ok] and floats = scrape_values(3) [OF ok]
  have sum: "lh_sum (rs_latency ?s) = sum_list ?ls" by (rule hist_sum_exact [OF hist assms(2)])
  have counts: "unat (of_nat (length ?ops) :: u64) = length ?ops"
    "unat (of_nat (length (filter P ?ops)) :: u64) = length (filter P ?ops)" for P
    using unat_of_nat_u64 [OF len] unat_count [OF len] by simp_all
  have stats: "rs_totalOperations ?s = of_nat (length ?ops)" "rs_failedOperations ?s = of_nat (length (filter op_failed ?ops))"
    "lh_total (rs_latency ?s) = of_nat (length ?ops)"
    using rep hist by (simp_all add: stats_rep_def hist_rep_def)
  have fields: "ms_RunActive m = runActive" "ms_RunDurationSeconds m = sa_ElapsedSeconds (stats_sample ?s now)"
    "ms_ConfiguredClients m = sa_ConfiguredClients (stats_sample ?s now)"
    "ms_ActiveClients m = sa_ActiveClients (stats_sample ?s now)"
    "unat (ms_OperationsTotal m) = length ?ops" "unat (ms_OperationErrorsTotal m) = length (filter op_failed ?ops)"
    "ms_TPS m = ratePerSecond (of_nat (length ?ops)) (sa_ElapsedSeconds (stats_sample ?s now))"
    "hs_Buckets (ms_OperationLatency m) = hs_Buckets (metricsSnapshot (rs_latency ?s))"
    "unat (hs_Count (ms_OperationLatency m)) = length ?ops"
    "hs_SumSeconds (ms_OperationLatency m) = duration_Seconds (sum_list ?ls)"
    by (simp_all add: m_def Sample_Metrics_def stats_sample_def sampleLocked_def stats counts sum)
  have bucket: "map_option read_digits (scrape (fst (WritePrometheus buffer m [])) (bucket_series (FormatFloat (duration_Seconds b))))
      = Some (length (filter (\<lambda>r. clamp0 (op_latency r) \<le> b) ?ops))" if b: "b \<in> set latencyBucketBounds" for b
  proof -
    obtain i where i: "i < length latencyBucketBounds" "b = latencyBucketBounds ! i"
      using b by (metis in_set_conv_nth)
    let ?b = "hs_Buckets (metricsSnapshot (rs_latency ?s)) ! i"
    have "?b \<in> set (hs_Buckets (ms_OperationLatency m))"
      unfolding fields using i(1) snapshot_bounds [OF hist] by (metis length_map nth_mem)
    from nats [OF page_series_in(8) [OF this]] show ?thesis
      unfolding metricsSnapshot_nth [OF hist i(1)] by (simp add: i(2) filter_map comp_def counts)
  qed
  have float: "is_float (ms_RunDurationSeconds m)" "is_float (ms_TPS m)" "is_float (hs_SumSeconds (ms_OperationLatency m))"
    using ok by (simp_all add: snapshot_ok_def)
  note scraped = ints [OF page_series_in(1)] floats [OF page_series_in(2) float(1)] ints [OF page_series_in(3)]
    ints [OF page_series_in(4)] nats [OF page_series_in(5)] nats [OF page_series_in(6)]
    floats [OF page_series_in(7) float(2)] nats [OF page_series_in(9)] nats [OF page_series_in(10)]
    floats [OF page_series_in(11) float(3)]
  show ?thesis
    unfolding Let_def m_def [symmetric]
    by (intro conjI ballI bucket scraped [unfolded fields boolGaugeValue_def])
qed

text \<open>Two operations after the warm-up, of 1.5 and 3 milliseconds, the second one failed.\<close>

definition demo_calls :: "stats_call list" where
  "demo_calls = [CallWorkerStarted, CallRecord 4 1500000 5 None, CallRecord 4 1500000 15 None,
     CallRecord 7 3000000 20 (Some (Errorf ''busy''))]"

theorem scraped_page_reports_run_witness:
  "let page = fst (WritePrometheus buffer (Sample_Metrics (stats_sample (stats_after 0 10 1 demo_calls) 30) True) [])
   in map_option read_digits (scrape page ''pg_gobench_operations_total'') = Some 2
    \<and> map_option read_digits (scrape page ''pg_gobench_operation_errors_total'') = Some 1
    \<and> map_option read_digits (scrape page (bucket_series (FormatFloat (duration_Seconds 2000000)))) = Some 1"
proof -
  have "latencyBucketBounds ! 1 = 2000000" "1 < length latencyBucketBounds"
    by (simp_all add: latencyBucketBounds_nth latencyBucketBounds_length millisecond_def)
  then have "2000000 \<in> set latencyBucketBounds" by (metis nth_mem)
  then show ?thesis
    using scraped_page_reports_run [of demo_calls 0 10 1 30 True]
    unfolding Let_def by (auto simp: demo_calls_def clamp0_def)
qed

end
