(* ===== verification/Http_Server.thy ===== *)
theory Http_Server
  imports Coordinator Metrics_Text
begin

text \<open>
  The HTTP control plane, \<open>internal/httpserver/server.go\<close>: the route table, the wrapper that
  answers preflight requests and sets the headers for browsers, the eight handlers and the
  helpers that write responses.

  A request carries its method, path, body and the error of its context. The
  \<open>http.ResponseWriter\<close> of an exchange holds the headers, the status once it is written, the
  connection and what was logged; headers set after the status was written have no effect,
  and only the first status counts. \<open>encoding/json\<close>, the connection and what the multiplexer
  does with a path that is not registered are parameters. The benchmark behind the
  interface \<open>Benchmark\<close> is a record of operations over a state.
\<close>

section \<open>Requests and responses\<close>

record 'b request =
  rq_Method :: string
  rq_Path :: string
  rq_Body :: 'b
  rq_ctx_err :: "goerror option"

datatype payload =
    statusResponse string
  | errorResponse string
  | statePayload State
  | resultsPayload Results

record 'c exchange =
  ex_header :: "string \<rightharpoonup> string"
  ex_status :: "int option"
  ex_conn :: 'c
  ex_log :: "string list"

record ('b, 'c) lib =
  lib_write :: "'c writer"
  lib_Encode :: "payload \<Rightarrow> goerror + string"
  lib_decodeStart :: "'b \<Rightarrow> (goerror + startPayload) \<times> 'b"
  lib_decodeAlter :: "'b \<Rightarrow> (goerror + AlterOptions) \<times> 'b"
  lib_trailing :: "'b \<Rightarrow> goerror option"

record 's Benchmark =
  bm_Start :: "goerror option \<Rightarrow> StartOptions \<Rightarrow> 's \<Rightarrow> 's \<times> State \<times> goerror option"
  bm_Alter :: "AlterOptions \<Rightarrow> 's \<Rightarrow> 's \<times> State \<times> goerror option"
  bm_Stop :: "'s \<Rightarrow> 's \<times> State \<times> goerror option"
  bm_State :: "'s \<Rightarrow> State"
  bm_Results :: "'s \<Rightarrow> Results"
  bm_Metrics :: "'s \<Rightarrow> MetricsSnapshot"

record 's handler =
  h_benchmark :: "'s Benchmark option"
  h_ready :: "('s \<Rightarrow> goerror option) option"

type_synonym ('b, 's, 'c) handle = "'b request \<Rightarrow> 's \<Rightarrow> 'c exchange \<Rightarrow> 's \<times> 'c exchange"

record ('b, 's, 'c) routeSpec =
  rt_path :: string
  rt_method :: string
  rt_handler :: "('b, 's, 'c) handle"

definition MethodGet :: string where "MethodGet = ''GET''"
definition MethodPost :: string where "MethodPost = ''POST''"
definition MethodOptions :: string where "MethodOptions = ''OPTIONS''"

lemmas method_defs = MethodGet_def MethodPost_def MethodOptions_def

text \<open>The methods of the response writer.\<close>

definition set_header :: "string \<Rightarrow> string \<Rightarrow> 'c exchange \<Rightarrow> 'c exchange" where
  "set_header key val ex = (if ex_status ex = None then ex\<lparr>ex_header := (ex_header ex)(key \<mapsto> val)\<rparr> else ex)"

definition WriteHeader :: "int \<Rightarrow> 'c exchange \<Rightarrow> 'c exchange" where
  "WriteHeader status ex = (if ex_status ex = None then ex\<lparr>ex_status := Some status\<rparr> else ex)"

definition ex_write :: "('b, 'c) lib \<Rightarrow> 'c exchange writer" where
  "ex_write lib txt ex = (case lib_write lib txt (ex_conn ex) of (c, err) \<Rightarrow> (ex\<lparr>ex_conn := c\<rparr>, err))"

text \<open>\<open>if err := ...; err != nil { log.Printf("label: %v", err) }\<close>.\<close>

definition log_error :: "string \<Rightarrow> 'c exchange \<times> goerror option \<Rightarrow> 'c exchange" where
  "log_error label r =
     (case r of (ex, None) \<Rightarrow> ex | (ex, Some err) \<Rightarrow> ex\<lparr>ex_log := ex_log ex @ [label @ '': '' @ error_text err]\<rparr>)"

section \<open>Helpers\<close>

definition writeJSON :: "('b, 'c) lib \<Rightarrow> int \<Rightarrow> payload \<Rightarrow> 'c exchange \<Rightarrow> 'c exchange \<times> goerror option" where
  "writeJSON lib status payload ex =
     (let ex = set_header ''Content-Type'' ''application/json'' ex;
          ex = WriteHeader status ex
      in case lib_Encode lib payload of
           Inl err \<Rightarrow> (ex, Some (Wrap ''encode JSON response'' err))
         | Inr txt \<Rightarrow> wrapE ''encode JSON response'' (ex_write lib txt ex))"

definition writeError :: "('b, 'c) lib \<Rightarrow> int \<Rightarrow> goerror \<Rightarrow> 'c exchange \<Rightarrow> 'c exchange \<times> goerror option" where
  "writeError lib status err = writeJSON lib status (errorResponse (error_text err))"

definition statusForBenchmarkError :: "goerror \<Rightarrow> int" where
  "statusForBenchmarkError err =
     (if errors_Is err ErrRunActive \<or> errors_Is err ErrRunNotRunning then 409 else 500)"

definition allowMethod :: "('b, 'c) lib \<Rightarrow> 'b request \<Rightarrow> string \<Rightarrow> 'c exchange \<Rightarrow> 'c exchange \<times> bool" where
  "allowMethod lib rq want ex =
     (if rq_Method rq = want then (ex, True)
      else
        (let ex = set_header ''Allow'' want ex
         in (log_error ''write method-not-allowed response''
               (writeError lib 405 (Errorf (''method '' @ rq_Method rq @ '' not allowed'')) ex), False)))"

definition allowedMethodsList :: "string \<Rightarrow> string" where
  "allowedMethodsList method = strings_Join [method, MethodOptions] '', ''"

definition setBrowserAccessHeaders :: "string \<Rightarrow> 'c exchange \<Rightarrow> 'c exchange" where
  "setBrowserAccessHeaders method ex =
     set_header ''Access-Control-Allow-Methods'' (allowedMethodsList method)
       (set_header ''Access-Control-Allow-Headers'' ''Content-Type''
         (set_header ''Access-Control-Allow-Origin'' ''*'' ex))"

section \<open>Handlers\<close>

definition handleHealthz :: "('b, 'c) lib \<Rightarrow> ('b, 's, 'c) handle" where
  "handleHealthz lib rq s ex =
     (case allowMethod lib rq MethodGet ex of
        (ex, False) \<Rightarrow> (s, ex)
      | (ex, True) \<Rightarrow> (s, log_error ''write /healthz response'' (writeJSON lib 200 (statusResponse ''ok'') ex)))"

definition handleReadyz :: "('b, 'c) lib \<Rightarrow> 's handler \<Rightarrow> ('b, 's, 'c) handle" where
  "handleReadyz lib h rq s ex =
     (case allowMethod lib rq MethodGet ex of
        (ex, False) \<Rightarrow> (s, ex)
      | (ex, True) \<Rightarrow>
          (case h_ready h of
             None \<Rightarrow> (s, log_error ''write /readyz error response''
               (writeError lib 500 (Errorf ''readiness probe unavailable'') ex))
           | Some ready \<Rightarrow>
               (case ready s of
                  Some err \<Rightarrow> (s, log_error ''write /readyz failure response'' (writeError lib 503 err ex))
                | None \<Rightarrow> (s, log_error ''write /readyz response'' (writeJSON lib 200 (statusResponse ''ok'') ex)))))"

text \<open>The guards of the handlers that need the benchmark; \<open>path\<close> is the path in the log lines.\<close>

definition with_benchmark ::
  "('b, 'c) lib \<Rightarrow> 's handler \<Rightarrow> string \<Rightarrow> string \<Rightarrow> ('s Benchmark \<Rightarrow> ('b, 's, 'c) handle) \<Rightarrow> ('b, 's, 'c) handle" where
  "with_benchmark lib h want path body rq s ex =
     (case allowMethod lib rq want ex of
        (ex, False) \<Rightarrow> (s, ex)
      | (ex, True) \<Rightarrow>
          (case h_benchmark h of
             None \<Rightarrow> (s, log_error (''write '' @ path @ '' error response'')
               (writeError lib 500 (Errorf ''benchmark controller unavailable'') ex))
           | Some b \<Rightarrow> body b rq s ex))"

text \<open>What the handlers write after a call that returned a state and an error.\<close>

definition write_outcome ::
  "('b, 'c) lib \<Rightarrow> string \<Rightarrow> 's \<times> State \<times> goerror option \<Rightarrow> 'c exchange \<Rightarrow> 's \<times> 'c exchange" where
  "write_outcome lib path r ex =
     (case r of
        (s, state, Some err) \<Rightarrow>
          (s, log_error (''write '' @ path @ '' failure response'') (writeError lib (statusForBenchmarkError err) err ex))
      | (s, state, None) \<Rightarrow>
          (s, log_error (''write '' @ path @ '' response'') (writeJSON lib 200 (statePayload state) ex)))"

definition handleBenchmark :: "('b, 'c) lib \<Rightarrow> 's handler \<Rightarrow> ('b, 's, 'c) handle" where
  "handleBenchmark lib h = with_benchmark lib h MethodGet ''/benchmark'' (\<lambda>b rq s ex.
     (s, log_error ''write /benchmark response'' (writeJSON lib 200 (statePayload (bm_State b s)) ex)))"

definition handleBenchmarkResults :: "('b, 'c) lib \<Rightarrow> 's handler \<Rightarrow> ('b, 's, 'c) handle" where
  "handleBenchmarkResults lib h = with_benchmark lib h MethodGet ''/benchmark/results'' (\<lambda>b rq s ex.
     (s, log_error ''write /benchmark/results response'' (writeJSON lib 200 (resultsPayload (bm_Results b s)) ex)))"

definition handleBenchmarkStart :: "('b, 'c) lib \<Rightarrow> 's handler \<Rightarrow> ('b, 's, 'c) handle" where
  "handleBenchmarkStart lib h = with_benchmark lib h MethodPost ''/benchmark/start'' (\<lambda>b rq s ex.
     case DecodeStartOptions (lib_decodeStart lib) (lib_trailing lib) (rq_Body rq) of
       Inl err \<Rightarrow> (s, log_error ''write /benchmark/start decode error response'' (writeError lib 400 err ex))
     | Inr options \<Rightarrow> write_outcome lib ''/benchmark/start'' (bm_Start b (rq_ctx_err rq) options s) ex)"

definition handleBenchmarkAlter :: "('b, 'c) lib \<Rightarrow> 's handler \<Rightarrow> ('b, 's, 'c) handle" where
  "handleBenchmarkAlter lib h = with_benchmark lib h MethodPost ''/benchmark/alter'' (\<lambda>b rq s ex.
     case DecodeAlterOptions (lib_decodeAlter lib) (lib_trailing lib) (rq_Body rq) of
       Inl err \<Rightarrow> (s, log_error ''write /benchmark/alter decode error response'' (writeError lib 400 err ex))
     | Inr options \<Rightarrow> write_outcome lib ''/benchmark/alter'' (bm_Alter b options s) ex)"

definition handleBenchmarkStop :: "('b, 'c) lib \<Rightarrow> 's handler \<Rightarrow> ('b, 's, 'c) handle" where
  "handleBenchmarkStop lib h = with_benchmark lib h MethodPost ''/benchmark/stop'' (\<lambda>b rq s ex.
     write_outcome lib ''/benchmark/stop'' (bm_Stop b s) ex)"

definition handleMetrics :: "('b, 'c) lib \<Rightarrow> 's handler \<Rightarrow> ('b, 's, 'c) handle" where
  "handleMetrics lib h = with_benchmark lib h MethodGet ''/metrics'' (\<lambda>b rq s ex.
     let ex = set_header ''Content-Type'' PrometheusContentType ex;
         ex = WriteHeader 200 ex
     in (s, log_error ''write /metrics response'' (WritePrometheus (ex_write lib) (bm_Metrics b s) ex)))"

section \<open>Routes\<close>

definition routes :: "('b, 'c) lib \<Rightarrow> 's handler \<Rightarrow> ('b, 's, 'c) routeSpec list" where
  "routes lib h =
     [\<lparr>rt_path = ''/healthz'', rt_method = MethodGet, rt_handler = handleHealthz lib\<rparr>,
      \<lparr>rt_path = ''/readyz'', rt_method = MethodGet, rt_handler = handleReadyz lib h\<rparr>,
      \<lparr>rt_path = ''/benchmark'', rt_method = MethodGet, rt_handler = handleBenchmark lib h\<rparr>,
      \<lparr>rt_path = ''/benchmark/results'', rt_method = MethodGet, rt_handler = handleBenchmarkResults lib h\<rparr>,
      \<lparr>rt_path = ''/benchmark/start'', rt_method = MethodPost, rt_handler = handleBenchmarkStart lib h\<rparr>,
      \<lparr>rt_path = ''/benchmark/alter'', rt_method = MethodPost, rt_handler = handleBenchmarkAlter lib h\<rparr>,
      \<lparr>rt_path = ''/benchmark/stop'', rt_method = MethodPost, rt_handler = handleBenchmarkStop lib h\<rparr>,
      \<lparr>rt_path = ''/metrics'', rt_method = MethodGet, rt_handler = handleMetrics lib h\<rparr>]"

text \<open>The multiplexer calls the handler registered for exactly this path.\<close>

definition mux_ServeHTTP :: "('b, 's, 'c) handle \<Rightarrow> ('b, 's, 'c) routeSpec list \<Rightarrow> ('b, 's, 'c) handle" where
  "mux_ServeHTTP fallback rs rq s ex =
     (case find (\<lambda>route. rt_path route = rq_Path rq) rs of
        Some route \<Rightarrow> rt_handler route rq s ex
      | None \<Rightarrow> fallback rq s ex)"

definition allowedMethods :: "('b, 's, 'c) routeSpec list \<Rightarrow> string \<rightharpoonup> string" where
  "allowedMethods rs = foldl (\<lambda>m route. m(rt_path route \<mapsto> rt_method route)) Map.empty rs"

definition newBrowserCompatibleHandler ::
  "('b, 's, 'c) handle \<Rightarrow> ('b, 's, 'c) routeSpec list \<Rightarrow> ('b, 's, 'c) handle" where
  "newBrowserCompatibleHandler next_ServeHTTP rs rq s ex =
     (case allowedMethods rs (rq_Path rq) of
        None \<Rightarrow> next_ServeHTTP rq s ex
      | Some method \<Rightarrow>
          (let ex = setBrowserAccessHeaders method ex in
           if rq_Method rq = MethodOptions
           then (s, WriteHeader 204 (set_header ''Allow'' (allowedMethodsList method) ex))
           else next_ServeHTTP rq s ex))"

definition serve :: "('b, 'c) lib \<Rightarrow> 's handler \<Rightarrow> ('b, 's, 'c) handle \<Rightarrow> ('b, 's, 'c) handle" where
  "serve lib h fallback = newBrowserCompatibleHandler (mux_ServeHTTP fallback (routes lib h)) (routes lib h)"

section \<open>What the response writer keeps\<close>

lemma set_header_simps [simp]:
  "ex_status (set_header k v ex) = ex_status ex" "ex_conn (set_header k v ex) = ex_conn ex"
  "ex_status ex = None \<Longrightarrow> ex_header (set_header k v ex) = (ex_header ex)(k \<mapsto> v)"
  by (simp_all add: set_header_def)

lemma WriteHeader_simps [simp]:
  "ex_header (WriteHeader c ex) = ex_header ex" "ex_conn (WriteHeader c ex) = ex_conn ex"
  "ex_status ex = None \<Longrightarrow> ex_status (WriteHeader c ex) = Some c"
  by (simp_all add: WriteHeader_def)

lemma ex_write_simps [simp]:
  "ex_header (fst (ex_write lib txt ex)) = ex_header ex" "ex_status (fst (ex_write lib txt ex)) = ex_status ex"
  by (simp_all add: ex_write_def split: prod.splits)

lemma log_error_simps [simp]:
  "ex_header (log_error label r) = ex_header (fst r)" "ex_status (log_error label r) = ex_status (fst r)"
  "ex_conn (log_error label r) = ex_conn (fst r)"
  by (simp_all add: log_error_def split: prod.splits option.splits)

lemma wrapE_fst [simp]: "fst (wrapE label m) = fst m"
  by (simp add: wrapE_def)

lemma write_all_simps [simp]:
  "ex_header (fst (write_all (ex_write lib) ls ex)) = ex_header ex"
  "ex_status (fst (write_all (ex_write lib) ls ex)) = ex_status ex"
proof -
  have "ex_header (fst (write_all (ex_write lib) ls ex)) = ex_header ex
      \<and> ex_status (fst (write_all (ex_write lib) ls ex)) = ex_status ex"
  proof (induction ls arbitrary: ex)
    case (Cons l ls)
    obtain label tx where l: "l = (label, tx)" by (cases l)
    let ?r = "wrapE (''write '' @ label @ '' metric'') (ex_write lib tx ex)"
    have "ex_header (fst ?r) = ex_header ex" "ex_status (fst ?r) = ex_status ex" by simp_all
    with Cons.IH [of "fst ?r"] show ?case
      unfolding l by (simp add: seqE_alt)
  qed simp
  then show "ex_header (fst (write_all (ex_write lib) ls ex)) = ex_header ex"
    "ex_status (fst (write_all (ex_write lib) ls ex)) = ex_status ex" by simp_all
qed

text \<open>A written response: its status, and the headers with the content type.\<close>

definition answered :: "int \<Rightarrow> 'c exchange \<Rightarrow> 'c exchange \<Rightarrow> bool" where
  "answered code ex ex' \<longleftrightarrow> ex_status ex' = Some code \<and> (\<exists>ct. ex_header ex' = (ex_header ex)(''Content-Type'' \<mapsto> ct))"

lemma writeJSON_answers:
  "ex_status ex = None \<Longrightarrow> answered code ex (fst (writeJSON lib code p ex))"
  by (auto simp: writeJSON_def answered_def Let_def split: sum.splits)

lemma writeError_answers:
  "ex_status ex = None \<Longrightarrow> answered code ex (fst (writeError lib code err ex))"
  by (simp add: writeError_def writeJSON_answers)

lemma answered_log [simp]: "answered code ex (log_error label r) = answered code ex (fst r)"
  by (simp add: answered_def)

lemma write_outcome_answers:
  assumes "ex_status ex = None"
  shows "answered (case snd (snd r) of None \<Rightarrow> 200 | Some err \<Rightarrow> statusForBenchmarkError err) ex (snd (write_outcome lib path r ex))"
  using assms by (simp add: write_outcome_def writeJSON_answers writeError_answers split: prod.splits option.splits)

lemma write_outcome_state [simp]: "fst (write_outcome lib path r ex) = fst r"
  by (simp add: write_outcome_def split: prod.splits option.splits)

lemma metrics_answers:
  assumes "ex_status ex = None"
  shows "answered 200 ex (fst (WritePrometheus (ex_write lib) m
    (WriteHeader 200 (set_header ''Content-Type'' PrometheusContentType ex))))"
  using assms by (auto simp: WritePrometheus_lines answered_def)

lemmas answers = writeJSON_answers writeError_answers write_outcome_answers metrics_answers

lemma allowMethod_simps:
  "rq_Method rq = want \<Longrightarrow> allowMethod lib rq want ex = (ex, True)"
  "rq_Method rq \<noteq> want \<Longrightarrow> ex_status ex = None \<Longrightarrow>
     \<exists>ex'. allowMethod lib rq want ex = (ex', False) \<and> answered 405 (set_header ''Allow'' want ex) ex'"
  by (auto simp: allowMethod_def Let_def writeError_answers)

section \<open>The route table\<close>

definition route_table :: "(string \<times> string) list" where
  "route_table =
     [(''/healthz'', MethodGet), (''/readyz'', MethodGet), (''/benchmark'', MethodGet),
      (''/benchmark/results'', MethodGet), (''/benchmark/start'', MethodPost), (''/benchmark/alter'', MethodPost),
      (''/benchmark/stop'', MethodPost), (''/metrics'', MethodGet)]"

lemma route_paths: "map (\<lambda>route. (rt_path route, rt_method route)) (routes lib h) = route_table"
  by (simp add: routes_def route_table_def)

lemma route_paths_distinct: "distinct (map fst route_table)"
  by (simp add: route_table_def)

lemma allowedMethods_fold:
  "foldl (\<lambda>m route. m(rt_path route \<mapsto> rt_method route)) m rs = m ++ map_of (rev (map (\<lambda>route. (rt_path route, rt_method route)) rs))"
  by (induction rs arbitrary: m) (simp_all add: map_add_upd_left fun_upd_def map_add_def fun_eq_iff split: option.splits)

lemma allowedMethods_routes: "allowedMethods (routes lib h) = map_of route_table"
  unfolding allowedMethods_def allowedMethods_fold route_paths
  using map_of_inject_set [of "rev route_table" route_table] route_paths_distinct by (simp add: rev_map [symmetric])

lemma find_route:
  "find (\<lambda>route. rt_path route = p) (routes lib h) = None \<longleftrightarrow> map_of route_table p = None"
  "find (\<lambda>route. rt_path route = p) (routes lib h) = Some route \<Longrightarrow>
     route \<in> set (routes lib h) \<and> map_of route_table p = Some (rt_method route) \<and> rt_path route = p"
proof -
  have "find (\<lambda>route. rt_path route = p) (routes lib h) = None \<longleftrightarrow> p \<notin> fst ` set route_table"
    unfolding find_None_iff route_paths [of lib h, symmetric] set_map image_image by auto
  then show "find (\<lambda>route. rt_path route = p) (routes lib h) = None \<longleftrightarrow> map_of route_table p = None"
    by (simp add: map_of_eq_None_iff)
  assume "find (\<lambda>route. rt_path route = p) (routes lib h) = Some route"
  then have r: "route \<in> set (routes lib h)" "rt_path route = p" by (auto simp: find_Some_iff)
  then have "(p, rt_method route) \<in> set route_table" unfolding route_paths [of lib h, symmetric] by force
  with r route_paths_distinct show "route \<in> set (routes lib h) \<and> map_of route_table p = Some (rt_method route) \<and> rt_path route = p"
    by simp
qed

text \<open>The handler of every route, on its own method and on another one.\<close>

lemma with_benchmark_other:
  assumes "rq_Method rq \<noteq> want" and "ex_status ex = None"
  shows "fst (with_benchmark lib h want path body rq s ex) = s
    \<and> answered 405 (set_header ''Allow'' want ex) (snd (with_benchmark lib h want path body rq s ex))"
  using allowMethod_simps(2) [OF assms, of lib] by (auto simp: with_benchmark_def)

definition handler_codes :: "int set" where
  "handler_codes = {200, 400, 409, 500, 503}"

lemmas handler_defs = handleHealthz_def handleReadyz_def handleBenchmark_def handleBenchmarkResults_def
  handleBenchmarkStart_def handleBenchmarkAlter_def handleBenchmarkStop_def handleMetrics_def

text \<open>One of the codes of the handlers was written.\<close>

definition replied :: "'c exchange \<Rightarrow> 'c exchange \<Rightarrow> bool" where
  "replied ex ex' \<longleftrightarrow> (\<exists>code \<in> handler_codes. answered code ex ex')"

lemma repliedI: "answered code ex ex' \<Longrightarrow> code \<in> handler_codes \<Longrightarrow> replied ex ex'"
  by (auto simp: replied_def)

lemma replied_simps:
  assumes "ex_status ex = None"
  shows "code \<in> handler_codes \<Longrightarrow> replied ex (log_error label (writeJSON lib code p ex))"
    and "code \<in> handler_codes \<Longrightarrow> replied ex (log_error label (writeError lib code err ex))"
    and "replied ex (log_error label (WritePrometheus (ex_write lib) m
      (WriteHeader 200 (set_header ''Content-Type'' PrometheusContentType ex))))"
    and "replied ex (snd (write_outcome lib path r ex))"
proof -
  show "code \<in> handler_codes \<Longrightarrow> replied ex (log_error label (writeJSON lib code p ex))"
    "code \<in> handler_codes \<Longrightarrow> replied ex (log_error label (writeError lib code err ex))"
    by (rule repliedI, simp_all add: answers assms)+
  show "replied ex (log_error label (WritePrometheus (ex_write lib) m
      (WriteHeader 200 (set_header ''Content-Type'' PrometheusContentType ex))))"
    by (rule repliedI [of 200]) (simp_all add: answers assms handler_codes_def)
  show "replied ex (snd (write_outcome lib path r ex))"
    by (rule repliedI [OF write_outcome_answers [OF assms]])
      (simp add: handler_codes_def statusForBenchmarkError_def split: option.splits)
qed

lemma replied_with_benchmark:
  assumes "rq_Method rq = want" and "ex_status ex = None" and "\<And>b. replied ex (snd (body b rq s ex))"
  shows "replied ex (snd (with_benchmark lib h want path body rq s ex))"
  using assms(1,3)
  by (simp add: with_benchmark_def allowMethod_simps(1) replied_simps(2) [OF assms(2)] handler_codes_def split: option.splits)

lemma route_own_method:
  assumes "route \<in> set (routes lib h)" and "rq_Method rq = rt_method route" and "ex_status ex = None"
  shows "replied ex (snd (rt_handler route rq s ex))"
proof -
  have codes: "200 \<in> handler_codes" "400 \<in> handler_codes" "500 \<in> handler_codes" "503 \<in> handler_codes"
    by (simp_all add: handler_codes_def)
  note replies = replied_simps [OF assms(3)]
  have "replied ex (snd (handleHealthz lib rq s ex))" "replied ex (snd (handleReadyz lib h rq s ex))"
    if "rq_Method rq = MethodGet"
    using that by (simp_all add: handleHealthz_def handleReadyz_def allowMethod_simps(1) replies codes split: option.splits)
  moreover have "replied ex (snd (handleBenchmark lib h rq s ex))" "replied ex (snd (handleBenchmarkResults lib h rq s ex))"
    "replied ex (snd (handleMetrics lib h rq s ex))" if "rq_Method rq = MethodGet"
    using that unfolding handleBenchmark_def handleBenchmarkResults_def handleMetrics_def Let_def
    by (auto intro!: replied_with_benchmark assms(3) simp: replies codes)
  moreover have "replied ex (snd (handleBenchmarkStart lib h rq s ex))" "replied ex (snd (handleBenchmarkAlter lib h rq s ex))"
    "replied ex (snd (handleBenchmarkStop lib h rq s ex))" if "rq_Method rq = MethodPost"
    using that unfolding handleBenchmarkStart_def handleBenchmarkAlter_def handleBenchmarkStop_def
    by (auto intro!: replied_with_benchmark assms(3) simp: replies codes split: sum.splits)
  ultimately show ?thesis using assms(1,2) by (auto simp: routes_def)
qed

lemma route_other_method:
  assumes "route \<in> set (routes lib h)" and "rq_Method rq \<noteq> rt_method route" and "ex_status ex = None"
  shows "fst (rt_handler route rq s ex) = s
    \<and> answered 405 (set_header ''Allow'' (rt_method route) ex) (snd (rt_handler route rq s ex))"
proof -
  note other = with_benchmark_other [OF _ assms(3)]
  obtain ex1 where ex1: "rq_Method rq \<noteq> MethodGet \<Longrightarrow> allowMethod lib rq MethodGet ex = (ex1, False)"
    "rq_Method rq \<noteq> MethodGet \<Longrightarrow> answered 405 (set_header ''Allow'' MethodGet ex) ex1"
    using allowMethod_simps(2) [OF _ assms(3)] by blast
  show ?thesis using assms(1,2) unfolding routes_def
    by (auto simp: handler_defs other ex1)
qed

lemma allowMethod_other: "rq_Method rq \<noteq> want \<Longrightarrow> snd (allowMethod lib rq want ex) = False"
  by (simp add: allowMethod_def Let_def)

lemma with_benchmark_state:
  "fst (with_benchmark lib h want path body rq s ex) =
     (if rq_Method rq = want then (case h_benchmark h of None \<Rightarrow> s | Some b \<Rightarrow> fst (body b rq s ex)) else s)"
  using allowMethod_other [of rq want lib ex]
  by (auto simp: with_benchmark_def allowMethod_simps(1) split: option.splits prod.splits bool.splits)

lemma reading_handlers:
  "fst (handleHealthz lib rq s ex) = s" "fst (handleReadyz lib h rq s ex) = s" "fst (handleBenchmark lib h rq s ex) = s"
  "fst (handleBenchmarkResults lib h rq s ex) = s" "fst (handleMetrics lib h rq s ex) = s"
  by (simp_all add: handler_defs with_benchmark_state Let_def split: option.splits prod.splits bool.splits)

text \<open>The state after any request.\<close>

definition request_state :: "('b, 'c) lib \<Rightarrow> 's handler \<Rightarrow> 'b request \<Rightarrow> 's \<Rightarrow> 's" where
  "request_state lib h rq s =
     (case h_benchmark h of
        None \<Rightarrow> s
      | Some b \<Rightarrow>
          (if rq_Method rq \<noteq> MethodPost then s
           else if rq_Path rq = ''/benchmark/start'' then
             (case DecodeStartOptions (lib_decodeStart lib) (lib_trailing lib) (rq_Body rq) of
                Inl err \<Rightarrow> s | Inr options \<Rightarrow> fst (bm_Start b (rq_ctx_err rq) options s))
           else if rq_Path rq = ''/benchmark/alter'' then
             (case DecodeAlterOptions (lib_decodeAlter lib) (lib_trailing lib) (rq_Body rq) of
                Inl err \<Rightarrow> s | Inr options \<Rightarrow> fst (bm_Alter b options s))
           else if rq_Path rq = ''/benchmark/stop'' then fst (bm_Stop b s) else s))"

lemma control_handlers:
  "rq_Path rq = ''/benchmark/start'' \<Longrightarrow> fst (handleBenchmarkStart lib h rq s ex) = request_state lib h rq s"
  "rq_Path rq = ''/benchmark/alter'' \<Longrightarrow> fst (handleBenchmarkAlter lib h rq s ex) = request_state lib h rq s"
  "rq_Path rq = ''/benchmark/stop'' \<Longrightarrow> fst (handleBenchmarkStop lib h rq s ex) = request_state lib h rq s"
  by (simp_all add: handler_defs with_benchmark_state request_state_def split: option.splits sum.splits)

lemma request_state_others:
  "rq_Path rq \<noteq> ''/benchmark/start'' \<Longrightarrow> rq_Path rq \<noteq> ''/benchmark/alter'' \<Longrightarrow> rq_Path rq \<noteq> ''/benchmark/stop'' \<Longrightarrow>
   request_state lib h rq s = s"
  by (simp add: request_state_def split: option.splits)

lemma route_state:
  "route \<in> set (routes lib h) \<Longrightarrow> rq_Path rq = rt_path route \<Longrightarrow> fst (rt_handler route rq s ex) = request_state lib h rq s"
  unfolding routes_def
  by (auto simp: reading_handlers control_handlers request_state_others)

section \<open>What a client sees\<close>

definition fresh :: "'c \<Rightarrow> 'c exchange" where
  "fresh conn = \<lparr>ex_header = Map.empty, ex_status = None, ex_conn = conn, ex_log = []\<rparr>"

lemma browser_headers:
  assumes "ex = setBrowserAccessHeaders m (fresh conn)"
  shows "ex_status ex = None" "ex_conn ex = conn" "ex_header ex ''Access-Control-Allow-Origin'' = Some ''*''"
    "ex_header ex ''Access-Control-Allow-Headers'' = Some ''Content-Type''"
    "ex_header ex ''Access-Control-Allow-Methods'' = Some (m @ '', OPTIONS'')" "ex_header ex ''Allow'' = None"
  by (simp_all add: assms setBrowserAccessHeaders_def fresh_def allowedMethodsList_def method_defs)

lemma serve_registered:
  assumes "map_of route_table (rq_Path rq) = Some m" and "rq_Method rq \<noteq> MethodOptions"
  obtains route where "route \<in> set (routes lib h)" "rt_path route = rq_Path rq" "rt_method route = m"
    "serve lib h fallback rq s ex = rt_handler route rq s (setBrowserAccessHeaders m ex)"
proof -
  obtain route where route: "find (\<lambda>route. rt_path route = rq_Path rq) (routes lib h) = Some route"
    using assms(1) find_route(1) [of "rq_Path rq" lib h] by fastforce
  from find_route(2) [OF this] assms have r: "route \<in> set (routes lib h)" "rt_path route = rq_Path rq" "rt_method route = m"
    by auto
  have "serve lib h fallback rq s ex = rt_handler route rq s (setBrowserAccessHeaders m ex)"
    using assms route by (simp add: serve_def newBrowserCompatibleHandler_def allowedMethods_routes mux_ServeHTTP_def Let_def)
  with r show thesis by (rule that)
qed

lemma serve_state:
  assumes "\<And>rq s ex. fst (fallback rq s ex) = s"
  shows "fst (serve lib h fallback rq s ex) = request_state lib h rq s"
proof (cases "map_of route_table (rq_Path rq)")
  case None
  then have "rq_Path rq \<noteq> ''/benchmark/start''" "rq_Path rq \<noteq> ''/benchmark/alter''" "rq_Path rq \<noteq> ''/benchmark/stop''"
    by (auto simp: route_table_def)
  then have "request_state lib h rq s = s" by (rule request_state_others)
  with None find_route(1) [of "rq_Path rq" lib h] show ?thesis
    by (simp add: serve_def newBrowserCompatibleHandler_def allowedMethods_routes mux_ServeHTTP_def assms)
next
  case (Some m)
  show ?thesis
  proof (cases "rq_Method rq = MethodOptions")
    case True
    then have "request_state lib h rq s = s" by (simp add: request_state_def method_defs split: option.splits)
    with True Some show ?thesis
      by (simp add: serve_def newBrowserCompatibleHandler_def allowedMethods_routes Let_def)
  next
    case False
    from serve_registered [OF Some this, of lib h fallback s ex] show ?thesis by (metis route_state)
  qed
qed

text \<open>
  C12. Every request for one of the eight paths is answered, whatever the state and the
  connection: a preflight request gets 204 and leaves the benchmark alone, a method other
  than the one of the path gets 405 with that method under \<open>Allow\<close> and leaves the benchmark
  alone, and the proper method gets 200, 400, 409, 500 or 503. Each of these responses
  carries the headers that let a browser on another origin use it.
\<close>
theorem every_request_answered:
  assumes "map_of route_table (rq_Path rq) = Some m"
  shows "let (s', ex) = serve lib h fallback rq s (fresh conn) in
      ex_header ex ''Access-Control-Allow-Origin'' = Some ''*''
    \<and> ex_header ex ''Access-Control-Allow-Headers'' = Some ''Content-Type''
    \<and> ex_header ex ''Access-Control-Allow-Methods'' = Some (m @ '', OPTIONS'')
    \<and> (if rq_Method rq = MethodOptions then ex_status ex = Some 204 \<and> ex_header ex ''Allow'' = Some (m @ '', OPTIONS'') \<and> s' = s
       else if rq_Method rq = m then (\<exists>code \<in> {200, 400, 409, 500, 503}. ex_status ex = Some code) \<and> ex_header ex ''Allow'' = None
       else ex_status ex = Some 405 \<and> ex_header ex ''Allow'' = Some m \<and> s' = s)"
proof (cases "rq_Method rq = MethodOptions")
  case True
  then show ?thesis using assms browser_headers [OF refl, of m conn]
    by (simp add: serve_def newBrowserCompatibleHandler_def allowedMethods_routes Let_def)
      (simp add: allowedMethodsList_def method_defs)
next
  case False
  define ex0 where "ex0 = setBrowserAccessHeaders m (fresh conn)"
  note headers = browser_headers [OF ex0_def]
  obtain route where r: "route \<in> set (routes lib h)" "rt_method route = m"
      "serve lib h fallback rq s (fresh conn) = rt_handler route rq s ex0"
    using serve_registered [OF assms False] unfolding ex0_def by metis
  obtain s' ex where out: "rt_handler route rq s ex0 = (s', ex)" by fastforce
  show ?thesis
  proof (cases "rq_Method rq = m")
    case True
    from route_own_method [OF r(1) _ headers(1), of rq s] True r(2) out
    have "replied ex0 ex" by simp
    then show ?thesis using headers True False r(3) out by (auto simp: replied_def answered_def handler_codes_def)
  next
    case other: False
    from route_other_method [OF r(1) _ headers(1), of rq s] other r(2) out
    have "s' = s" "answered 405 (set_header ''Allow'' m ex0) ex" by simp_all
    then show ?thesis using headers other False r(3) out by (auto simp: answered_def)
  qed
qed

text \<open>A body with one payload, and what the multiplexer says of unknown paths.\<close>

definition demo_lib :: "startPayload \<Rightarrow> AlterOptions \<Rightarrow> (unit, string) lib" where
  "demo_lib p a = \<lparr>lib_write = buffer, lib_Encode = (\<lambda>pl. case pl of errorResponse e \<Rightarrow> Inr e | _ \<Rightarrow> Inr ''{}''),
     lib_decodeStart = one_value p, lib_decodeAlter = one_value a, lib_trailing = at_eof\<rparr>"

definition not_found :: "('b, 's, 'c) handle" where
  "not_found rq s ex = (s, WriteHeader 404 ex)"

definition post :: "string \<Rightarrow> unit request" where
  "post path = \<lparr>rq_Method = MethodPost, rq_Path = path, rq_Body = (), rq_ctx_err = None\<rparr>"

definition no_alter :: AlterOptions where
  "no_alter = \<lparr>ao_Clients = None, ao_TargetTPS = None\<rparr>"

theorem every_request_answered_witness:
  "ex_status (snd (serve (demo_lib empty_payload no_alter) \<lparr>h_benchmark = None, h_ready = None\<rparr> not_found
     (post ''/healthz'') () (fresh []))) = Some 405"
  using every_request_answered [where rq = "post ''/healthz''" and m = MethodGet and lib = "demo_lib empty_payload no_alter"
      and h = "\<lparr>h_benchmark = None, h_ready = None\<rparr>" and fallback = not_found and s = "()" and conn = "[]"]
  by (simp add: post_def route_table_def Let_def method_defs split_def)

text \<open>The status of a control request on its method, from what the operation returned.\<close>

definition outcome_code :: "'s \<times> State \<times> goerror option \<Rightarrow> int" where
  "outcome_code r = (case snd (snd r) of None \<Rightarrow> 200 | Some err \<Rightarrow> statusForBenchmarkError err)"

lemma control_code:
  assumes "h_benchmark h = Some b" and "rq_Method rq = MethodPost"
  shows "rq_Path rq = ''/benchmark/start'' \<Longrightarrow>
      DecodeStartOptions (lib_decodeStart lib) (lib_trailing lib) (rq_Body rq) = Inr options \<Longrightarrow>
      ex_status (snd (serve lib h fallback rq s (fresh conn))) = Some (outcome_code (bm_Start b (rq_ctx_err rq) options s))"
    and "rq_Path rq = ''/benchmark/alter'' \<Longrightarrow>
      DecodeAlterOptions (lib_decodeAlter lib) (lib_trailing lib) (rq_Body rq) = Inr alt \<Longrightarrow>
      ex_status (snd (serve lib h fallback rq s (fresh conn))) = Some (outcome_code (bm_Alter b alt s))"
    and "rq_Path rq = ''/benchmark/stop'' \<Longrightarrow>
      ex_status (snd (serve lib h fallback rq s (fresh conn))) = Some (outcome_code (bm_Stop b s))"
proof -
  define ex0 where "ex0 = setBrowserAccessHeaders MethodPost (fresh conn)"
  have "ex_status ex0 = None" by (rule browser_headers(1) [OF ex0_def])
  then have code: "ex_status (snd (write_outcome lib path r ex0)) = Some (outcome_code r)" for path and r :: "'s \<times> State \<times> goerror option"
    using write_outcome_answers [of ex0 r lib path] by (simp add: answered_def outcome_code_def)
  have "MethodPost \<noteq> MethodOptions" by (simp add: method_defs)
  then have mux: "serve lib h fallback rq s (fresh conn) = mux_ServeHTTP fallback (routes lib h) rq s ex0"
    if "map_of route_table (rq_Path rq) = Some MethodPost"
    unfolding serve_def newBrowserCompatibleHandler_def allowedMethods_routes that
    by (simp add: Let_def assms(2) flip: ex0_def)
  note served = mux_ServeHTTP_def routes_def handleBenchmarkStart_def handleBenchmarkAlter_def handleBenchmarkStop_def
    with_benchmark_def allowMethod_simps(1) assms
  show "rq_Path rq = ''/benchmark/start'' \<Longrightarrow>
      DecodeStartOptions (lib_decodeStart lib) (lib_trailing lib) (rq_Body rq) = Inr options \<Longrightarrow>
      ex_status (snd (serve lib h fallback rq s (fresh conn))) = Some (outcome_code (bm_Start b (rq_ctx_err rq) options s))"
    by (subst mux) (simp_all add: route_table_def served code)
  show "rq_Path rq = ''/benchmark/alter'' \<Longrightarrow>
      DecodeAlterOptions (lib_decodeAlter lib) (lib_trailing lib) (rq_Body rq) = Inr alt \<Longrightarrow>
      ex_status (snd (serve lib h fallback rq s (fresh conn))) = Some (outcome_code (bm_Alter b alt s))"
    by (subst mux) (simp_all add: route_table_def served code)
  show "rq_Path rq = ''/benchmark/stop'' \<Longrightarrow>
      ex_status (snd (serve lib h fallback rq s (fresh conn))) = Some (outcome_code (bm_Stop b s))"
    by (subst mux) (simp_all add: route_table_def served code)
qed

text \<open>
  C13. Only the three control requests change the benchmark: when the state differs after a
  request, the request was a \<open>POST\<close> for \<open>/benchmark/start\<close>, \<open>/benchmark/alter\<close> or
  \<open>/benchmark/stop\<close>, its body was a valid request of that kind, and the new state is that
  of exactly one call of the corresponding operation.
\<close>
theorem only_control_requests_change_state:
  assumes "\<And>rq s ex. fst (fallback rq s ex) = s" and "fst (serve lib h fallback rq s (fresh conn)) \<noteq> s"
  shows "\<exists>b. h_benchmark h = Some b \<and> rq_Method rq = MethodPost \<and>
    (rq_Path rq = ''/benchmark/start'' \<and>
       (\<exists>options. DecodeStartOptions (lib_decodeStart lib) (lib_trailing lib) (rq_Body rq) = Inr options
          \<and> fst (serve lib h fallback rq s (fresh conn)) = fst (bm_Start b (rq_ctx_err rq) options s))
   \<or> rq_Path rq = ''/benchmark/alter'' \<and>
       (\<exists>options. DecodeAlterOptions (lib_decodeAlter lib) (lib_trailing lib) (rq_Body rq) = Inr options
          \<and> fst (serve lib h fallback rq s (fresh conn)) = fst (bm_Alter b options s))
   \<or> rq_Path rq = ''/benchmark/stop'' \<and> fst (serve lib h fallback rq s (fresh conn)) = fst (bm_Stop b s))"
proof -
  have "fst (serve lib h fallback rq s (fresh conn)) = request_state lib h rq s" by (rule serve_state [OF assms(1)])
  with assms(2) show ?thesis by (auto simp: request_state_def split: option.splits bool.splits if_splits sum.splits)
qed

end
