(* ===== verification/Workload.thy ===== *)
theory Workload
  imports Options Run_Stats Go_Print
begin

text \<open>
  The workload plans of \<open>internal/benchrunner\<close>: \<open>workload.go\<close> (plan selection and the ids a
  turn works on), \<open>workload_sql.go\<close> (the statements and the transaction wrapper) and the
  six workloads. A plan is a value that holds its counters; \<open>RunOnce\<close> returns the plan with
  the counter advanced.

  \<open>database/sql\<close> is a parameter: a record of its methods over a world \<open>'w\<close>. A row query
  with its \<open>Scan\<close> gives an error or not; a query of many rows gives the error of each
  \<open>Scan\<close> in turn and the final \<open>rows.Err()\<close>. An integer division by zero panics, so the ids
  are options and \<open>RunOnce\<close> is one too.
\<close>

section \<open>The database\<close>

datatype sqlarg = ArgInt int | ArgText string | ArgTime gotime

datatype executor = OnDB | OnTx

record rows =
  rows_scans :: "goerror option list"
  rows_Err :: "goerror option"

record 'w sqldb =
  db_BeginTx :: "'w \<Rightarrow> 'w \<times> goerror option"
  db_QueryRowScan :: "executor \<Rightarrow> string \<Rightarrow> sqlarg list \<Rightarrow> 'w \<Rightarrow> 'w \<times> goerror option"
  db_QueryContext :: "executor \<Rightarrow> string \<Rightarrow> sqlarg list \<Rightarrow> 'w \<Rightarrow> 'w \<times> (goerror + rows)"
  db_ExecContext :: "executor \<Rightarrow> string \<Rightarrow> sqlarg list \<Rightarrow> 'w \<Rightarrow> 'w \<times> goerror option"
  db_Rollback :: "'w \<Rightarrow> 'w \<times> goerror option"
  db_Commit :: "'w \<Rightarrow> 'w \<times> goerror option"

definition benchmarkSchema :: string where "benchmarkSchema = ''bench''"

definition benchmarkTable :: "string \<Rightarrow> string" where
  "benchmarkTable name = benchmarkSchema @ ''.'' @ name"

subsection \<open>workload\_sql.go\<close>

record transactionLabels =
  tl_begin :: string
  tl_workload :: string
  tl_rollback :: string
  tl_commit :: string

definition runTransactionalOperation ::
  "'w sqldb \<Rightarrow> int \<Rightarrow> transactionLabels \<Rightarrow> ('w \<Rightarrow> 'w \<times> goerror option) \<Rightarrow> 'w \<Rightarrow> 'w \<times> int \<times> goerror option" where
  "runTransactionalOperation db kind labels step w =
     (case db_BeginTx db w of
        (w, Some err) \<Rightarrow> (w, kind, Some (Wrap (tl_begin labels) err))
      | (w, None) \<Rightarrow>
          (case step w of
             (w, Some err) \<Rightarrow>
               (case db_Rollback db w of
                  (w, rollbackErr) \<Rightarrow>
                    (case rollbackErr of
                       Some re \<Rightarrow>
                         (if \<not> errors_Is re ErrTxDone
                          then (w, kind, Some (Joined [Wrap (tl_workload labels) err, Wrap (tl_rollback labels) re]))
                          else (w, kind, Some (Wrap (tl_workload labels) err)))
                     | None \<Rightarrow> (w, kind, Some (Wrap (tl_workload labels) err))))
           | (w, None) \<Rightarrow>
               (case db_Commit db w of
                  (w, Some err) \<Rightarrow> (w, kind, Some (Wrap (tl_commit labels) err))
                | (w, None) \<Rightarrow> (w, kind, None))))"

text \<open>\<open>for rows.Next() { if err := rows.Scan(...) ... }; return rows.Err()\<close>.\<close>

fun scan_rows :: "goerror option list \<Rightarrow> goerror option \<Rightarrow> goerror option" where
  "scan_rows [] final = final"
| "scan_rows (Some e # scans) final = Some e"
| "scan_rows (None # scans) final = scan_rows scans final"

definition query_all :: "'w sqldb \<Rightarrow> executor \<Rightarrow> string \<Rightarrow> sqlarg list \<Rightarrow> 'w \<Rightarrow> 'w \<times> goerror option" where
  "query_all db ex text args w =
     (case db_QueryContext db ex text args w of
        (w, Inl err) \<Rightarrow> (w, Some err)
      | (w, Inr rs) \<Rightarrow> (w, scan_rows (rows_scans rs) (rows_Err rs)))"

definition pointReadQuery :: "'w sqldb \<Rightarrow> executor \<Rightarrow> int \<Rightarrow> 'w \<Rightarrow> 'w \<times> goerror option" where
  "pointReadQuery db ex account =
     db_QueryRowScan db ex (''SELECT balance, name'' @ nl @ ''FROM '' @ benchmarkTable ''accounts'' @ nl
       @ ''WHERE id = $1'') [ArgInt account]"

definition rangeReadQuery :: "'w sqldb \<Rightarrow> executor \<Rightarrow> int \<Rightarrow> int \<Rightarrow> int \<Rightarrow> 'w \<Rightarrow> 'w \<times> goerror option" where
  "rangeReadQuery db ex branch startID endID =
     query_all db ex (''SELECT id, balance'' @ nl @ ''FROM '' @ benchmarkTable ''accounts'' @ nl
       @ ''WHERE branch_id = $1'' @ nl @ ''  AND id BETWEEN $2 AND $3'' @ nl @ ''ORDER BY id'')
       [ArgInt branch, ArgInt startID, ArgInt endID]"

definition historyInsertQuery ::
  "'w sqldb \<Rightarrow> executor \<Rightarrow> int \<Rightarrow> int \<Rightarrow> int \<Rightarrow> int \<Rightarrow> string \<Rightarrow> gotime \<Rightarrow> 'w \<Rightarrow> 'w \<times> goerror option" where
  "historyInsertQuery db ex account teller branch val note createdAt =
     db_ExecContext db ex (''INSERT INTO '' @ benchmarkTable ''history''
       @ '' (account_id, teller_id, branch_id, amount, note, created_at)'' @ nl @ ''VALUES ($1, $2, $3, $4, $5, $6)'')
       [ArgInt account, ArgInt teller, ArgInt branch, ArgInt val, ArgText note, ArgTime createdAt]"

definition accountUpdateQuery :: "'w sqldb \<Rightarrow> executor \<Rightarrow> int \<Rightarrow> int \<Rightarrow> 'w \<Rightarrow> 'w \<times> goerror option" where
  "accountUpdateQuery db ex account val =
     db_ExecContext db ex (''UPDATE '' @ benchmarkTable ''accounts'' @ nl @ ''SET balance = balance + $1'' @ nl
       @ ''WHERE id = $2'') [ArgInt val, ArgInt account]"

definition joinQuery :: "'w sqldb \<Rightarrow> executor \<Rightarrow> int \<Rightarrow> 'w \<Rightarrow> 'w \<times> goerror option" where
  "joinQuery db ex account =
     db_QueryRowScan db ex (''SELECT a.id, a.name, b.name, t.name, a.balance'' @ nl
       @ ''FROM '' @ benchmarkTable ''accounts'' @ '' AS a'' @ nl
       @ ''JOIN '' @ benchmarkTable ''branches'' @ '' AS b ON b.id = a.branch_id'' @ nl
       @ ''JOIN '' @ benchmarkTable ''tellers'' @ '' AS t ON t.branch_id = b.id'' @ nl
       @ ''WHERE a.id = $1'' @ nl @ ''ORDER BY t.id'' @ nl @ ''LIMIT 1'') [ArgInt account]"

definition aggregationQuery :: "'w sqldb \<Rightarrow> executor \<Rightarrow> int \<Rightarrow> 'w \<Rightarrow> 'w \<times> goerror option" where
  "aggregationQuery db ex branch =
     query_all db ex (''SELECT a.branch_id, COUNT(*), COALESCE(SUM(a.balance), 0)'' @ nl
       @ ''FROM '' @ benchmarkTable ''accounts'' @ '' AS a'' @ nl @ ''WHERE a.branch_id = $1'' @ nl
       @ ''GROUP BY a.branch_id'') [ArgInt branch]"

definition setLocalLockTimeout :: "'w sqldb \<Rightarrow> executor \<Rightarrow> string \<Rightarrow> 'w \<Rightarrow> 'w \<times> goerror option" where
  "setLocalLockTimeout db ex timeout =
     db_ExecContext db ex (''SET LOCAL lock_timeout = '' @ [CHR 0x27] @ timeout @ [CHR 0x27]) []"

definition lockAccountNowaitQuery :: "'w sqldb \<Rightarrow> executor \<Rightarrow> int \<Rightarrow> 'w \<Rightarrow> 'w \<times> goerror option" where
  "lockAccountNowaitQuery db ex account =
     db_QueryRowScan db ex (''SELECT id'' @ nl @ ''FROM '' @ benchmarkTable ''accounts'' @ nl @ ''WHERE id = $1'' @ nl
       @ ''FOR UPDATE NOWAIT'') [ArgInt account]"

section \<open>The ids of an iteration\<close>

text \<open>\<open>int64(a % b)\<close> on \<open>uint64\<close>, a panic when \<open>b\<close> is zero.\<close>

definition mod_u64 :: "u64 \<Rightarrow> u64 \<Rightarrow> u64 option" where
  "mod_u64 a b = (if b = 0 then None else Some (a mod b))"

definition accountID :: "u64 \<Rightarrow> ScaleModel \<Rightarrow> int option" where
  "accountID iteration scale =
     (case mod_u64 (iteration - 1) (to_u64 (Accounts scale)) of
        None \<Rightarrow> None | Some m \<Rightarrow> Some (to_i64 (m + 1)))"

definition branchID :: "u64 \<Rightarrow> ScaleModel \<Rightarrow> int option" where
  "branchID iteration scale =
     (case mod_u64 (iteration - 1) (to_u64 (Branches scale)) of
        None \<Rightarrow> None | Some m \<Rightarrow> Some (wrap64 (to_i64 m + 1)))"

definition tellerID :: "u64 \<Rightarrow> ScaleModel \<Rightarrow> int \<Rightarrow> int" where
  "tellerID iteration scale branch =
     (let offset = to_i64 ((iteration - 1) mod 10);
          base = wrap64 (wrap64 ((branch - 1) * 10) + 1)
      in if wrap64 (base + offset) > Tellers scale then Tellers scale else wrap64 (base + offset))"

definition hotAccountID :: "u64 \<Rightarrow> ScaleModel \<Rightarrow> int option" where
  "hotAccountID iteration scale =
     (let hotSetSize = (if Accounts scale > 8 then 8 else Accounts scale) in
      case mod_u64 (iteration - 1) (to_u64 hotSetSize) of
        None \<Rightarrow> None | Some m \<Rightarrow> Some (to_i64 (m + 1)))"

definition amount :: "u64 \<Rightarrow> int" where
  "amount iteration = to_i64 (iteration mod 97 + 1)"

section \<open>The plans\<close>

datatype workloadPlan =
    readWorkload ScaleModel u64
  | writeWorkload ScaleModel u64
  | mixedWorkload int workloadPlan workloadPlan u64
  | transactionWorkload ScaleModel string u64
  | joinWorkload ScaleModel u64
  | lockWorkload ScaleModel u64

definition defaultMixedReadPercent :: int where "defaultMixedReadPercent = 80"

definition effectiveReadPercent :: "StartOptions \<Rightarrow> int" where
  "effectiveReadPercent options =
     (case so_ReadPercent options of Some p \<Rightarrow> p | None \<Rightarrow> defaultMixedReadPercent)"

definition effectiveTransactionMix :: "StartOptions \<Rightarrow> string" where
  "effectiveTransactionMix options =
     (if so_TransactionMix options \<noteq> [] then so_TransactionMix options else TransactionMixBalanced)"

definition newSQLWorkloadPlan :: "StartOptions \<Rightarrow> ScaleModel \<Rightarrow> goerror + workloadPlan" where
  "newSQLWorkloadPlan options scale =
     (if so_Profile options = ProfileRead then Inr (readWorkload scale 0)
      else if so_Profile options = ProfileWrite then Inr (writeWorkload scale 0)
      else if so_Profile options = ProfileMixed
        then Inr (mixedWorkload (effectiveReadPercent options) (readWorkload scale 0) (writeWorkload scale 0) 0)
      else if so_Profile options = ProfileTransaction
        then Inr (transactionWorkload scale (effectiveTransactionMix options) 0)
      else if so_Profile options = ProfileJoin then Inr (joinWorkload scale 0)
      else if so_Profile options = ProfileLock then Inr (lockWorkload scale 0)
      else Inl (Errorf (''profile '' @ go_quote (so_Profile options) @ '' is not implemented yet'')))"

type_synonym 'w outcome = "'w \<times> int \<times> goerror option"

text \<open>A single statement outside a transaction, with its kind and its label.\<close>

definition single :: "int \<Rightarrow> string \<Rightarrow> 'w \<times> goerror option \<Rightarrow> 'w outcome" where
  "single kind label m = (case wrapE label m of (w, err) \<Rightarrow> (w, kind, err))"

subsection \<open>workload\_read\_write.go\<close>

definition runPointRead :: "'w sqldb \<Rightarrow> ScaleModel \<Rightarrow> u64 \<Rightarrow> 'w \<Rightarrow> 'w outcome option" where
  "runPointRead db scale iteration w =
     (case accountID iteration scale of
        None \<Rightarrow> None
      | Some account \<Rightarrow> Some (single operationKindPointRead ''point read'' (pointReadQuery db OnDB account w)))"

definition runRangeRead :: "'w sqldb \<Rightarrow> ScaleModel \<Rightarrow> u64 \<Rightarrow> 'w \<Rightarrow> 'w outcome option" where
  "runRangeRead db scale iteration w =
     (case branchID iteration scale of
        None \<Rightarrow> None
      | Some branch \<Rightarrow>
          (let startID = branch;
               endID = wrap64 (startID + wrap64 (Branches scale * 9));
               endID = (if endID > Accounts scale then Accounts scale else endID)
           in Some (single operationKindRangeRead ''range read'' (rangeReadQuery db OnDB branch startID endID w))))"

definition runInsert :: "'w sqldb \<Rightarrow> ScaleModel \<Rightarrow> u64 \<Rightarrow> gotime \<Rightarrow> 'w \<Rightarrow> 'w outcome option" where
  "runInsert db scale iteration now w =
     (case (accountID iteration scale, branchID iteration scale) of
        (Some account, Some branch) \<Rightarrow>
          (let teller = tellerID iteration scale branch in
           Some (single operationKindHistoryInsert ''insert history''
             (historyInsertQuery db OnDB account teller branch (amount iteration)
               (''history-'' @ decimal (unat iteration)) now w)))
      | _ \<Rightarrow> None)"

definition runUpdate :: "'w sqldb \<Rightarrow> ScaleModel \<Rightarrow> u64 \<Rightarrow> 'w \<Rightarrow> 'w outcome option" where
  "runUpdate db scale iteration w =
     (case accountID iteration scale of
        None \<Rightarrow> None
      | Some account \<Rightarrow> Some (single operationKindAccountUpdate ''update account''
          (accountUpdateQuery db OnDB account (amount iteration) w)))"

subsection \<open>workload\_transaction.go\<close>

definition transaction_labels :: transactionLabels where
  "transaction_labels = \<lparr>tl_begin = ''begin transaction'', tl_workload = ''transaction workload'',
     tl_rollback = ''rollback transaction'', tl_commit = ''commit transaction''\<rparr>"

definition runTransaction ::
  "'w sqldb \<Rightarrow> ScaleModel \<Rightarrow> string \<Rightarrow> u64 \<Rightarrow> gotime \<Rightarrow> int \<Rightarrow> int \<Rightarrow> 'w \<Rightarrow> 'w \<times> goerror option" where
  "runTransaction db scale mix iteration now account branch w =
     (let teller = tellerID iteration scale branch; val = amount iteration in
      seqE (wrapE ''point read in transaction'' (pointReadQuery db OnTx account w)) (\<lambda>w.
      seqE (if mix = TransactionMixReadHeavy
            then wrapE ''range read in transaction''
              (rangeReadQuery db OnTx branch branch (wrap64 (branch + wrap64 (Branches scale * 4))) w)
            else if mix = TransactionMixBalanced \<or> mix = TransactionMixWriteHeavy then (w, None)
            else (w, Some (Errorf (''transaction mix '' @ go_quote mix @ '' is not implemented'')))) (\<lambda>w.
      seqE (wrapE ''update account in transaction'' (accountUpdateQuery db OnTx account val w)) (\<lambda>w.
      seqE (if mix = TransactionMixWriteHeavy
            then wrapE ''update teller in transaction''
              (db_ExecContext db OnTx (''UPDATE '' @ benchmarkTable ''tellers'' @ nl
                 @ ''SET balance = balance + $1'' @ nl @ ''WHERE id = $2'') [ArgInt val, ArgInt teller] w)
            else (w, None)) (\<lambda>w.
      wrapE ''insert history in transaction''
        (historyInsertQuery db OnTx account teller branch val (''tx-'' @ decimal (unat iteration)) now w))))))"

definition transactionRunOnce ::
  "'w sqldb \<Rightarrow> ScaleModel \<Rightarrow> string \<Rightarrow> u64 \<Rightarrow> gotime \<Rightarrow> 'w \<Rightarrow> 'w outcome option" where
  "transactionRunOnce db scale mix iteration now w =
     (case (accountID iteration scale, branchID iteration scale) of
        (Some account, Some branch) \<Rightarrow>
          Some (runTransactionalOperation db operationKindTransaction transaction_labels
            (runTransaction db scale mix iteration now account branch) w)
      | _ \<Rightarrow> None)"

subsection \<open>workload\_join.go\<close>

definition runJoin :: "'w sqldb \<Rightarrow> ScaleModel \<Rightarrow> u64 \<Rightarrow> 'w \<Rightarrow> 'w outcome option" where
  "runJoin db scale iteration w =
     (case accountID iteration scale of
        None \<Rightarrow> None
      | Some account \<Rightarrow> Some (single operationKindJoin ''join workload'' (joinQuery db OnDB account w)))"

definition runAggregation :: "'w sqldb \<Rightarrow> ScaleModel \<Rightarrow> u64 \<Rightarrow> 'w \<Rightarrow> 'w outcome option" where
  "runAggregation db scale iteration w =
     (case branchID iteration scale of
        None \<Rightarrow> None
      | Some branch \<Rightarrow> Some (single operationKindAggregation ''aggregation workload'' (aggregationQuery db OnDB branch w)))"

subsection \<open>workload\_lock.go\<close>

definition lockTimeout :: string where "lockTimeout = ''25ms''"

definition contention_labels :: transactionLabels where
  "contention_labels = \<lparr>tl_begin = ''begin lock contention transaction'', tl_workload = ''lock contention'',
     tl_rollback = ''rollback lock contention transaction'', tl_commit = ''commit lock contention transaction''\<rparr>"

definition hot_labels :: transactionLabels where
  "hot_labels = \<lparr>tl_begin = ''begin hot update transaction'', tl_workload = ''hot update'',
     tl_rollback = ''rollback hot update transaction'', tl_commit = ''commit hot update transaction''\<rparr>"

definition lockContention_step :: "'w sqldb \<Rightarrow> int \<Rightarrow> 'w \<Rightarrow> 'w \<times> goerror option" where
  "lockContention_step db account w =
     seqE (setLocalLockTimeout db OnTx lockTimeout w) (\<lambda>w.
       case lockAccountNowaitQuery db OnTx account w of
         (w, Some err) \<Rightarrow> (w, countFailedOperation (Some err))
       | (w, None) \<Rightarrow> (w, None))"

definition runLockContention :: "'w sqldb \<Rightarrow> ScaleModel \<Rightarrow> u64 \<Rightarrow> 'w \<Rightarrow> 'w outcome option" where
  "runLockContention db scale iteration w =
     (case hotAccountID iteration scale of
        None \<Rightarrow> None
      | Some account \<Rightarrow> Some (runTransactionalOperation db operationKindLockContention contention_labels
          (lockContention_step db account) w))"

definition hotUpdate_step :: "'w sqldb \<Rightarrow> int \<Rightarrow> int \<Rightarrow> 'w \<Rightarrow> 'w \<times> goerror option" where
  "hotUpdate_step db account val w =
     seqE (setLocalLockTimeout db OnTx lockTimeout w) (\<lambda>w.
       case accountUpdateQuery db OnTx account val w of
         (w, Some err) \<Rightarrow>
           (let wrapped = Wrap ''update account'' err in
            if isLockNotAvailableError err then (w, countFailedOperation (Some wrapped)) else (w, Some wrapped))
       | (w, None) \<Rightarrow> (w, None))"

definition runHotUpdate :: "'w sqldb \<Rightarrow> ScaleModel \<Rightarrow> u64 \<Rightarrow> 'w \<Rightarrow> 'w outcome option" where
  "runHotUpdate db scale iteration w =
     (case hotAccountID iteration scale of
        None \<Rightarrow> None
      | Some account \<Rightarrow> Some (runTransactionalOperation db operationKindHotUpdate hot_labels
          (hotUpdate_step db account (amount iteration)) w))"

subsection \<open>RunOnce\<close>

text \<open>What an iteration of each workload runs; odd and even iterations take turns.\<close>

definition read_RunOnce :: "'w sqldb \<Rightarrow> ScaleModel \<Rightarrow> u64 \<Rightarrow> 'w \<Rightarrow> 'w outcome option" where
  [simp]: "read_RunOnce db scale iteration w =
     (if iteration mod 2 = 1 then runPointRead db scale iteration w else runRangeRead db scale iteration w)"

definition write_RunOnce :: "'w sqldb \<Rightarrow> ScaleModel \<Rightarrow> u64 \<Rightarrow> gotime \<Rightarrow> 'w \<Rightarrow> 'w outcome option" where
  [simp]: "write_RunOnce db scale iteration now w =
     (if iteration mod 2 = 1 then runInsert db scale iteration now w else runUpdate db scale iteration w)"

definition join_RunOnce :: "'w sqldb \<Rightarrow> ScaleModel \<Rightarrow> u64 \<Rightarrow> 'w \<Rightarrow> 'w outcome option" where
  [simp]: "join_RunOnce db scale iteration w =
     (if iteration mod 2 = 1 then runJoin db scale iteration w else runAggregation db scale iteration w)"

definition lock_RunOnce :: "'w sqldb \<Rightarrow> ScaleModel \<Rightarrow> u64 \<Rightarrow> 'w \<Rightarrow> 'w outcome option" where
  [simp]: "lock_RunOnce db scale iteration w =
     (if iteration mod 2 = 1 then runLockContention db scale iteration w else runHotUpdate db scale iteration w)"

text \<open>\<open>w.counter.Add(1)\<close> returns the new value; the results are the plan and the outcome.\<close>

fun RunOnce :: "'w sqldb \<Rightarrow> gotime \<Rightarrow> workloadPlan \<Rightarrow> 'w \<Rightarrow> (workloadPlan \<times> 'w outcome) option" where
  "RunOnce db now (readWorkload scale counter) w =
     (let iteration = counter + 1 in
      map_option (Pair (readWorkload scale iteration))
        (read_RunOnce db scale iteration w))"
| "RunOnce db now (writeWorkload scale counter) w =
     (let iteration = counter + 1 in
      map_option (Pair (writeWorkload scale iteration))
        (write_RunOnce db scale iteration now w))"
| "RunOnce db now (mixedWorkload readPercent read write counter) w =
     (let iteration = counter + 1 in
      if to_i64 (iteration mod 100) < readPercent
      then map_option (\<lambda>(read', r). (mixedWorkload readPercent read' write iteration, r)) (RunOnce db now read w)
      else map_option (\<lambda>(write', r). (mixedWorkload readPercent read write' iteration, r)) (RunOnce db now write w))"
| "RunOnce db now (transactionWorkload scale mix counter) w =
     (let iteration = counter + 1 in
      map_option (Pair (transactionWorkload scale mix iteration)) (transactionRunOnce db scale mix iteration now w))"
| "RunOnce db now (joinWorkload scale counter) w =
     (let iteration = counter + 1 in
      map_option (Pair (joinWorkload scale iteration))
        (join_RunOnce db scale iteration w))"
| "RunOnce db now (lockWorkload scale counter) w =
     (let iteration = counter + 1 in
      map_option (Pair (lockWorkload scale iteration))
        (lock_RunOnce db scale iteration w))"

section \<open>The ids stay in the seeded data\<close>

text \<open>
  The seeding statements give account \<open>a\<close> the branch \<open>((a - 1) % branches) + 1\<close> and teller
  \<open>t\<close> the branch \<open>((t - 1) / 10) + 1\<close>. A scale is in range when the number of its accounts
  is an \<open>int\<close>.
\<close>

definition seeded_account_branch :: "ScaleModel \<Rightarrow> int \<Rightarrow> int" where
  "seeded_account_branch scale account = (account - 1) mod Branches scale + 1"

definition seeded_teller_branch :: "int \<Rightarrow> int" where
  "seeded_teller_branch teller = (teller - 1) div 10 + 1"

definition scale_in_range :: "int \<Rightarrow> bool" where
  "scale_in_range n \<longleftrightarrow> 1 \<le> n \<and> n * 100000 < 2 ^ 63"

lemma ResolveScale_in_range:
  "scale_in_range n \<Longrightarrow> ResolveScale n = \<lparr>Branches = n, Tellers = n * 10, Accounts = n * 100000, HistoryRows = 0\<rparr>"
  by (simp add: scale_in_range_def ResolveScale_def wrap64_small)

lemma unat_mod_to_u64:
  assumes "0 < n" and "n < 2 ^ 63"
  shows "mod_u64 i (to_u64 n) = Some (i mod to_u64 n)" and "unat (i mod to_u64 n) = unat i mod nat n"
    and "unat i mod nat n < 2 ^ 63 - 1"
proof -
  have u: "unat (to_u64 n) = nat n" using assms by (intro unat_to_u64) auto
  show "mod_u64 i (to_u64 n) = Some (i mod to_u64 n)"
    using assms to_u64_eq_0_iff [of n] by (simp add: mod_u64_def)
  show "unat (i mod to_u64 n) = unat i mod nat n" by (simp add: unat_mod_distrib u)
  have "unat i mod nat n < nat n" using assms(1) by simp
  moreover have "nat n \<le> 2 ^ 63 - 1" using assms(2) by (simp add: nat_le_iff)
  ultimately show "unat i mod nat n < 2 ^ 63 - 1" by (rule less_le_trans)
qed

lemma unat_plus_1: "unat m < 2 ^ 63 - 1 \<Longrightarrow> to_i64 (m + 1 :: u64) = int (unat m) + 1"
proof -
  assume m: "unat m < 2 ^ 63 - 1"
  then have "unat m + unat (1 :: u64) < 2 ^ LENGTH(64)" by simp
  then have u: "unat (m + 1) = unat m + 1" by (subst unat_add_lem [THEN iffD1]) simp_all
  then have "unat (m + 1) < 2 ^ 63" using m by linarith
  from to_i64_small [OF this] u show ?thesis by simp
qed

lemma mod_plus_1:
  assumes "0 < n" and "n < 2 ^ 63"
  shows "to_i64 (i mod to_u64 n + 1) = uint i mod n + 1"
proof -
  have m: "unat (i mod to_u64 n) = unat i mod nat n" "unat i mod nat n < 2 ^ 63 - 1"
    using unat_mod_to_u64 [OF assms] by simp_all
  have "to_i64 (i mod to_u64 n + 1) = int (unat (i mod to_u64 n)) + 1"
    by (rule unat_plus_1) (simp only: m)
  then show ?thesis using assms(1) by (simp only: m) (simp add: zmod_int)
qed

lemma uint_mod_bound: "1 \<le> n \<Longrightarrow> uint (w :: u64) mod n + 1 \<le> n" "1 \<le> n \<Longrightarrow> 0 \<le> uint (w :: u64) mod n"
  using pos_mod_bound [of n "uint w"] zless_imp_add1_zle [of "uint w mod n" n] by simp_all

lemma accountID_eq:
  "scale_in_range n \<Longrightarrow> accountID i (ResolveScale n) = Some (uint (i - 1) mod (n * 100000) + 1)"
  using unat_mod_to_u64(1) [of "n * 100000"] mod_plus_1 [of "n * 100000"]
  by (simp add: accountID_def ResolveScale_in_range) (simp add: scale_in_range_def)

lemma branchID_eq: "scale_in_range n \<Longrightarrow> branchID i (ResolveScale n) = Some (uint (i - 1) mod n + 1)"
proof -
  assume n: "scale_in_range n"
  then have r: "0 < n" "n < 2 ^ 63" by (auto simp: scale_in_range_def)
  have m: "unat ((i - 1) mod to_u64 n) = unat (i - 1) mod nat n" "unat (i - 1) mod nat n < 2 ^ 63 - 1"
    using unat_mod_to_u64 [OF r] by simp_all
  have "to_i64 ((i - 1) mod to_u64 n) = int (unat ((i - 1) mod to_u64 n))"
    by (rule to_i64_small) (use m in linarith)
  also have "\<dots> = uint (i - 1) mod n" using r(1) by (simp only: m) (simp add: zmod_int)
  finally have b: "to_i64 ((i - 1) mod to_u64 n) = uint (i - 1) mod n" .
  have "uint (i - 1) mod n < n" "0 \<le> uint (i - 1) mod n" using r(1) by simp_all
  then have "wrap64 (uint (i - 1) mod n + 1) = uint (i - 1) mod n + 1"
    using r(2) by (intro wrap64_small) linarith+
  with b unat_mod_to_u64(1) [OF r, of "i - 1"] n show ?thesis by (simp add: branchID_def ResolveScale_in_range)
qed

lemma hotAccountID_eq:
  assumes "scale_in_range n"
  shows "hotAccountID i (ResolveScale n) = Some (uint (i - 1) mod 8 + 1)"
proof -
  have "Accounts (ResolveScale n) > 8" using assms by (simp add: ResolveScale_in_range) (simp add: scale_in_range_def)
  then show ?thesis using unat_mod_to_u64(1) [of 8 "i - 1"] mod_plus_1 [of 8 "i - 1"]
    by (simp add: hotAccountID_def)
qed

lemma unat_mod_small: "0 < k \<Longrightarrow> k < 2 ^ 62 \<Longrightarrow> to_i64 (i mod to_u64 k) = uint i mod k"
proof -
  assume k: "0 < k" "k < 2 ^ 62"
  then have m: "unat (i mod to_u64 k) = unat i mod nat k" "unat i mod nat k < 2 ^ 63 - 1"
    using unat_mod_to_u64 [of k i] by simp_all
  have "to_i64 (i mod to_u64 k) = int (unat (i mod to_u64 k))"
    by (rule to_i64_small) (use m in linarith)
  then show ?thesis using k(1) by (simp only: m) (simp add: zmod_int)
qed

lemma to_u64_numeral [simp]: "to_u64 (numeral k) = numeral k" "to_u64 1 = 1"
  by (simp_all add: to_u64_def)

lemma tellerID_eq:
  assumes "scale_in_range n" and "1 \<le> b" and "b \<le> n"
  shows "tellerID i (ResolveScale n) b = (b - 1) * 10 + 1 + uint (i - 1) mod 10"
proof -
  have "to_i64 ((i - 1) mod to_u64 10) = uint (i - 1) mod 10" by (rule unat_mod_small) simp_all
  then have off: "to_i64 ((i - 1) mod 10) = uint (i - 1) mod 10" by simp
  define z where "z = uint (i - 1) mod 10"
  have m: "0 \<le> z" "z \<le> 9" using pos_mod_bound [of 10 "uint (i - 1)"] unfolding z_def by simp_all
  have n: "n * 100000 < 2 ^ 63" using assms(1) by (simp add: scale_in_range_def)
  have w: "wrap64 ((b - 1) * 10) = (b - 1) * 10" "wrap64 ((b - 1) * 10 + 1) = (b - 1) * 10 + 1"
    "wrap64 ((b - 1) * 10 + 1 + z) = (b - 1) * 10 + 1 + z"
    using assms(2,3) n m by (simp_all add: wrap64_small)
  have "(b - 1) * 10 + 1 + z \<le> n * 10" using assms(3) m by (simp add: algebra_simps)
  then show ?thesis using w off assms(1) unfolding z_def [symmetric]
    by (simp add: tellerID_def Let_def ResolveScale_in_range)
qed

text \<open>
  C36. In every iteration, for every scale whose accounts fit an \<open>int\<close>, the ids a workload
  uses are ids of seeded rows and belong together: the account exists and its seeded
  branch is the chosen branch, the teller exists and belongs to that branch, the contended
  account is one of the first eight, and the amount is between 1 and 97. No id computation
  panics.
\<close>
theorem iteration_ids_consistent:
  assumes "scale_in_range n"
  shows "\<exists>account branch hot. let scale = ResolveScale n; teller = tellerID i scale branch in
      accountID i scale = Some account \<and> branchID i scale = Some branch \<and> hotAccountID i scale = Some hot
    \<and> 1 \<le> account \<and> account \<le> Accounts scale \<and> seeded_account_branch scale account = branch
    \<and> 1 \<le> branch \<and> branch \<le> Branches scale
    \<and> 1 \<le> teller \<and> teller \<le> Tellers scale \<and> seeded_teller_branch teller = branch
    \<and> 1 \<le> hot \<and> hot \<le> 8 \<and> hot \<le> Accounts scale
    \<and> 1 \<le> amount i \<and> amount i \<le> 97"
proof -
  define k where "k = uint (i - 1)"
  define x y z h u where "x = k mod (n * 100000)" and "y = k mod n" and "z = k mod 10" and "h = k mod 8"
    and "u = uint i mod 97"
  have n: "1 \<le> n" using assms by (simp add: scale_in_range_def)
  have x: "0 \<le> x" "x < n * 100000" using n by (simp_all add: x_def)
  have y: "0 \<le> y" "y < n" using n by (simp_all add: y_def)
  have z: "0 \<le> z" "z < 10" and h: "0 \<le> h" "h < 8" and u: "0 \<le> u" "u < 97"
    by (simp_all add: z_def h_def u_def)
  have ids: "accountID i (ResolveScale n) = Some (x + 1)" "branchID i (ResolveScale n) = Some (y + 1)"
    "hotAccountID i (ResolveScale n) = Some (h + 1)" "amount i = u + 1"
    using accountID_eq [OF assms, of i] branchID_eq [OF assms, of i] hotAccountID_eq [OF assms, of i]
      mod_plus_1 [of 97 i]
    by (simp_all add: x_def y_def h_def u_def k_def amount_def)
  have t: "tellerID i (ResolveScale n) (y + 1) = y * 10 + 1 + z"
    using tellerID_eq [OF assms, of "y + 1" i] y by (simp add: z_def k_def)
  have "x mod n = y" unfolding x_def y_def by (simp add: mod_mod_cancel)
  then have sb: "seeded_account_branch (ResolveScale n) (x + 1) = y + 1"
    using assms by (simp add: seeded_account_branch_def ResolveScale_in_range)
  have tb: "seeded_teller_branch (y * 10 + 1 + z) = y + 1"
    using z by (simp add: seeded_teller_branch_def)
  have le: "y * 10 + 1 + z \<le> n * 10" using y z by linarith
  show ?thesis
    unfolding Let_def using ids t sb tb le x y z h u n ResolveScale_in_range [OF assms]
    by (intro exI [of _ "x + 1"] exI [of _ "y + 1"] exI [of _ "h + 1"]) simp
qed

theorem iteration_ids_consistent_witness:
  "\<exists>account. accountID 12 (ResolveScale 10) = Some account \<and> 1 \<le> account \<and> account \<le> 1000000"
  using iteration_ids_consistent [of 10 12] by (auto simp: scale_in_range_def Let_def ResolveScale_def wrap64_def)

text \<open>
  A range read covers exactly ten accounts of its branch: the bounds it passes select,
  among the seeded accounts of the branch, the accounts \<open>branch\<close>, \<open>branch + branches\<close>, up to
  \<open>branch + 9 * branches\<close>, and the cap at the number of accounts never cuts any of them.
\<close>
theorem range_read_covers_ten:
  assumes "scale_in_range n"
  shows "\<exists>branch. branchID i (ResolveScale n) = Some branch
    \<and> runRangeRead db (ResolveScale n) i w =
        Some (single operationKindRangeRead ''range read''
          (rangeReadQuery db OnDB branch branch (branch + n * 9) w))
    \<and> {a. 1 \<le> a \<and> a \<le> Accounts (ResolveScale n) \<and> seeded_account_branch (ResolveScale n) a = branch
          \<and> branch \<le> a \<and> a \<le> branch + n * 9} = (\<lambda>j. branch + int j * n) ` {0..<10}"
proof -
  let ?b = "uint (i - 1) mod n + 1"
  have n: "1 \<le> n" "n * 100000 < 2 ^ 63" using assms by (simp_all add: scale_in_range_def)
  have b: "1 \<le> ?b" "?b \<le> n" using uint_mod_bound [of n] n by simp_all
  have w: "wrap64 (n * 9) = n * 9" "wrap64 (?b + n * 9) = ?b + n * 9"
    using n b by (simp_all add: wrap64_small)
  have cap: "\<not> ?b + n * 9 > n * 100000" using b n by linarith
  have run: "runRangeRead db (ResolveScale n) i w = Some (single operationKindRangeRead ''range read''
      (rangeReadQuery db OnDB ?b ?b (?b + n * 9) w))"
    using branchID_eq [OF assms, of i] w cap
    by (simp add: runRangeRead_def Let_def ResolveScale_in_range [OF assms])
  have "{a. 1 \<le> a \<and> a \<le> n * 100000 \<and> (a - 1) mod n + 1 = ?b \<and> ?b \<le> a \<and> a \<le> ?b + n * 9}
      = (\<lambda>j. ?b + int j * n) ` {0..<10}" (is "?L = ?R")
  proof (intro equalityI subsetI)
    fix a assume "a \<in> ?L"
    then have a: "(a - 1) mod n = ?b - 1" "?b \<le> a" "a \<le> ?b + n * 9" by auto
    define q where "q = (a - ?b) div n"
    have "(a - ?b) mod n = 0" using a(1) by (metis (no_types, lifting) add_diff_cancel_right' diff_diff_eq2 diff_add_cancel cancel_comm_monoid_add_class.diff_cancel mod_diff_left_eq mod_0)
    then have q: "a = ?b + q * n" using div_mult_mod_eq [of "a - ?b" n] by (simp add: q_def)
    have "0 \<le> q" using a(2) n unfolding q_def by (simp add: pos_imp_zdiv_nonneg_iff)
    moreover have "q * n \<le> 9 * n" using a(3) q by simp
    then have "q \<le> 9" using n by simp
    ultimately show "a \<in> ?R" using q by (intro image_eqI [of _ _ "nat q"]) auto
  next
    fix a assume "a \<in> ?R"
    then obtain j where j: "j < 10" "a = ?b + int j * n" by auto
    have jn: "int j * n \<le> 9 * n" using j(1) n by (intro mult_right_mono) auto
    then have "?b + int j * n \<le> n * 100000" using b n by linarith
    moreover have "0 \<le> int j * n" using n by simp
    moreover note jn
    moreover have "(a - 1) mod n = (?b - 1) mod n" unfolding j(2) by (metis add.commute add_diff_eq mod_mult_self2 mult.commute)
    moreover have "(?b - 1) mod n = ?b - 1" by simp
    ultimately show "a \<in> ?L" using j(2) b n unfolding mem_Collect_eq by linarith
  qed
  then show ?thesis using branchID_eq [OF assms, of i] run
    by (intro exI [of _ ?b]) (simp add: ResolveScale_in_range [OF assms] seeded_account_branch_def)
qed


section \<open>What RunOnce does\<close>

text \<open>A plan as \<open>newSQLWorkloadPlan\<close> builds it, after any number of turns.\<close>

fun plan_ok :: "workloadPlan \<Rightarrow> bool" where
  "plan_ok (readWorkload scale c) = (\<exists>n. scale_in_range n \<and> scale = ResolveScale n)"
| "plan_ok (writeWorkload scale c) = (\<exists>n. scale_in_range n \<and> scale = ResolveScale n)"
| "plan_ok (mixedWorkload p r w c) = (plan_ok r \<and> plan_ok w)"
| "plan_ok (transactionWorkload scale mix c) =
     ((\<exists>n. scale_in_range n \<and> scale = ResolveScale n) \<and> isValidTransactionMix mix)"
| "plan_ok (joinWorkload scale c) = (\<exists>n. scale_in_range n \<and> scale = ResolveScale n)"
| "plan_ok (lockWorkload scale c) = (\<exists>n. scale_in_range n \<and> scale = ResolveScale n)"

definition kind_ok :: "int \<Rightarrow> bool" where
  "kind_ok k \<longleftrightarrow> 0 \<le> k \<and> k < operationKindCount"

lemma single_kind [simp]: "fst (snd (single kind label m)) = kind" "fst (single kind label m) = fst m"
  by (simp_all add: single_def wrapE_def)

lemma transactional_kind [simp]: "fst (snd (runTransactionalOperation db kind labels step w)) = kind"
  by (simp add: runTransactionalOperation_def split: prod.splits option.splits)

lemmas run_defs = runPointRead_def runRangeRead_def runInsert_def runUpdate_def transactionRunOnce_def
  runJoin_def runAggregation_def runLockContention_def runHotUpdate_def

lemma RunOnce_total:
  assumes "plan_ok plan"
  shows "\<exists>plan' out. RunOnce db now plan w = Some (plan', out) \<and> plan_ok plan' \<and> kind_ok (fst (snd out))"
  using assms
proof (induction plan)
  case (mixedWorkload p r v c)
  then obtain r' outr v' outv where
    "RunOnce db now r w = Some (r', outr)" "plan_ok r'" "kind_ok (fst (snd outr))"
    "RunOnce db now v w = Some (v', outv)" "plan_ok v'" "kind_ok (fst (snd outv))" by auto
  with mixedWorkload.prems show ?case by (cases outr; cases outv) (simp add: Let_def)
qed (auto simp: Let_def run_defs accountID_eq branchID_eq hotAccountID_eq kind_ok_def simp del: split_paired_Ex)

subsection \<open>Transactions are closed\<close>

text \<open>
  The calls a turn makes: a database that logs them in front of any other database.
\<close>

datatype db_call =
    CallBegin | CallQueryRow executor string "sqlarg list" | CallQuery executor string "sqlarg list"
  | CallExec executor string "sqlarg list" | CallRollback | CallCommit

definition logged :: "db_call \<Rightarrow> ('w \<Rightarrow> 'w \<times> 'b) \<Rightarrow> 'w \<times> db_call list \<Rightarrow> ('w \<times> db_call list) \<times> 'b" where
  "logged c f wl = (case f (fst wl) of (w, r) \<Rightarrow> ((w, snd wl @ [c]), r))"

definition log_db :: "'w sqldb \<Rightarrow> ('w \<times> db_call list) sqldb" where
  "log_db db =
     \<lparr>db_BeginTx = logged CallBegin (db_BeginTx db),
      db_QueryRowScan = (\<lambda>ex text args. logged (CallQueryRow ex text args) (db_QueryRowScan db ex text args)),
      db_QueryContext = (\<lambda>ex text args. logged (CallQuery ex text args) (db_QueryContext db ex text args)),
      db_ExecContext = (\<lambda>ex text args. logged (CallExec ex text args) (db_ExecContext db ex text args)),
      db_Rollback = logged CallRollback (db_Rollback db),
      db_Commit = logged CallCommit (db_Commit db)\<rparr>"

fun call_on :: "executor \<Rightarrow> db_call \<Rightarrow> bool" where
  "call_on ex (CallQueryRow ex' t a) = (ex' = ex)"
| "call_on ex (CallQuery ex' t a) = (ex' = ex)"
| "call_on ex (CallExec ex' t a) = (ex' = ex)"
| "call_on ex _ = False"

text \<open>A step of a transaction appends statements on that transaction and nothing else.\<close>

definition appends :: "executor \<Rightarrow> ('w \<times> db_call list \<Rightarrow> ('w \<times> db_call list) \<times> 'b) \<Rightarrow> bool" where
  "appends ex f \<longleftrightarrow> (\<forall>w l. \<exists>cs. snd (fst (f (w, l))) = l @ cs \<and> list_all (call_on ex) cs)"

lemma appends_logged: "call_on ex c \<Longrightarrow> appends ex (logged c f)"
  by (auto simp: appends_def logged_def split: prod.splits)

lemma appends_ret: "appends ex (\<lambda>w. (w, r))"
  by (auto simp: appends_def)

lemma appends_seqE:
  assumes "appends ex f" and "appends ex g"
  shows "appends ex (\<lambda>w. seqE (f w) g)"
  unfolding appends_def
proof (intro allI)
  fix w l
  obtain w1 l1 r where f: "f (w, l) = ((w1, l1), r)" by (metis surj_pair)
  obtain cs where cs: "l1 = l @ cs" "list_all (call_on ex) cs"
    using assms(1) f unfolding appends_def by (metis fst_conv snd_conv)
  obtain ds where "snd (fst (g (w1, l1))) = l1 @ ds" "list_all (call_on ex) ds"
    using assms(2) unfolding appends_def by metis
  with f cs show "\<exists>cs. snd (fst (seqE (f (w, l)) g)) = l @ cs \<and> list_all (call_on ex) cs"
    by (cases r) (auto simp: seqE_def)
qed

lemma appends_fst: "(\<And>w. fst (f w) = fst (g w)) \<Longrightarrow> appends ex g \<Longrightarrow> appends ex f"
  by (simp add: appends_def)

lemma appends_wrapE: "appends ex f \<Longrightarrow> appends ex (\<lambda>w. wrapE label (f w))"
  by (erule appends_fst [rotated]) (simp add: wrapE_def)

lemma appends_query_all: "appends ex (query_all (log_db db) ex text args)"
  by (auto simp: appends_def query_all_def log_db_def logged_def split: prod.splits sum.splits)

lemma appends_queries:
  "appends ex (pointReadQuery (log_db db) ex a)" "appends ex (rangeReadQuery (log_db db) ex a b c)"
  "appends ex (historyInsertQuery (log_db db) ex a b c d e f)" "appends ex (accountUpdateQuery (log_db db) ex a b)"
  "appends ex (joinQuery (log_db db) ex a)" "appends ex (aggregationQuery (log_db db) ex a)"
  "appends ex (setLocalLockTimeout (log_db db) ex s)" "appends ex (lockAccountNowaitQuery (log_db db) ex a)"
  "appends ex (db_ExecContext (log_db db) ex s args)"
  unfolding rangeReadQuery_def aggregationQuery_def
  by (auto simp: pointReadQuery_def historyInsertQuery_def accountUpdateQuery_def joinQuery_def
      setLocalLockTimeout_def lockAccountNowaitQuery_def log_db_def intro: appends_logged)
    (simp_all add: appends_query_all flip: log_db_def)

lemma appends_if: "appends ex f \<Longrightarrow> appends ex g \<Longrightarrow> appends ex (\<lambda>w. if b then f w else g w)"
  by (cases b) simp_all

lemma appends_runTransaction: "appends OnTx (runTransaction (log_db db) scale mix i now a b)"
  unfolding runTransaction_def Let_def
  by (intro appends_seqE appends_wrapE appends_queries appends_if appends_ret)

lemma appends_lockContention: "appends OnTx (lockContention_step (log_db db) a)"
  unfolding lockContention_step_def
  by (intro appends_seqE appends_queries)
    (rule appends_fst [OF _ appends_queries(8) [where db = db and a = a]], simp split: prod.splits option.splits)

lemma appends_hotUpdate: "appends OnTx (hotUpdate_step (log_db db) a v)"
  unfolding hotUpdate_step_def
  by (intro appends_seqE appends_queries)
    (rule appends_fst [OF _ appends_queries(4) [where db = db and a = a and b = v]], simp add: Let_def split: prod.splits option.splits)

text \<open>The shape of a turn: one statement outside, or one transaction, closed exactly once.\<close>

definition turn_log :: "db_call list \<Rightarrow> goerror option \<Rightarrow> bool" where
  "turn_log cs err \<longleftrightarrow>
     list_all (call_on OnDB) cs \<or> (cs = [CallBegin] \<and> err \<noteq> None)
   \<or> (\<exists>body. cs = CallBegin # body @ [CallCommit] \<and> list_all (call_on OnTx) body)
   \<or> (\<exists>body. cs = CallBegin # body @ [CallRollback] \<and> list_all (call_on OnTx) body \<and> err \<noteq> None)"

lemma turn_log_transactional:
  assumes "appends OnTx step"
  shows "\<exists>cs w' kind' err. runTransactionalOperation (log_db db) kind labels step (w, l) = ((w', l @ cs), kind', err)
    \<and> turn_log cs err"
proof -
  obtain w1 e1 where b: "db_BeginTx db w = (w1, e1)" by fastforce
  obtain w2 l2 e2 where s: "step (w1, l @ [CallBegin]) = ((w2, l2), e2)" by (metis surj_pair)
  obtain body where body: "l2 = l @ CallBegin # body" "list_all (call_on OnTx) body"
    using assms s unfolding appends_def by (metis append.assoc append_Cons append_Nil fst_conv snd_conv)
  obtain w3 e3 where c: "db_Commit db w2 = (w3, e3)" by fastforce
  obtain w4 e4 where r: "db_Rollback db w2 = (w4, e4)" by fastforce
  show ?thesis
  proof (cases e1)
    case (Some e)
    then show ?thesis using b by (simp add: runTransactionalOperation_def log_db_def logged_def turn_log_def)
  next
    case begun: None
    show ?thesis
    proof (cases e2)
      case None
      then show ?thesis using begun b s body c
        by (cases e3) (auto simp: runTransactionalOperation_def log_db_def logged_def turn_log_def)
    next
      case (Some e)
      then show ?thesis using begun b s body r
        by (cases e4) (auto simp: runTransactionalOperation_def log_db_def logged_def turn_log_def)
    qed
  qed
qed


definition turn_closed ::
  "('w \<times> db_call list) outcome option \<Rightarrow> bool" where
  "turn_closed r \<longleftrightarrow> (\<exists>w cs kind err. r = Some ((w, cs), kind, err) \<and> turn_log cs err)"

lemma turn_closed_single: "appends OnDB f \<Longrightarrow> turn_closed (Some (single kind label (f (w, []))))"
proof -
  assume "appends OnDB f"
  then obtain cs where "snd (fst (f (w, []))) = cs" "list_all (call_on OnDB) cs"
    unfolding appends_def by (metis append_Nil)
  then show ?thesis
    by (cases "f (w, [])") (auto simp: turn_closed_def turn_log_def single_def wrapE_def)
qed

lemma turn_closed_transactional:
  "appends OnTx step \<Longrightarrow> turn_closed (Some (runTransactionalOperation (log_db db) kind labels step (w, [])))"
  using turn_log_transactional [of step db kind labels w "[]"] by (auto simp: turn_closed_def)

lemma RunOnce_closed:
  assumes "plan_ok plan"
  shows "turn_closed (map_option snd (RunOnce (log_db db) now plan (w, [])))"
  using assms
proof (induction plan)
  case (mixedWorkload p r v c)
  have "turn_closed (map_option snd (map_option (\<lambda>(q', x). (f q', x)) (RunOnce (log_db db) now q (w, []))))"
    if "turn_closed (map_option snd (RunOnce (log_db db) now q (w, [])))" for f :: "workloadPlan \<Rightarrow> workloadPlan" and q
    using that by (simp add: option.map_comp comp_def case_prod_unfold)
  with mixedWorkload show ?case by (simp add: Let_def)
qed (auto simp: Let_def run_defs accountID_eq branchID_eq hotAccountID_eq option.map_comp comp_def
    intro!: turn_closed_single turn_closed_transactional appends_queries appends_runTransaction
      appends_lockContention appends_hotUpdate)

text \<open>
  C35. Every turn of every workload returns, with one of the nine operation kinds, and
  leaves no transaction open: it either runs statements on the database handle only, or it
  begins one transaction, runs its statements on that transaction, and closes it exactly
  once at the end, by a commit, or by a rollback when a statement failed. After a failed
  begin nothing else is called.
\<close>
theorem turn_closes_transaction:
  assumes "plan_ok plan"
  shows "\<exists>plan' w' cs kind err. RunOnce (log_db db) now plan (w, []) = Some (plan', (w', cs), kind, err)
    \<and> 0 \<le> kind \<and> kind < operationKindCount \<and> plan_ok plan'
    \<and> (list_all (call_on OnDB) cs \<or> cs = [CallBegin] \<and> err \<noteq> None
       \<or> (\<exists>body. cs = CallBegin # body @ [CallCommit] \<and> list_all (call_on OnTx) body)
       \<or> (\<exists>body. cs = CallBegin # body @ [CallRollback] \<and> list_all (call_on OnTx) body \<and> err \<noteq> None))"
proof -
  obtain plan' w' cs kind err where r: "RunOnce (log_db db) now plan (w, []) = Some (plan', (w', cs), kind, err)"
    and k: "plan_ok plan'" "kind_ok kind"
    using RunOnce_total [OF assms, of "log_db db" now "(w, [])"] by auto
  have "turn_log cs err" using RunOnce_closed [OF assms, of db now w] r by (simp add: turn_closed_def)
  with r k show ?thesis by (simp add: turn_log_def kind_ok_def)
qed

text \<open>A database whose every operation succeeds, for concrete turns.\<close>

definition quiet_db :: "unit sqldb" where
  "quiet_db = \<lparr>db_BeginTx = (\<lambda>w. (w, None)), db_QueryRowScan = (\<lambda>ex text args w. (w, None)),
     db_QueryContext = (\<lambda>ex text args w. (w, Inr \<lparr>rows_scans = [], rows_Err = None\<rparr>)),
     db_ExecContext = (\<lambda>ex text args w. (w, None)), db_Rollback = (\<lambda>w. (w, None)), db_Commit = (\<lambda>w. (w, None))\<rparr>"

theorem range_read_covers_ten_witness:
  "\<exists>branch. branchID 3 (ResolveScale 10) = Some branch
    \<and> {a. 1 \<le> a \<and> a \<le> Accounts (ResolveScale 10) \<and> seeded_account_branch (ResolveScale 10) a = branch
          \<and> branch \<le> a \<and> a \<le> branch + 10 * 9} = (\<lambda>j. branch + int j * 10) ` {0..<10}"
proof -
  have "scale_in_range 10" by (simp add: scale_in_range_def)
  from range_read_covers_ten [OF this, of 3 quiet_db "()"] show ?thesis
    by (elim exE conjE) (rule exI, rule conjI, assumption, assumption)
qed

lemma demo_plan_ok: "plan_ok (transactionWorkload (ResolveScale 10) TransactionMixBalanced 0)"
  by (auto simp: isValidTransactionMix_def intro!: exI [of _ 10]) (simp add: scale_in_range_def)

theorem turn_closes_transaction_witness:
  "\<exists>plan' w' cs kind err. RunOnce (log_db quiet_db) 5
      (transactionWorkload (ResolveScale 10) TransactionMixBalanced 0) ((), []) = Some (plan', (w', cs), kind, err)
    \<and> 0 \<le> kind \<and> kind < operationKindCount"
  using turn_closes_transaction [OF demo_plan_ok, of quiet_db 5 "()"] by blast

subsection \<open>The plan of valid options\<close>

lemma valid_plan_ok:
  assumes "validateStartOptions options = None" and "scale_in_range (so_Scale options)"
  shows "\<exists>plan. newSQLWorkloadPlan options (ResolveScale (so_Scale options)) = Inr plan \<and> plan_ok plan"
proof -
  have v: "isValidProfile (so_Profile options)"
    and mix: "isValidTransactionMix (effectiveTransactionMix options)"
    using assms(1) by (auto simp: effectiveTransactionMix_def isValidTransactionMix_def validateStartOptions_def
        split: if_splits)
  have s: "\<exists>n. scale_in_range n \<and> ResolveScale (so_Scale options) = ResolveScale n" using assms(2) by blast
  show ?thesis using v mix s by (auto simp: newSQLWorkloadPlan_def isValidProfile_def profile_defs)
qed

text \<open>
  Validated options always have a workload: for a scale in range \<open>newSQLWorkloadPlan\<close>
  returns a plan whose every turn works, in particular a transaction plan never meets an
  unknown transaction mix; and a profile outside the six is refused.
\<close>
theorem valid_options_have_plan:
  assumes "validateStartOptions options = None" and "scale_in_range (so_Scale options)"
  shows "\<exists>plan. newSQLWorkloadPlan options (ResolveScale (so_Scale options)) = Inr plan \<and> plan_ok plan"
  by (rule valid_plan_ok [OF assms])

theorem valid_options_have_plan_witness:
  "\<exists>plan. newSQLWorkloadPlan (zeroStartOptions\<lparr>so_Scale := 10, so_Clients := 1, so_DurationSeconds := 60,
      so_Profile := ProfileMixed\<rparr>) (ResolveScale 10) = Inr plan \<and> plan_ok plan"
  using valid_options_have_plan [of "zeroStartOptions\<lparr>so_Scale := 10, so_Clients := 1, so_DurationSeconds := 60,
      so_Profile := ProfileMixed\<rparr>"]
  by (simp add: validateStartOptions_def zeroStartOptions_def isValidProfile_def profile_defs scale_in_range_def)


subsection \<open>The share of reads in a mixed workload\<close>

text \<open>Turns in a row on one plan, with the kinds they report.\<close>

fun turns :: "nat \<Rightarrow> 'w sqldb \<Rightarrow> gotime \<Rightarrow> workloadPlan \<Rightarrow> 'w \<Rightarrow> (workloadPlan \<times> 'w \<times> int list) option" where
  "turns 0 db now plan w = Some (plan, w, [])"
| "turns (Suc n) db now plan w =
     (case RunOnce db now plan w of
        None \<Rightarrow> None
      | Some (plan, w, kind, err) \<Rightarrow> map_option (\<lambda>(p, w, ks). (p, w, kind # ks)) (turns n db now plan w))"

definition is_read :: "int \<Rightarrow> bool" where
  "is_read k \<longleftrightarrow> k = operationKindPointRead \<or> k = operationKindRangeRead"

definition read_turn :: "int \<Rightarrow> nat \<Rightarrow> bool" where
  "read_turn p i \<longleftrightarrow> int (i mod 100) < p"

lemma single_eqD: "single kind label m = (w, k, err) \<Longrightarrow> k = kind"
  by (simp add: single_def wrapE_def)

lemma read_plan_kind:
  assumes "RunOnce db now (readWorkload scale c) w = Some (plan', out)"
  shows "is_read (fst (snd out))" "\<exists>c'. plan' = readWorkload scale c'"
  using assms by (auto simp: is_read_def Let_def runPointRead_def runRangeRead_def dest!: single_eqD split: option.splits if_splits)

lemma write_plan_kind:
  assumes "RunOnce db now (writeWorkload scale c) w = Some (plan', out)"
  shows "\<not> is_read (fst (snd out))" "\<exists>c'. plan' = writeWorkload scale c'"
  using assms by (auto simp: is_read_def Let_def runInsert_def runUpdate_def kind_defs dest!: single_eqD split: option.splits if_splits)

lemma mixed_turns:
  assumes "scale_in_range n" and "unat c + k < 2 ^ 64"
  shows "\<exists>plan' w' ks. turns k db now (mixedWorkload p (readWorkload (ResolveScale n) cr) (writeWorkload (ResolveScale n) cw) c) w
      = Some (plan', w', ks) \<and> map is_read ks = map (read_turn p) [unat c + 1..<unat c + 1 + k]"
  using assms(2)
proof (induction k arbitrary: c cr cw w)
  case 0
  then show ?case by simp
next
  case (Suc k)
  let ?s = "ResolveScale n"
  have "unat c + unat (1 :: u64) < 2 ^ LENGTH(64)" using Suc.prems by simp
  then have u: "unat (c + 1) = unat c + 1" by (subst unat_add_lem [THEN iffD1]) simp_all
  have i: "to_i64 ((c + 1) mod 100) = int ((unat c + 1) mod 100)"
  proof -
    have "to_i64 ((c + 1) mod 100) = uint (c + 1) mod 100" using unat_mod_small [of 100 "c + 1"] by simp
    also have "uint (c + 1) = int (unat c + 1)" by (simp only: uint_nat u)
    finally show ?thesis by (simp only: zmod_int of_nat_numeral)
  qed
  have le: "unat (c + 1) + k < 2 ^ 64" using Suc.prems u by simp
  have ok: "plan_ok (readWorkload ?s cr)" "plan_ok (writeWorkload ?s cw)" using assms(1) by auto
  have upt: "[unat c + 1..<unat c + 1 + Suc k] = (unat c + 1) # [unat (c + 1) + 1..<unat (c + 1) + 1 + k]"
    using u by (simp add: upt_conv_Cons)
  show ?case
  proof (cases "read_turn p (unat c + 1)")
    case True
    obtain r' w1 kd e where r: "RunOnce db now (readWorkload ?s cr) w = Some (r', w1, kd, e)"
      using RunOnce_total [OF ok(1), of db now w] by auto
    obtain cr' where "r' = readWorkload ?s cr'" "is_read kd" using read_plan_kind [OF r] by auto
    with Suc.IH [OF le, of cr' cw w1] r True i upt show ?thesis by (auto simp: read_turn_def)
  next
    case False
    obtain v' w1 kd e where v: "RunOnce db now (writeWorkload ?s cw) w = Some (v', w1, kd, e)"
      using RunOnce_total [OF ok(2), of db now w] by auto
    obtain cw' where "v' = writeWorkload ?s cw'" "\<not> is_read kd" using write_plan_kind [OF v] by auto
    with Suc.IH [OF le, of cr cw' w1] v False i upt show ?thesis by (auto simp: read_turn_def)
  qed
qed

lemma read_turns_per_cycle:
  assumes "0 \<le> p" and "p \<le> 100"
  shows "length (filter (read_turn p) [a..<a + 100]) = nat p"
proof (induction a)
  case 0
  have "filter (read_turn p) [0..<100] = filter (\<lambda>i. i < nat p) [0..<100]"
    by (rule filter_cong) (auto simp: read_turn_def zless_nat_eq_int_zless)
  also have "\<dots> = [0..<nat p]"
  proof -
    have "[0..<100] = [0..<nat p] @ [nat p..<100]" using assms upt_add_eq_append [of 0 "nat p" "100 - nat p"] by simp
    then show ?thesis by (simp del: upt_Suc)
  qed
  finally show ?case by simp
next
  case (Suc a)
  have "[a..<a + 100] = a # [Suc a..<a + 100]" "[Suc a..<Suc a + 100] = [Suc a..<a + 100] @ [a + 100]"
    by (simp_all add: upt_conv_Cons)
  moreover have "read_turn p (a + 100) = read_turn p a" by (simp add: read_turn_def)
  ultimately show ?case using Suc.IH by auto
qed

text \<open>
  C37. A mixed workload performs exactly the configured share of reads: in any hundred
  consecutive turns of the shared counter, exactly \<open>read_percent\<close> are reads, whatever the
  database answers and wherever in its cycle the counter stands.
\<close>
theorem mixed_read_share_exact:
  assumes "scale_in_range n" and "0 \<le> p" and "p \<le> 100" and "unat c + 100 < 2 ^ 64"
  shows "\<exists>plan' w' ks. turns 100 db now
      (mixedWorkload p (readWorkload (ResolveScale n) cr) (writeWorkload (ResolveScale n) cw) c) w = Some (plan', w', ks)
    \<and> length ks = 100 \<and> length (filter is_read ks) = nat p"
proof -
  obtain plan' w' ks where ks: "turns 100 db now
      (mixedWorkload p (readWorkload (ResolveScale n) cr) (writeWorkload (ResolveScale n) cw) c) w = Some (plan', w', ks)"
    "map is_read ks = map (read_turn p) [unat c + 1..<unat c + 1 + 100]"
    using mixed_turns [OF assms(1,4), of db now p cr cw w] by blast
  have len: "length ks = 100" using arg_cong [OF ks(2), of length] by simp
  have "length (filter is_read ks) = length (filter id (map is_read ks))" by (simp add: filter_map comp_def)
  also have "\<dots> = length (filter (read_turn p) [unat c + 1..<unat c + 1 + 100])"
    unfolding ks(2) by (simp only: filter_map comp_def length_map id_def)
  also have "\<dots> = nat p" by (rule read_turns_per_cycle [OF assms(2,3)])
  finally show ?thesis using ks(1) len by blast
qed

theorem mixed_read_share_exact_witness:
  "\<exists>plan' w' ks. turns 100 quiet_db 5
      (mixedWorkload 80 (readWorkload (ResolveScale 10) 0) (writeWorkload (ResolveScale 10) 0) 0) () = Some (plan', w', ks)
    \<and> length (filter is_read ks) = 80"
  using mixed_read_share_exact [of 10 80 0 quiet_db 5 0 0 "()"] by (auto simp: scale_in_range_def)


subsection \<open>Lock conflicts are counted\<close>

text \<open>
  The type \<open>countedOperationError\<close> is private to the package, so no error of the database
  is one.
\<close>

definition counted :: "goerror option \<Rightarrow> bool" where
  "counted err \<longleftrightarrow> (case err of None \<Rightarrow> False | Some e \<Rightarrow> isCountedOperationError e)"

lemma counted_simps [simp]: "\<not> counted None" "counted (Some e) = isCountedOperationError e"
  by (simp_all add: counted_def)

definition plain_db :: "'w sqldb \<Rightarrow> bool" where
  "plain_db db \<longleftrightarrow>
     (\<forall>w. \<not> counted (snd (db_BeginTx db w)) \<and> \<not> counted (snd (db_Rollback db w)) \<and> \<not> counted (snd (db_Commit db w)))
   \<and> (\<forall>ex text args w. \<not> counted (snd (db_QueryRowScan db ex text args w))
        \<and> \<not> counted (snd (db_ExecContext db ex text args w)))"

lemma transactional_counted:
  assumes "plain_db db"
  shows "counted (snd (snd (runTransactionalOperation db kind labels step w))) \<longleftrightarrow>
    snd (db_BeginTx db w) = None \<and> counted (snd (step (fst (db_BeginTx db w))))"
proof -
  obtain w1 e1 where b: "db_BeginTx db w = (w1, e1)" by fastforce
  obtain w2 e2 where s: "step w1 = (w2, e2)" by fastforce
  obtain w3 e3 where c: "db_Commit db w2 = (w3, e3)" by fastforce
  obtain w4 e4 where r: "db_Rollback db w2 = (w4, e4)" by fastforce
  have p: "\<not> counted e1" "\<not> counted e3" "\<not> counted e4"
    using assms b c r unfolding plain_db_def by (metis snd_conv)+
  show ?thesis using b s c r p
    by (cases e1; cases e2; cases e3; cases e4) (auto simp: runTransactionalOperation_def)
qed

text \<open>
  The error of the statement of a turn that asks for the row lock, if the turn gets that far:
  its transaction began and its lock timeout was set.
\<close>

definition lock_statement_error :: "'w sqldb \<Rightarrow> ScaleModel \<Rightarrow> u64 \<Rightarrow> 'w \<Rightarrow> goerror option" where
  "lock_statement_error db scale iteration w =
     (let (w1, e1) = db_BeginTx db w; (w2, e2) = setLocalLockTimeout db OnTx lockTimeout w1;
          account = the (hotAccountID iteration scale)
      in if e1 \<noteq> None \<or> e2 \<noteq> None then None
         else if iteration mod 2 = 1 then snd (lockAccountNowaitQuery db OnTx account w2)
         else snd (accountUpdateQuery db OnTx account (amount iteration) w2))"

text \<open>Which of these errors the workload counts; on the others the run ends.\<close>

definition counts_lock_error :: "u64 \<Rightarrow> goerror option \<Rightarrow> bool" where
  "counts_lock_error iteration err \<longleftrightarrow>
     (case err of None \<Rightarrow> False | Some e \<Rightarrow> iteration mod 2 = 1 \<or> isLockNotAvailableError e)"

lemma plain_step:
  assumes "plain_db db"
  shows "counted (snd (lockContention_step db a w)) \<longleftrightarrow>
      snd (setLocalLockTimeout db OnTx lockTimeout w) = None
      \<and> snd (lockAccountNowaitQuery db OnTx a (fst (setLocalLockTimeout db OnTx lockTimeout w))) \<noteq> None"
    and "counted (snd (hotUpdate_step db a v w)) \<longleftrightarrow>
      snd (setLocalLockTimeout db OnTx lockTimeout w) = None
      \<and> (case snd (accountUpdateQuery db OnTx a v (fst (setLocalLockTimeout db OnTx lockTimeout w))) of
           None \<Rightarrow> False | Some e \<Rightarrow> isLockNotAvailableError e)"
proof -
  obtain w1 e1 where t: "setLocalLockTimeout db OnTx lockTimeout w = (w1, e1)" by fastforce
  obtain w2 e2 where q: "lockAccountNowaitQuery db OnTx a w1 = (w2, e2)" by fastforce
  obtain w3 e3 where u: "accountUpdateQuery db OnTx a v w1 = (w3, e3)" by fastforce
  have p: "\<not> counted e1" "\<not> counted e2" "\<not> counted e3"
    using assms t q u unfolding plain_db_def setLocalLockTimeout_def lockAccountNowaitQuery_def accountUpdateQuery_def
    by (metis snd_conv)+
  show "counted (snd (lockContention_step db a w)) \<longleftrightarrow>
      snd (setLocalLockTimeout db OnTx lockTimeout w) = None
      \<and> snd (lockAccountNowaitQuery db OnTx a (fst (setLocalLockTimeout db OnTx lockTimeout w))) \<noteq> None"
    using t q p by (cases e1; cases e2) (simp_all add: lockContention_step_def seqE_def)
  show "counted (snd (hotUpdate_step db a v w)) \<longleftrightarrow>
      snd (setLocalLockTimeout db OnTx lockTimeout w) = None
      \<and> (case snd (accountUpdateQuery db OnTx a v (fst (setLocalLockTimeout db OnTx lockTimeout w))) of
           None \<Rightarrow> False | Some e \<Rightarrow> isLockNotAvailableError e)"
    using t u p by (cases e1; cases e3) (simp_all add: hotUpdate_step_def seqE_def Let_def)
qed

text \<open>
  C38. What the lock workload counts as a failed operation, so that the run goes on: only an
  error of the statement that asks for the row lock, never one of beginning, of setting the
  timeout or of committing, and whether or not the rollback then fails. A refused lock,
  SQLSTATE 55P03, is always counted. Any other error of that statement ends the run in a hot
  update turn; but in a contention turn it is counted too, a lost connection or a missing
  row included, although only refused locks are meant to be.
\<close>
theorem lock_failures_counted:
  assumes "plain_db db" and "scale_in_range n"
  shows "\<exists>plan' w' kind err. RunOnce db now (lockWorkload (ResolveScale n) c) w = Some (plan', w', kind, err)
    \<and> (let e = lock_statement_error db (ResolveScale n) (c + 1) w in
         (counted err \<longrightarrow> e \<noteq> None)
       \<and> (\<forall>x. e = Some x \<and> isLockNotAvailableError x \<longrightarrow> counted err)
       \<and> (\<forall>x. e = Some x \<and> \<not> isLockNotAvailableError x \<longrightarrow> (counted err \<longleftrightarrow> (c + 1) mod 2 = 1)))"
proof -
  let ?s = "ResolveScale n" and ?i = "c + 1"
  let ?a = "uint (?i - 1) mod 8 + 1"
  have hot: "hotAccountID ?i ?s = Some ?a" by (rule hotAccountID_eq [OF assms(2)])
  obtain w1 e1 where b: "db_BeginTx db w = (w1, e1)" by fastforce
  obtain w2 e2 where t: "setLocalLockTimeout db OnTx lockTimeout w1 = (w2, e2)" by fastforce
  show ?thesis
  proof (cases "?i mod 2 = 1")
    case True
    have "counted (snd (snd (runTransactionalOperation db operationKindLockContention contention_labels
        (lockContention_step db ?a) w))) \<longleftrightarrow> counts_lock_error ?i (lock_statement_error db ?s ?i w)"
      unfolding transactional_counted [OF assms(1)] plain_step(1) [OF assms(1)]
      using True b t hot by (auto simp: lock_statement_error_def counts_lock_error_def Let_def split: option.splits)
    then show ?thesis using True hot
      by (cases "runTransactionalOperation db operationKindLockContention contention_labels
        (lockContention_step db ?a) w") (auto simp: Let_def runLockContention_def counts_lock_error_def split: option.splits)
  next
    case False
    have "counted (snd (snd (runTransactionalOperation db operationKindHotUpdate hot_labels
        (hotUpdate_step db ?a (amount ?i)) w))) \<longleftrightarrow> counts_lock_error ?i (lock_statement_error db ?s ?i w)"
      unfolding transactional_counted [OF assms(1)] plain_step(2) [OF assms(1)]
      using False b t hot by (auto simp: lock_statement_error_def counts_lock_error_def Let_def split: option.splits)
    then show ?thesis using False hot
      by (cases "runTransactionalOperation db operationKindHotUpdate hot_labels
        (hotUpdate_step db ?a (amount ?i)) w") (auto simp: Let_def runHotUpdate_def counts_lock_error_def split: option.splits)
  qed
qed

text \<open>A database that refuses every row lock, and one whose connection is lost.\<close>

definition refusing_db :: "goerror \<Rightarrow> unit sqldb" where
  "refusing_db err = quiet_db\<lparr>db_QueryRowScan := (\<lambda>ex text args w. (w, Some err))\<rparr>"

lemma refusing_lock:
  "lock_statement_error (refusing_db err) (ResolveScale 10) (0 + 1) () = Some err"
  by (simp add: lock_statement_error_def refusing_db_def quiet_db_def setLocalLockTimeout_def lockAccountNowaitQuery_def)

theorem lock_failures_counted_witness:
  "(\<exists>plan' w' kind err. RunOnce (refusing_db (PgError ''55P03'' ''could not obtain lock'')) 5 (lockWorkload (ResolveScale 10) 0) ()
      = Some (plan', w', kind, err) \<and> counted err)
   \<and> (\<exists>plan' w' kind err. RunOnce (refusing_db (Errorf ''connection lost'')) 5 (lockWorkload (ResolveScale 10) 0) ()
      = Some (plan', w', kind, err) \<and> counted err)"
proof -
  have plain: "plain_db (refusing_db (PgError ''55P03'' ''could not obtain lock''))" "plain_db (refusing_db (Errorf ''connection lost''))"
    by (simp_all add: plain_db_def refusing_db_def quiet_db_def)
  have "scale_in_range 10" by (simp add: scale_in_range_def)
  from lock_failures_counted [OF plain(1) this, of 5 0 "()"] lock_failures_counted [OF plain(2) this, of 5 0 "()"]
  show ?thesis unfolding refusing_lock Let_def by (auto; metis)
qed

end
