(* ===== verification/Pacing.thy ===== *)
theory Pacing
  imports Go_Errors
begin

text \<open>
  The pacing gate of \<open>internal/benchrunner/runtime.go\<close>. A ticker is a number: its place in
  the list of the tickers the clock created for the gate, which records the interval of
  each and whether it was stopped. \<open>time.NewTicker\<close> panics on an interval that is not
  positive and an integer division panics on zero, so \<open>Update\<close> has an option for a result.
\<close>

definition second :: duration where "second = 1000000000"

record realPacingGate =
  pg_ticker :: "nat option"
  pg_tickers :: "(duration \<times> bool) list"     \<comment> \<open>interval, stopped\<close>

definition NewTicker :: "duration \<Rightarrow> (duration \<times> bool) list \<Rightarrow> (nat \<times> (duration \<times> bool) list) option" where
  "NewTicker d tickers = (if d \<le> 0 then None else Some (length tickers, tickers @ [(d, False)]))"

definition ticker_Stop :: "nat \<Rightarrow> (duration \<times> bool) list \<Rightarrow> (duration \<times> bool) list" where
  "ticker_Stop i tickers = tickers[i := (fst (tickers ! i), True)]"

text \<open>\<open>if g.ticker != nil { g.ticker.Stop(); g.ticker = nil }\<close>, in \<open>Update\<close> and in \<open>Close\<close>.\<close>

definition gate_Close :: "realPacingGate \<Rightarrow> realPacingGate" where
  "gate_Close g =
     (case pg_ticker g of
        None \<Rightarrow> g
      | Some i \<Rightarrow> g\<lparr>pg_tickers := ticker_Stop i (pg_tickers g), pg_ticker := None\<rparr>)"

definition pacing_interval :: "int \<Rightarrow> duration option" where
  "pacing_interval targetTPS =
     (case quot_i64 second targetTPS of
        None \<Rightarrow> None
      | Some interval \<Rightarrow> Some (if interval \<le> 0 then 1 else interval))"

definition gate_Update :: "int option \<Rightarrow> realPacingGate \<Rightarrow> realPacingGate option" where
  "gate_Update targetTPS g =
     (let g = (case pg_ticker g of
                 None \<Rightarrow> g
               | Some i \<Rightarrow> g\<lparr>pg_tickers := ticker_Stop i (pg_tickers g), pg_ticker := None\<rparr>)
      in case targetTPS of
           None \<Rightarrow> Some g
         | Some tps \<Rightarrow>
             (case pacing_interval tps of
                None \<Rightarrow> None
              | Some interval \<Rightarrow>
                  (case NewTicker interval (pg_tickers g) of
                     None \<Rightarrow> None
                   | Some (t, tickers) \<Rightarrow> Some (g\<lparr>pg_tickers := tickers, pg_ticker := Some t\<rparr>))))"

definition newRealPacingGate :: "int option \<Rightarrow> realPacingGate option" where
  "newRealPacingGate targetTPS = gate_Update targetTPS \<lparr>pg_ticker = None, pg_tickers = []\<rparr>"

text \<open>
  The results \<open>Wait\<close> may return, given whether its context is done: without a ticker it
  returns at once; with one it waits for a tick or for the end of the context, and may
  take either when both are ready.
\<close>

inductive gate_Wait :: "realPacingGate \<Rightarrow> bool \<Rightarrow> goerror option \<Rightarrow> bool" where
  unpaced: "pg_ticker g = None \<Longrightarrow> gate_Wait g ctx_done None"
| ticked: "pg_ticker g = Some t \<Longrightarrow> gate_Wait g ctx_done None"
| ctx_ended: "pg_ticker g = Some t \<Longrightarrow> ctx_done \<Longrightarrow> gate_Wait g ctx_done (Some (Sentinel Canceled))"

inductive_simps gate_Wait_simps: "gate_Wait g ctx_done r"

section \<open>At most one ticker is live\<close>

definition live_tickers :: "realPacingGate \<Rightarrow> nat set" where
  "live_tickers g = {i. i < length (pg_tickers g) \<and> \<not> snd (pg_tickers g ! i)}"

definition gate_inv :: "realPacingGate \<Rightarrow> bool" where
  "gate_inv g \<longleftrightarrow> live_tickers g = (case pg_ticker g of None \<Rightarrow> {} | Some i \<Rightarrow> {i})"

lemma live_tickers_Stop:
  "i < length (pg_tickers g) \<Longrightarrow>
   live_tickers (g\<lparr>pg_tickers := ticker_Stop i (pg_tickers g), pg_ticker := None\<rparr>) = live_tickers g - {i}"
  by (auto simp: live_tickers_def ticker_Stop_def nth_list_update)

lemma gate_Close_inv [run_inv]: "gate_inv g \<Longrightarrow> gate_inv (gate_Close g) \<and> live_tickers (gate_Close g) = {}"
proof (cases "pg_ticker g")
  case (Some i)
  assume "gate_inv g"
  then have l: "live_tickers g = {i}" using Some by (simp add: gate_inv_def)
  then have "i < length (pg_tickers g)" by (auto simp: live_tickers_def)
  from live_tickers_Stop [OF this] l Some show ?thesis by (simp add: gate_inv_def gate_Close_def)
qed (simp add: gate_inv_def gate_Close_def)

lemma pacing_interval_pos:
  assumes "1 \<le> tps"
  shows "pacing_interval tps = Some (max 1 (second div tps))"
proof -
  have "quot_i64 second tps = Some (second div tps)" using assms by (intro quot_i64_pos) (auto simp: second_def)
  then show ?thesis by (auto simp: pacing_interval_def max_def)
qed

lemma gate_Update_close: "gate_Update targetTPS g = gate_Update targetTPS (gate_Close g)"
  by (simp add: gate_Update_def gate_Close_def Let_def split: option.splits)

lemma gate_Update_eq:
  assumes "\<And>tps. targetTPS = Some tps \<Longrightarrow> 1 \<le> tps"
  shows "gate_Update targetTPS g =
    (let g = gate_Close g in
     case targetTPS of None \<Rightarrow> Some g
     | Some tps \<Rightarrow> Some (g\<lparr>pg_tickers := pg_tickers g @ [(max 1 (second div tps), False)],
                          pg_ticker := Some (length (pg_tickers g))\<rparr>))"
proof (cases targetTPS)
  case (Some tps)
  then have "pacing_interval tps = Some (max 1 (second div tps))" using assms by (intro pacing_interval_pos) simp
  with Some show ?thesis
    by (simp add: gate_Update_def gate_Close_def NewTicker_def Let_def split: option.splits)
qed (simp add: gate_Update_def gate_Close_def Let_def)

lemma gate_Update_inv [run_inv]:
  assumes "gate_inv g" and "gate_Update targetTPS g = Some g'" and "\<And>tps. targetTPS = Some tps \<Longrightarrow> 1 \<le> tps"
  shows "gate_inv g'"
proof -
  let ?c = "gate_Close g"
  have c: "live_tickers ?c = {}" "gate_inv ?c" using gate_Close_inv [OF assms(1)] by simp_all
  show ?thesis
  proof (cases targetTPS)
    case None
    with assms(2) c gate_Update_eq [OF assms(3), of targetTPS g] show ?thesis by (simp add: Let_def)
  next
    case (Some tps)
    then have g': "g' = ?c\<lparr>pg_tickers := pg_tickers ?c @ [(max 1 (second div tps), False)],
        pg_ticker := Some (length (pg_tickers ?c))\<rparr>"
      using assms(2) gate_Update_eq [OF assms(3), of targetTPS g] by (simp add: Let_def)
    have "live_tickers g' = insert (length (pg_tickers ?c)) (live_tickers ?c)"
      unfolding g' by (auto simp: live_tickers_def nth_append less_Suc_eq)
    then show ?thesis using c(1) by (simp add: gate_inv_def g')
  qed
qed

lemma newRealPacingGate_inv:
  assumes "\<And>tps. targetTPS = Some tps \<Longrightarrow> 1 \<le> tps" and "newRealPacingGate targetTPS = Some g"
  shows "gate_inv g"
  by (rule gate_Update_inv [OF _ assms(2) [unfolded newRealPacingGate_def] assms(1)])
    (simp add: gate_inv_def live_tickers_def)

section \<open>Properties of the gate\<close>

text \<open>The gate after a list of target changes.\<close>

fun gate_updates :: "int option list \<Rightarrow> realPacingGate \<Rightarrow> realPacingGate option" where
  "gate_updates [] g = Some g"
| "gate_updates (t # ts) g = (case gate_Update t g of None \<Rightarrow> None | Some g' \<Rightarrow> gate_updates ts g')"

lemma gate_updates_inv:
  assumes "gate_inv g" and "\<forall>t \<in> set ts. \<forall>tps. t = Some tps \<longrightarrow> 1 \<le> tps"
  shows "\<exists>g'. gate_updates ts g = Some g' \<and> gate_inv g'"
  using assms
proof (induction ts arbitrary: g)
  case (Cons t ts)
  have t: "1 \<le> tps" if "t = Some tps" for tps using Cons.prems(2) that by simp
  obtain g1 where g1: "gate_Update t g = Some g1"
    using gate_Update_eq [of t g] t by (cases t) (auto simp: Let_def)
  have "gate_inv g1" by (rule gate_Update_inv [OF Cons.prems(1) g1 t])
  from Cons.IH [OF this] Cons.prems(2) g1 show ?case by simp
qed simp

text \<open>
  C31. Pacing is safe for every accepted target: creating the gate and any sequence of
  changes of the target never panics, and at every moment at most one ticker is live,
  namely the current one; closing the gate leaves none.
\<close>
theorem pacing_tickers_bounded:
  assumes "\<forall>t \<in> set (targetTPS # ts). \<forall>tps. t = Some tps \<longrightarrow> 1 \<le> tps"
  shows "\<exists>g0 g. newRealPacingGate targetTPS = Some g0 \<and> gate_updates ts g0 = Some g
    \<and> live_tickers g = (case pg_ticker g of None \<Rightarrow> {} | Some i \<Rightarrow> {i})
    \<and> live_tickers (gate_Close g) = {}"
proof -
  have t: "\<And>tps. targetTPS = Some tps \<Longrightarrow> 1 \<le> tps" using assms by simp
  obtain g0 where g0: "newRealPacingGate targetTPS = Some g0"
    using gate_Update_eq [OF t] unfolding newRealPacingGate_def
    by (cases targetTPS) (auto simp: Let_def)
  obtain g where g: "gate_updates ts g0 = Some g" "gate_inv g"
    using gate_updates_inv [OF newRealPacingGate_inv [OF t g0], of ts] assms by auto
  with g0 gate_Close_inv [OF g(2)] show ?thesis by (auto simp: gate_inv_def)
qed

theorem pacing_tickers_bounded_witness:
  "\<exists>g0 g. newRealPacingGate (Some 100) = Some g0 \<and> gate_updates [Some 5, None, Some 7] g0 = Some g
    \<and> live_tickers (gate_Close g) = {}"
  using pacing_tickers_bounded [of "Some 100" "[Some 5, None, Some 7]"] by auto

text \<open>
  The tick interval realises the target rate: for a target of at most a thousand
  million operations per second it is a thousand million nanoseconds divided by the
  target, rounded down, so the gate never paces below the target, and the excess is less
  than one nanosecond per operation; for larger targets it is one nanosecond.
\<close>
theorem pacing_interval_rate:
  assumes "1 \<le> tps"
  shows "\<exists>d. pacing_interval tps = Some d \<and> 1 \<le> d
    \<and> (if tps \<le> second then d * tps \<le> second \<and> second < (d + 1) * tps else d = 1)"
proof (cases "tps \<le> second")
  case True
  then have d: "1 \<le> second div tps" using assms by (simp add: pos_imp_zdiv_pos_iff int_one_le_iff_zero_less)
  have "second div tps * tps + second mod tps = second" by (rule div_mult_mod_eq)
  moreover have "0 \<le> second mod tps" "second mod tps < tps" using assms by simp_all
  ultimately have "second div tps * tps \<le> second" "second < (second div tps + 1) * tps"
    unfolding distrib_right by linarith+
  with d pacing_interval_pos [OF assms] True show ?thesis by (simp add: max_def)
next
  case False
  then have "second div tps = 0" using assms by (simp add: second_def)
  with pacing_interval_pos [OF assms] False show ?thesis by simp
qed

theorem pacing_interval_rate_witness:
  "\<exists>d. pacing_interval 3 = Some d \<and> 1 \<le> d \<and> d * 3 \<le> 1000000000 \<and> 1000000000 < (d + 1) * 3"
  using pacing_interval_rate [of 3] by (simp add: second_def)

end
