(* ===== verification/Worker_Pool.thy ===== *)
theory Worker_Pool
  imports Run_Stats Pacing Options Transition_Systems
begin

text \<open>
  A running benchmark, \<open>activeRun\<close> of \<open>internal/benchrunner/runtime.go\<close>: its pool of worker
  goroutines, the watchers of the parent context and of the duration, and the goroutine
  that waits for the workers and closes \<open>done\<close>. The functions below are the sections the
  code executes under \<open>r.mu\<close>; the step relation interleaves them with the steps of the
  goroutines, each goroutine being described by where it stands in its code.

  The constant fields \<open>db\<close>, \<open>scale\<close>, \<open>plan\<close> and \<open>clock\<close> appear through their effects: what
  \<open>RunOnce\<close> returns and what \<open>Now\<close> returns are inputs of the steps. \<open>workers\<close> is a set of
  worker ids, since the cancel function stored for an id cancels the context of that
  worker. Worker ids are unbounded: the step relation does not start \<open>2\<^sup>63\<close> workers.
\<close>

section \<open>State\<close>

datatype worker_pc =
    WLoop                              \<comment> \<open>at the head of the loop\<close>
  | WRunning gotime                    \<comment> \<open>in \<open>RunOnce\<close>, started at\<close>
  | WRecorded "goerror option"         \<comment> \<open>after \<open>stats.record\<close>\<close>
  | WFinish "goerror option"           \<comment> \<open>in \<open>r.finish(err)\<close>\<close>
  | WReturned                          \<comment> \<open>returned, before \<open>defer r.workerStopped\<close>\<close>
  | WStopped                           \<comment> \<open>before \<open>defer r.wg.Done\<close>\<close>

datatype watch_pc = Watching | WatchFinish "goerror option" | WatchEnded

text \<open>The body of \<open>finishOnce.Do\<close>, statement by statement.\<close>

datatype once_pc =
    OnceNew
  | OnceBegun "goerror option"         \<comment> \<open>before \<open>r.finalErr = err\<close>\<close>
  | OnceErrSet "goerror option"        \<comment> \<open>before \<open>r.stats.finish\<close>\<close>
  | OnceStatsDone "goerror option"     \<comment> \<open>before \<open>r.stopCancel()\<close>\<close>
  | OnceDone "goerror option"

datatype await_pc = AwaitWorkers | AwaitClose | AwaitDone

record activeRun =
  ar_pace :: realPacingGate
  ar_stats :: runStats
  ar_stopped :: bool                   \<comment> \<open>\<open>stopCtx\<close> is cancelled\<close>
  ar_workers :: "int set"
  ar_cancelled :: "int set"            \<comment> \<open>workers whose own cancel function was called\<close>
  ar_nextID :: int
  ar_finalErr :: "goerror option"
  ar_once :: once_pc
  ar_wg :: nat
  ar_threads :: "int \<rightharpoonup> worker_pc"   \<comment> \<open>the worker goroutines that have not ended\<close>
  ar_parent :: watch_pc
  ar_timer :: watch_pc
  ar_await :: await_pc

definition ar_done :: "activeRun \<Rightarrow> bool" where
  "ar_done r \<longleftrightarrow> ar_await r = AwaitDone"

section \<open>Resizing the pool\<close>

definition startWorkerLocked :: "activeRun \<Rightarrow> activeRun" where
  "startWorkerLocked r =
     (let workerID = ar_nextID r;
          r = r\<lparr>ar_nextID := ar_nextID r + 1\<rparr>;
          r = r\<lparr>ar_workers := insert workerID (ar_workers r)\<rparr>;
          r = r\<lparr>ar_wg := ar_wg r + 1\<rparr>;
          r = r\<lparr>ar_stats := workerStarted (ar_stats r)\<rparr>
      in r\<lparr>ar_threads := (ar_threads r)(workerID \<mapsto> WLoop)\<rparr>)"

text \<open>
  \<open>for len(r.workers) < target\<close>. Every turn adds a worker under a fresh id, so the target
  is reached within \<open>target\<close> turns (\<open>grow_loop_card\<close>).
\<close>

fun grow_loop :: "nat \<Rightarrow> int \<Rightarrow> activeRun \<Rightarrow> activeRun" where
  "grow_loop 0 target r = r"
| "grow_loop (Suc fuel) target r =
     (if int (card (ar_workers r)) < target then grow_loop fuel target (startWorkerLocked r) else r)"

fun shrink_loop :: "int \<Rightarrow> int list \<Rightarrow> activeRun \<Rightarrow> activeRun" where
  "shrink_loop target [] r = r"
| "shrink_loop target (workerID # ids) r =
     (if int (card (ar_workers r)) \<le> target then r
      else shrink_loop target ids
             (r\<lparr>ar_workers := ar_workers r - {workerID}, ar_cancelled := insert workerID (ar_cancelled r)\<rparr>))"

definition resizeWorkers :: "int \<Rightarrow> activeRun \<Rightarrow> activeRun" where
  "resizeWorkers target r =
     (let r = r\<lparr>ar_stats := setConfiguredClients (ar_stats r) target\<rparr>;
          r = grow_loop (nat target) target r
      in if int (card (ar_workers r)) \<le> target then r
         else (let workerIDs = rev (sorted_list_of_set (ar_workers r))
               in shrink_loop target workerIDs r))"

definition ar_workerStopped :: "int \<Rightarrow> activeRun \<Rightarrow> activeRun" where
  "ar_workerStopped workerID r =
     r\<lparr>ar_workers := ar_workers r - {workerID}, ar_stats := stats_workerStopped (ar_stats r)\<rparr>"

section \<open>Creating, altering, sampling\<close>

definition seconds :: "int \<Rightarrow> duration" where
  "seconds n = wrap64 (n * second)"

text \<open>The composite literal of \<open>newActiveRun\<close>, then the whole function.\<close>

definition blankRun :: "StartOptions \<Rightarrow> realPacingGate \<Rightarrow> gotime \<Rightarrow> activeRun" where
  "blankRun options pace now =
     \<lparr>ar_pace = pace,
      ar_stats = newRunStats now (seconds (so_WarmupSeconds options)) (so_Clients options),
      ar_stopped = False, ar_workers = {}, ar_cancelled = {}, ar_nextID = 0, ar_finalErr = None,
      ar_once = OnceNew, ar_wg = 0, ar_threads = Map.empty, ar_parent = Watching, ar_timer = Watching,
      ar_await = AwaitWorkers\<rparr>"

definition newActiveRun :: "StartOptions \<Rightarrow> realPacingGate \<Rightarrow> gotime \<Rightarrow> activeRun" where
  "newActiveRun options pace now =
     (let run = blankRun options pace now in resizeWorkers (so_Clients options) run)"

text \<open>The delay after which \<open>watchDuration\<close> fires.\<close>

definition run_duration :: "StartOptions \<Rightarrow> duration" where
  "run_duration options = seconds (so_DurationSeconds options)"

definition ar_Alter :: "AlterOptions \<Rightarrow> activeRun \<Rightarrow> (activeRun \<times> goerror option) option" where
  "ar_Alter options r =
     (if ao_Clients options = None \<and> ao_TargetTPS options = None
        then Some (r, Some (Errorf ''alter request must include at least one field''))
      else if ao_Clients options \<noteq> None \<and> the (ao_Clients options) < 1
        then Some (r, Some (Errorf ''clients must be at least 1''))
      else if ao_TargetTPS options \<noteq> None \<and> the (ao_TargetTPS options) < 1
        then Some (r, Some (Errorf ''target_tps must be at least 1''))
      else
        (case (if ao_TargetTPS options \<noteq> None then gate_Update (ao_TargetTPS options) (ar_pace r)
               else Some (ar_pace r)) of
           None \<Rightarrow> None
         | Some pace \<Rightarrow>
             (let r = r\<lparr>ar_pace := pace\<rparr>;
                  r = (case ao_Clients options of None \<Rightarrow> r | Some target \<Rightarrow> resizeWorkers target r)
              in Some (r, None))))"

definition ar_Sample :: "activeRun \<Rightarrow> gotime \<Rightarrow> Sample" where
  "ar_Sample r now = stats_sample (ar_stats r) now"

text \<open>\<open>Wait\<close> returns once \<open>done\<close> is closed.\<close>

definition ar_Wait :: "activeRun \<Rightarrow> goerror option option" where
  "ar_Wait r = (if ar_done r then Some (ar_finalErr r) else None)"

section \<open>The goroutines\<close>

text \<open>\<open>ctx.Err() != nil\<close> of a worker: its own cancel function or that of \<open>stopCtx\<close> was called.\<close>

definition ctx_done :: "int \<Rightarrow> activeRun \<Rightarrow> bool" where
  "ctx_done workerID r \<longleftrightarrow> ar_stopped r \<or> workerID \<in> ar_cancelled r"

definition set_pc :: "int \<Rightarrow> worker_pc \<Rightarrow> activeRun \<Rightarrow> activeRun" where
  "set_pc workerID pc r = r\<lparr>ar_threads := (ar_threads r)(workerID \<mapsto> pc)\<rparr>"

text \<open>What the loop does with the result of \<open>r.pace.Wait\<close>.\<close>

definition after_pace :: "int \<Rightarrow> goerror option \<Rightarrow> gotime \<Rightarrow> activeRun \<Rightarrow> activeRun" where
  "after_pace workerID err now r =
     (case err of
        Some e \<Rightarrow> (if ctx_done workerID r then set_pc workerID WReturned r
                   else set_pc workerID (WFinish (Some (Wrap ''pace workload'' e))) r)
      | None \<Rightarrow> set_pc workerID (WRunning now) r)"

text \<open>What it does when \<open>RunOnce\<close> returned, up to and including \<open>stats.record\<close>.\<close>

definition after_RunOnce ::
  "int \<Rightarrow> gotime \<Rightarrow> int \<Rightarrow> goerror option \<Rightarrow> gotime \<Rightarrow> activeRun \<Rightarrow> activeRun" where
  "after_RunOnce workerID startedAt kind err finishedAt r =
     (if err \<noteq> None \<and> ctx_done workerID r then set_pc workerID WReturned r
      else set_pc workerID (WRecorded err)
             (r\<lparr>ar_stats := stats_record (ar_stats r) kind (time_sub finishedAt startedAt) finishedAt err\<rparr>))"

text \<open>The tests after \<open>stats.record\<close>.\<close>

definition after_record :: "int \<Rightarrow> goerror option \<Rightarrow> activeRun \<Rightarrow> activeRun" where
  "after_record workerID err r =
     (case err of
        None \<Rightarrow> set_pc workerID WLoop r
      | Some e \<Rightarrow>
          (if ctx_done workerID r then set_pc workerID WReturned r
           else if isCountedOperationError e then set_pc workerID WLoop r
           else set_pc workerID (WFinish (Some e)) r))"

text \<open>Entering \<open>finishOnce.Do\<close>: the first caller runs the body, the others wait for it.\<close>

definition once_enter :: "goerror option \<Rightarrow> activeRun \<Rightarrow> activeRun" where
  "once_enter err r = (if ar_once r = OnceNew then r\<lparr>ar_once := OnceBegun err\<rparr> else r)"

definition once_returns :: "activeRun \<Rightarrow> bool" where
  "once_returns r \<longleftrightarrow> (case ar_once r of OnceDone _ \<Rightarrow> True | _ \<Rightarrow> False)"

text \<open>The statements of the body of \<open>finish\<close>.\<close>

definition finish_step :: "gotime \<Rightarrow> activeRun \<Rightarrow> activeRun option" where
  "finish_step now r =
     (case ar_once r of
        OnceBegun err \<Rightarrow> Some (r\<lparr>ar_finalErr := err, ar_once := OnceErrSet err\<rparr>)
      | OnceErrSet err \<Rightarrow> Some (r\<lparr>ar_stats := stats_finish (ar_stats r) now err, ar_once := OnceStatsDone err\<rparr>)
      | OnceStatsDone err \<Rightarrow> Some (r\<lparr>ar_stopped := True, ar_once := OnceDone err\<rparr>)
      | _ \<Rightarrow> None)"

datatype pool_event =
    PvAlter AlterOptions
  | PvPaced int "goerror option" gotime
  | PvRan int int "goerror option" gotime
  | PvChecked int
  | PvFinishCalled int
  | PvFinishReturned int
  | PvWorkerStopped int
  | PvWgDone int
  | PvParentDone "goerror option"
  | PvParentFinish
  | PvParentReturned
  | PvTimerFired
  | PvTimerFinish
  | PvTimerReturned
  | PvWatchersEnd
  | PvFinishBody gotime
  | PvAllStopped
  | PvClosed

text \<open>The number of workers a resize may start, all within the range of \<open>int\<close>.\<close>

definition within_int :: "activeRun \<Rightarrow> bool" where
  "within_int r \<longleftrightarrow> ar_nextID r < 2 ^ 63"

inductive pool_step :: "activeRun \<Rightarrow> pool_event \<Rightarrow> activeRun \<Rightarrow> bool" where
  alter: "ar_Alter options r = Some (r', res) \<Longrightarrow> within_int r' \<Longrightarrow> pool_step r (PvAlter options) r'"
| paced: "ar_threads r i = Some WLoop \<Longrightarrow> gate_Wait (ar_pace r) (ctx_done i r) err \<Longrightarrow>
    pool_step r (PvPaced i err now) (after_pace i err now r)"
| ran: "ar_threads r i = Some (WRunning startedAt) \<Longrightarrow>
    pool_step r (PvRan i kind err finishedAt) (after_RunOnce i startedAt kind err finishedAt r)"
| checked: "ar_threads r i = Some (WRecorded err) \<Longrightarrow> pool_step r (PvChecked i) (after_record i err r)"
| finish_called: "ar_threads r i = Some (WFinish err) \<Longrightarrow> pool_step r (PvFinishCalled i) (once_enter err r)"
| finish_returned: "ar_threads r i = Some (WFinish err) \<Longrightarrow> once_returns r \<Longrightarrow>
    pool_step r (PvFinishReturned i) (set_pc i WReturned r)"
| worker_stopped: "ar_threads r i = Some WReturned \<Longrightarrow>
    pool_step r (PvWorkerStopped i) (set_pc i WStopped (ar_workerStopped i r))"
| wg_done: "ar_threads r i = Some WStopped \<Longrightarrow>
    pool_step r (PvWgDone i) (r\<lparr>ar_wg := ar_wg r - 1, ar_threads := (ar_threads r)(i := None)\<rparr>)"
| parent_done: "ar_parent r = Watching \<Longrightarrow>
    err = Some (Sentinel Canceled) \<or> err = Some (Sentinel DeadlineExceeded) \<Longrightarrow>
    pool_step r (PvParentDone err) (r\<lparr>ar_parent := WatchFinish err\<rparr>)"
| parent_finish: "ar_parent r = WatchFinish err \<Longrightarrow> pool_step r PvParentFinish (once_enter err r)"
| parent_returned: "ar_parent r = WatchFinish err \<Longrightarrow> once_returns r \<Longrightarrow>
    pool_step r PvParentReturned (r\<lparr>ar_parent := WatchEnded\<rparr>)"
| timer_fired: "ar_timer r = Watching \<Longrightarrow> pool_step r PvTimerFired (r\<lparr>ar_timer := WatchFinish None\<rparr>)"
| timer_finish: "ar_timer r = WatchFinish err \<Longrightarrow> pool_step r PvTimerFinish (once_enter err r)"
| timer_returned: "ar_timer r = WatchFinish err \<Longrightarrow> once_returns r \<Longrightarrow>
    pool_step r PvTimerReturned (r\<lparr>ar_timer := WatchEnded\<rparr>)"
| watchers_end: "ar_done r \<Longrightarrow>
    pool_step r PvWatchersEnd
      (r\<lparr>ar_parent := (if ar_parent r = Watching then WatchEnded else ar_parent r),
         ar_timer := (if ar_timer r = Watching then WatchEnded else ar_timer r)\<rparr>)"
| finish_body: "finish_step now r = Some r' \<Longrightarrow> pool_step r (PvFinishBody now) r'"
| all_stopped: "ar_await r = AwaitWorkers \<Longrightarrow> ar_wg r = 0 \<Longrightarrow>
    pool_step r PvAllStopped (r\<lparr>ar_await := AwaitClose\<rparr>)"
| closed: "ar_await r = AwaitClose \<Longrightarrow>
    pool_step r PvClosed (r\<lparr>ar_pace := gate_Close (ar_pace r), ar_await := AwaitDone\<rparr>)"

text \<open>A run as \<open>runner.Start\<close> creates it from options it accepts.\<close>

definition pool_init :: "activeRun \<Rightarrow> bool" where
  "pool_init r \<longleftrightarrow> (\<exists>options pace now. validateStartOptions options = None \<and> so_Clients options < 2 ^ 63
     \<and> newRealPacingGate (so_TargetTPS options) = Some pace \<and> r = newActiveRun options pace now)"

section \<open>The invariant of the pool\<close>

definition live :: "activeRun \<Rightarrow> int set" where
  "live r = {i. ar_threads r i \<noteq> None \<and> ar_threads r i \<noteq> Some WStopped}"

text \<open>The ids, the map of workers and the wait group describe the goroutines.\<close>

definition pool_ids :: "activeRun \<Rightarrow> bool" where
  "pool_ids r \<longleftrightarrow> dom (ar_threads r) \<subseteq> {0..<ar_nextID r} \<and> ar_cancelled r \<subseteq> {0..<ar_nextID r}
     \<and> ar_workers r = live r - ar_cancelled r \<and> ar_wg r = card (dom (ar_threads r)) \<and> 0 \<le> ar_nextID r"

definition pool_count :: "activeRun \<Rightarrow> bool" where
  "pool_count r \<longleftrightarrow> rs_activeClients (ar_stats r) = int (card (live r))"

text \<open>Until \<open>finish\<close> has completed, only workers that were resized away have returned.\<close>

definition pool_open :: "activeRun \<Rightarrow> bool" where
  "pool_open r \<longleftrightarrow> (\<not> once_returns r \<longrightarrow> \<not> ar_stopped r \<and> ar_await r = AwaitWorkers
     \<and> (\<forall>i. ar_threads r i = Some WReturned \<or> ar_threads r i = Some WStopped \<longrightarrow> i \<in> ar_cancelled r))"

definition pool_some :: "activeRun \<Rightarrow> bool" where
  "pool_some r \<longleftrightarrow> (\<not> once_returns r \<longrightarrow> ar_workers r \<noteq> {})"

text \<open>The progress of \<open>finish\<close>, and where the errors it is called with come from.\<close>

definition once_ok :: "once_pc \<Rightarrow> goerror option \<Rightarrow> gotime option \<Rightarrow> bool \<Rightarrow> bool" where
  "once_ok pc finalErr finishedAt stopped \<longleftrightarrow>
     (case pc of
        OnceNew \<Rightarrow> finalErr = None \<and> finishedAt = None \<and> \<not> stopped
      | OnceBegun err \<Rightarrow> finalErr = None \<and> finishedAt = None \<and> \<not> stopped
      | OnceErrSet err \<Rightarrow> finalErr = err \<and> finishedAt = None \<and> \<not> stopped
      | OnceStatsDone err \<Rightarrow> finalErr = err \<and> finishedAt \<noteq> None \<and> \<not> stopped
      | OnceDone err \<Rightarrow> finalErr = err \<and> finishedAt \<noteq> None \<and> stopped)"

definition uncounted :: "goerror option \<Rightarrow> bool" where
  "uncounted err \<longleftrightarrow> (case err of None \<Rightarrow> True | Some e \<Rightarrow> \<not> isCountedOperationError e)"

fun once_error :: "once_pc \<Rightarrow> goerror option" where
  "once_error OnceNew = None"
| "once_error (OnceBegun err) = err"
| "once_error (OnceErrSet err) = err"
| "once_error (OnceStatsDone err) = err"
| "once_error (OnceDone err) = err"

definition pool_finish :: "activeRun \<Rightarrow> bool" where
  "pool_finish r \<longleftrightarrow> once_ok (ar_once r) (ar_finalErr r) (rs_finishedAt (ar_stats r)) (ar_stopped r)
     \<and> uncounted (once_error (ar_once r))
     \<and> (\<forall>i err. ar_threads r i = Some (WFinish err) \<longrightarrow> uncounted err)
     \<and> (\<forall>err. ar_parent r = WatchFinish err \<or> ar_timer r = WatchFinish err \<longrightarrow> uncounted err)"

definition pool_inv :: "activeRun \<Rightarrow> bool" where
  "pool_inv r \<longleftrightarrow> pool_ids r \<and> pool_count r \<and> pool_open r \<and> pool_some r \<and> pool_finish r \<and> within_int r
     \<and> gate_inv (ar_pace r)"

lemma pool_ids_finite: "pool_ids r \<Longrightarrow> finite (dom (ar_threads r)) \<and> finite (live r) \<and> finite (ar_workers r)"
proof -
  assume p: "pool_ids r"
  then have d: "finite (dom (ar_threads r))"
    unfolding pool_ids_def using finite_subset [OF _ finite_atLeastLessThan_int] by blast
  moreover have "live r \<subseteq> dom (ar_threads r)" by (auto simp: live_def)
  ultimately show ?thesis using p finite_subset by (auto simp: pool_ids_def)
qed

lemma pool_live_bound: "pool_ids r \<Longrightarrow> int (card (live r)) \<le> ar_nextID r"
proof -
  assume p: "pool_ids r"
  have "live r \<subseteq> {0..<ar_nextID r}" using p by (auto simp: pool_ids_def live_def)
  then have "card (live r) \<le> card {0..<ar_nextID r}" by (intro card_mono) auto
  then show ?thesis using p by (auto simp: pool_ids_def)
qed

subsection \<open>Resizing\<close>

lemma start_fields [simp]:
  "ar_nextID (startWorkerLocked r) = ar_nextID r + 1"
  "ar_workers (startWorkerLocked r) = insert (ar_nextID r) (ar_workers r)"
  "ar_wg (startWorkerLocked r) = ar_wg r + 1"
  "ar_stats (startWorkerLocked r) = workerStarted (ar_stats r)"
  "ar_threads (startWorkerLocked r) = (ar_threads r)(ar_nextID r \<mapsto> WLoop)"
  "ar_cancelled (startWorkerLocked r) = ar_cancelled r"
  "ar_once (startWorkerLocked r) = ar_once r" "ar_stopped (startWorkerLocked r) = ar_stopped r"
  "ar_await (startWorkerLocked r) = ar_await r" "ar_pace (startWorkerLocked r) = ar_pace r"
  "ar_finalErr (startWorkerLocked r) = ar_finalErr r" "ar_parent (startWorkerLocked r) = ar_parent r"
  "ar_timer (startWorkerLocked r) = ar_timer r"
  by (simp_all add: startWorkerLocked_def Let_def)

lemma fresh_id:
  assumes "pool_ids r"
  shows "ar_threads r (ar_nextID r) = None" "ar_nextID r \<notin> ar_cancelled r" "ar_nextID r \<notin> ar_workers r"
    "ar_nextID r \<notin> live r"
  using assms by (auto simp: pool_ids_def live_def)

lemma live_start: "pool_ids r \<Longrightarrow> live (startWorkerLocked r) = insert (ar_nextID r) (live r)"
  by (auto simp: live_def)

lemma start_ids:
  assumes "pool_ids r"
  shows "pool_ids (startWorkerLocked r)"
proof -
  have "live (startWorkerLocked r) - ar_cancelled r = insert (ar_nextID r) (live r - ar_cancelled r)"
    using live_start [OF assms] fresh_id(2) [OF assms] by auto
  moreover have "card (insert (ar_nextID r) (dom (ar_threads r))) = Suc (card (dom (ar_threads r)))"
    using fresh_id(1) [OF assms] pool_ids_finite [OF assms] by (simp add: domIff)
  ultimately show ?thesis using assms by (auto simp: pool_ids_def)
qed

lemma start_count:
  assumes "pool_ids r" and "pool_count r" and "ar_nextID r + 1 < 2 ^ 63"
  shows "pool_count (startWorkerLocked r)"
proof -
  have "card (insert (ar_nextID r) (live r)) = Suc (card (live r))"
    using fresh_id(4) [OF assms(1)] pool_ids_finite [OF assms(1)] by simp
  moreover have "wrap64 (int (card (live r)) + 1) = int (card (live r)) + 1"
    using pool_live_bound [OF assms(1)] assms(3) by (intro wrap64_small) auto
  ultimately show ?thesis
    using assms(2) live_start [OF assms(1)] by (simp add: pool_count_def workerStarted_def)
qed

text \<open>The fields a resize leaves alone.\<close>

definition same_control :: "activeRun \<Rightarrow> activeRun \<Rightarrow> bool" where
  "same_control r r' \<longleftrightarrow> ar_once r' = ar_once r \<and> ar_stopped r' = ar_stopped r \<and> ar_await r' = ar_await r
     \<and> ar_pace r' = ar_pace r \<and> ar_finalErr r' = ar_finalErr r \<and> ar_parent r' = ar_parent r
     \<and> ar_timer r' = ar_timer r \<and> rs_finishedAt (ar_stats r') = rs_finishedAt (ar_stats r)
     \<and> (\<forall>i pc. ar_threads r' i = Some pc \<longrightarrow> pc = WLoop \<or> ar_threads r i = Some pc)
     \<and> ar_cancelled r \<subseteq> ar_cancelled r'"

lemma same_control_trans: "same_control a b \<Longrightarrow> same_control b c \<Longrightarrow> same_control a c"
  unfolding same_control_def by fastforce

lemma same_control_start: "same_control r (startWorkerLocked r)"
  by (auto simp: same_control_def workerStarted_def)

lemma grow_nextID: "ar_nextID r \<le> ar_nextID (grow_loop fuel target r)"
  by (induction fuel target r rule: grow_loop.induct) (auto intro: order_trans [rotated])

lemma grow_loop_inv:
  assumes "pool_ids r" and "pool_count r" and "ar_nextID (grow_loop fuel target r) < 2 ^ 63"
  shows "pool_ids (grow_loop fuel target r) \<and> pool_count (grow_loop fuel target r)
    \<and> same_control r (grow_loop fuel target r) \<and> ar_cancelled (grow_loop fuel target r) = ar_cancelled r"
  using assms
proof (induction fuel target r rule: grow_loop.induct)
  case (1 target r)
  then show ?case by (simp add: same_control_def)
next
  case (2 fuel target r)
  show ?case
  proof (cases "int (card (ar_workers r)) < target")
    case True
    then have eq: "grow_loop (Suc fuel) target r = grow_loop fuel target (startWorkerLocked r)" by simp
    have "ar_nextID r + 1 < 2 ^ 63"
      using grow_nextID [of "startWorkerLocked r" fuel target] "2.prems"(3) eq by simp
    with "2.IH" [OF True] start_ids start_count "2.prems" eq same_control_trans [OF same_control_start]
    show ?thesis by auto
  next
    case False
    then show ?thesis using "2.prems" by (simp add: same_control_def)
  qed
qed

text \<open>The fuel suffices: growing ends with the larger of the target and the old size.\<close>

lemma grow_loop_card:
  assumes "pool_ids r" and "target - int (card (ar_workers r)) \<le> int fuel"
  shows "int (card (ar_workers (grow_loop fuel target r))) = max target (int (card (ar_workers r)))"
  using assms
proof (induction fuel target r rule: grow_loop.induct)
  case (2 fuel target r)
  show ?case
  proof (cases "int (card (ar_workers r)) < target")
    case True
    have "card (ar_workers (startWorkerLocked r)) = Suc (card (ar_workers r))"
      using fresh_id(3) [OF "2.prems"(1)] pool_ids_finite [OF "2.prems"(1)] by simp
    with "2.IH" [OF True] start_ids [OF "2.prems"(1)] "2.prems"(2) True show ?thesis by simp
  next
    case False
    then show ?thesis by simp
  qed
qed simp

lemma shrink_loop_eq:
  "finite (ar_workers r) \<Longrightarrow> set ids \<subseteq> ar_workers r \<Longrightarrow> distinct ids \<Longrightarrow>
   shrink_loop target ids r =
     (let k = min (length ids) (card (ar_workers r) - nat target)
      in r\<lparr>ar_workers := ar_workers r - set (take k ids), ar_cancelled := set (take k ids) \<union> ar_cancelled r\<rparr>)"
proof (induction target ids r rule: shrink_loop.induct)
  case (1 target r)
  then show ?case by simp
next
  case (2 target i ids r)
  let ?r = "r\<lparr>ar_workers := ar_workers r - {i}, ar_cancelled := insert i (ar_cancelled r)\<rparr>"
  show ?case
  proof (cases "int (card (ar_workers r)) \<le> target")
    case True
    then have "card (ar_workers r) - nat target = 0" by (simp add: nat_le_iff)
    with True show ?thesis by (simp add: Let_def)
  next
    case False
    have c: "card (ar_workers r) = Suc (card (ar_workers r - {i}))"
      using "2.prems" by (metis card.remove insert_subset list.simps(15))
    then have k: "card (ar_workers r) - nat target = Suc (card (ar_workers r - {i}) - nat target)"
      using False by (simp add: nat_le_iff Suc_diff_le)
    have "shrink_loop target ids ?r = (let k = min (length ids) (card (ar_workers ?r) - nat target)
      in ?r\<lparr>ar_workers := ar_workers ?r - set (take k ids), ar_cancelled := set (take k ids) \<union> ar_cancelled ?r\<rparr>)"
      using "2.IH" [OF False] "2.prems" by auto
    with False k show ?thesis by (simp add: Let_def insert_commute Diff_insert2 [symmetric])
  qed
qed

lemma grow_loop_workers:
  assumes "pool_ids r" and "target - int (card (ar_workers r)) \<le> int fuel"
  shows "ar_workers (grow_loop fuel target r) =
      ar_workers r \<union> {ar_nextID r..<ar_nextID r + (target - int (card (ar_workers r)))}
    \<and> ar_nextID (grow_loop fuel target r) = ar_nextID r + max 0 (target - int (card (ar_workers r)))"
  using assms
proof (induction fuel target r rule: grow_loop.induct)
  case (2 fuel target r)
  show ?case
  proof (cases "int (card (ar_workers r)) < target")
    case True
    have "card (ar_workers (startWorkerLocked r)) = Suc (card (ar_workers r))"
      using fresh_id(3) [OF "2.prems"(1)] pool_ids_finite [OF "2.prems"(1)] by simp
    then have ih: "ar_workers (grow_loop fuel target (startWorkerLocked r)) =
        insert (ar_nextID r) (ar_workers r)
        \<union> {ar_nextID r + 1..<ar_nextID r + (target - int (card (ar_workers r)))}"
      "ar_nextID (grow_loop fuel target (startWorkerLocked r)) =
        ar_nextID r + 1 + max 0 (target - (int (card (ar_workers r)) + 1))"
      using "2.IH" [OF True start_ids [OF "2.prems"(1)]] "2.prems"(2) by simp_all
    have "{ar_nextID r..<ar_nextID r + (target - int (card (ar_workers r)))} =
        insert (ar_nextID r) {ar_nextID r + 1..<ar_nextID r + (target - int (card (ar_workers r)))}"
      using True by auto
    with ih True show ?thesis by simp
  next
    case False
    then show ?thesis by simp
  qed
qed simp

lemma setConfigured_pool [simp]:
  "live (r\<lparr>ar_stats := s\<rparr>) = live r"
  "pool_ids (r\<lparr>ar_stats := s\<rparr>) = pool_ids r"
  "pool_count (r\<lparr>ar_stats := setConfiguredClients (ar_stats r) c\<rparr>) = pool_count r"
  by (simp_all add: live_def pool_ids_def pool_count_def setConfiguredClients_def)

text \<open>Cancelling workers of the map keeps the description of the goroutines.\<close>

lemma cancel_ids:
  assumes "pool_ids r" and "ks \<subseteq> ar_workers r"
  shows "pool_ids (r\<lparr>ar_workers := ar_workers r - ks, ar_cancelled := ks \<union> ar_cancelled r\<rparr>)"
  using assms by (auto simp: pool_ids_def live_def)

lemma resizeWorkers_eq:
  assumes "pool_ids r" and "0 \<le> target"
  shows "resizeWorkers target r =
    (let r1 = r\<lparr>ar_stats := setConfiguredClients (ar_stats r) target\<rparr>; n = card (ar_workers r);
         ks = set (take (n - nat target) (rev (sorted_list_of_set (ar_workers r))))
     in if int n \<le> target then grow_loop (nat target) target r1
        else r1\<lparr>ar_workers := ar_workers r - ks, ar_cancelled := ks \<union> ar_cancelled r\<rparr>)"
proof -
  let ?r1 = "r\<lparr>ar_stats := setConfiguredClients (ar_stats r) target\<rparr>"
  let ?ids = "rev (sorted_list_of_set (ar_workers r))"
  have fin: "finite (ar_workers r)" using pool_ids_finite [OF assms(1)] by simp
  have card: "int (card (ar_workers (grow_loop (nat target) target ?r1))) = max target (int (card (ar_workers r)))"
    using grow_loop_card [of ?r1 target "nat target"] assms by simp
  show ?thesis
  proof (cases "int (card (ar_workers r)) \<le> target")
    case True
    then show ?thesis using card by (simp add: resizeWorkers_def Let_def)
  next
    case False
    have g: "grow_loop (nat target) target ?r1 = ?r1" using False by (cases "nat target") simp_all
    have m: "min (card (ar_workers r)) (card (ar_workers r) - nat target) = card (ar_workers r) - nat target" by simp
    have "shrink_loop target ?ids ?r1 = (let ks = set (take (card (ar_workers r) - nat target) ?ids)
       in ?r1\<lparr>ar_workers := ar_workers r - ks, ar_cancelled := ks \<union> ar_cancelled r\<rparr>)"
      using shrink_loop_eq [of ?r1 ?ids target] fin by (simp add: Let_def m)
    then show ?thesis using False g by (simp add: resizeWorkers_def Let_def)
  qed
qed

lemma lowest_kept:
  assumes "finite (W :: int set)" and "k \<le> card W"
  shows "W - set (take (card W - k) (rev (sorted_list_of_set W))) = set (take k (sorted_list_of_set W))"
proof -
  let ?xs = "sorted_list_of_set W"
  have n: "length ?xs = card W" using assms(1) by simp
  have "set (take (card W - k) (rev ?xs)) = set (drop k ?xs)"
    using n assms(2) by (simp add: take_rev)
  moreover have "W = set (take k ?xs) \<union> set (drop k ?xs)"
    by (metis append_take_drop_id assms(1) set_append sorted_list_of_set.set_sorted_key_list_of_set)
  moreover have "set (take k ?xs) \<inter> set (drop k ?xs) = {}"
    using assms(1) by (metis append_take_drop_id distinct_append sorted_list_of_set.distinct_sorted_key_list_of_set)
  ultimately show ?thesis by blast
qed

text \<open>
  C19. Resizing reaches the target exactly, whatever the state of the pool: a smaller
  target keeps the workers with the lowest ids and cancels precisely the others; a larger
  one keeps them all and adds workers under the next ids; nobody else is cancelled, and
  the configured number of clients is the target.
\<close>
theorem resizeWorkers_exact:
  assumes "pool_ids r" and "0 \<le> target"
  shows "let r' = resizeWorkers target r; n = card (ar_workers r) in
      int (card (ar_workers r')) = target
    \<and> (if target \<le> int n
       then ar_workers r' = set (take (nat target) (sorted_list_of_set (ar_workers r)))
       else ar_workers r' = ar_workers r \<union> {ar_nextID r..<ar_nextID r + (target - int n)})
    \<and> ar_cancelled r' = ar_cancelled r \<union> (ar_workers r - ar_workers r')
    \<and> rs_configuredClients (ar_stats r') = target"
proof -
  let ?r1 = "r\<lparr>ar_stats := setConfiguredClients (ar_stats r) target\<rparr>" and ?n = "card (ar_workers r)"
  let ?r' = "resizeWorkers target r"
  have fin: "finite (ar_workers r)" using pool_ids_finite [OF assms(1)] by simp
  have conf: "rs_configuredClients (ar_stats (grow_loop f target r)) = rs_configuredClients (ar_stats r)" for f r
    by (induction f target r rule: grow_loop.induct) (simp_all add: workerStarted_def)
  have canc: "ar_cancelled (grow_loop f target r) = ar_cancelled r" for f r
    by (induction f target r rule: grow_loop.induct) simp_all
  show ?thesis
  proof (cases "int ?n \<le> target")
    case True
    have r': "?r' = grow_loop (nat target) target ?r1" using resizeWorkers_eq [OF assms] True by (simp add: Let_def)
    have w: "ar_workers ?r' = ar_workers r \<union> {ar_nextID r..<ar_nextID r + (target - int ?n)}"
      using grow_loop_workers [of ?r1 target "nat target"] assms unfolding r' by simp
    have "int (card (ar_workers ?r')) = target"
      using grow_loop_card [of ?r1 target "nat target"] assms True unfolding r' by simp
    moreover have "ar_workers ?r' = set (take (nat target) (sorted_list_of_set (ar_workers r)))" if "target = int ?n"
      using w that fin by simp
    moreover have "ar_cancelled ?r' = ar_cancelled r \<union> (ar_workers r - ar_workers ?r')"
      using w canc [of "nat target" ?r1] unfolding r' [symmetric] by auto
    moreover have "rs_configuredClients (ar_stats ?r') = target"
      using conf [of "nat target" ?r1] unfolding r' [symmetric] by (simp add: setConfiguredClients_def)
    ultimately show ?thesis using w True by (auto simp: Let_def)
  next
    case False
    let ?ks = "set (take (?n - nat target) (rev (sorted_list_of_set (ar_workers r))))"
    have r': "?r' = ?r1\<lparr>ar_workers := ar_workers r - ?ks, ar_cancelled := ?ks \<union> ar_cancelled r\<rparr>"
      using resizeWorkers_eq [OF assms] False by (simp add: Let_def)
    have low: "ar_workers r - ?ks = set (take (nat target) (sorted_list_of_set (ar_workers r)))"
      using False by (intro lowest_kept [OF fin]) simp
    have "?ks \<subseteq> ar_workers r" using set_take_subset [of _ "rev (sorted_list_of_set (ar_workers r))"] fin by auto
    moreover have "card (ar_workers r - ?ks) = nat target"
      unfolding low using False fin assms(2) by (simp add: distinct_card)
    ultimately show ?thesis using low False assms(2) r' by (auto simp: Let_def setConfiguredClients_def)
  qed
qed

definition demo_pool :: activeRun where
  "demo_pool = newActiveRun (zeroStartOptions\<lparr>so_Clients := 3\<rparr>) \<lparr>pg_ticker = None, pg_tickers = []\<rparr> 0"

lemma demo_pool_eq: "ar_workers demo_pool = {0, 1, 2}" "ar_nextID demo_pool = 3" "ar_cancelled demo_pool = {}"
  "ar_threads demo_pool = [0 \<mapsto> WLoop, 1 \<mapsto> WLoop, 2 \<mapsto> WLoop]" "ar_wg demo_pool = 3"
  by (simp_all add: demo_pool_def newActiveRun_def blankRun_def resizeWorkers_def startWorkerLocked_def Let_def
      zeroStartOptions_def numeral_3_eq_3 insert_commute)

lemma demo_pool_ids: "pool_ids demo_pool"
  by (auto simp: pool_ids_def demo_pool_eq live_def)

theorem resizeWorkers_exact_witness:
  "ar_workers (resizeWorkers 2 demo_pool) = {0, 1} \<and> ar_cancelled (resizeWorkers 2 demo_pool) = {2}"
proof -
  have "sorted_list_of_set {0, 1, 2 :: int} = [0, 1, 2]" by simp
  then show ?thesis using resizeWorkers_exact [OF demo_pool_ids, of 2]
    by (auto simp: Let_def demo_pool_eq)
qed


subsection \<open>Every step keeps the invariant\<close>

lemma resize_keeps:
  assumes "pool_ids r" and "pool_count r" and "0 \<le> target" and "ar_nextID (resizeWorkers target r) < 2 ^ 63"
  shows "pool_ids (resizeWorkers target r) \<and> pool_count (resizeWorkers target r)
    \<and> same_control r (resizeWorkers target r)"
proof -
  let ?r1 = "r\<lparr>ar_stats := setConfiguredClients (ar_stats r) target\<rparr>" and ?n = "card (ar_workers r)"
  let ?ks = "set (take (?n - nat target) (rev (sorted_list_of_set (ar_workers r))))"
  have r1: "same_control r ?r1" by (simp add: same_control_def setConfiguredClients_def)
  have ks: "?ks \<subseteq> ar_workers r"
    using set_take_subset [of _ "rev (sorted_list_of_set (ar_workers r))"] pool_ids_finite [OF assms(1)] by auto
  show ?thesis
  proof (cases "int ?n \<le> target")
    case True
    then have "resizeWorkers target r = grow_loop (nat target) target ?r1"
      using resizeWorkers_eq [OF assms(1,3)] by (simp add: Let_def)
    with grow_loop_inv [of ?r1 "nat target" target] assms r1 same_control_trans show ?thesis by auto
  next
    case False
    then have eq: "resizeWorkers target r = ?r1\<lparr>ar_workers := ar_workers r - ?ks, ar_cancelled := ?ks \<union> ar_cancelled r\<rparr>"
      using resizeWorkers_eq [OF assms(1,3)] by (simp add: Let_def)
    have "pool_ids ?r1" using assms(1) by simp
    from cancel_ids [OF this, of ?ks] ks assms(2) show ?thesis unfolding eq
      by (auto simp: pool_count_def live_def same_control_def setConfiguredClients_def)
  qed
qed

lemma same_control_open: "same_control r r' \<Longrightarrow> pool_open r \<Longrightarrow> pool_open r'"
  unfolding same_control_def pool_open_def once_returns_def by fastforce

lemma same_control_finish: "same_control r r' \<Longrightarrow> pool_finish r \<Longrightarrow> pool_finish r'"
  unfolding same_control_def pool_finish_def by fastforce

lemma pool_inv_resize [run_inv]:
  assumes "pool_inv r" and "1 \<le> target" and "within_int (resizeWorkers target r)"
  shows "pool_inv (resizeWorkers target r)"
proof -
  let ?r' = "resizeWorkers target r"
  have r: "pool_ids r" "pool_count r" "pool_open r" "pool_finish r" "gate_inv (ar_pace r)"
    using assms(1) by (simp_all add: pool_inv_def)
  have k: "pool_ids ?r'" "pool_count ?r'" "same_control r ?r'"
    using resize_keeps [of r target] r assms(2,3) by (simp_all add: within_int_def)
  have "int (card (ar_workers ?r')) = target"
    using resizeWorkers_eq [of r target] grow_loop_card [of "r\<lparr>ar_stats := setConfiguredClients (ar_stats r) target\<rparr>" target "nat target"]
      lowest_kept [of "ar_workers r" "nat target"] pool_ids_finite [OF r(1)] r(1) assms(2)
    by (auto simp: Let_def distinct_card nat_le_iff split: if_splits)
  then have "pool_some ?r'" using assms(2) by (auto simp: pool_some_def)
  with k same_control_open [OF k(3) r(3)] same_control_finish [OF k(3) r(4)] assms(3) r(5) show ?thesis
    by (simp add: pool_inv_def same_control_def)
qed

text \<open>Which fields each part of the invariant reads.\<close>

lemma live_frame [simp]:
  "live (r\<lparr>ar_pace := g\<rparr>) = live r"
  "live (r\<lparr>ar_stats := s\<rparr>) = live r"
  "live (r\<lparr>ar_stopped := b\<rparr>) = live r"
  "live (r\<lparr>ar_finalErr := e\<rparr>) = live r"
  "live (r\<lparr>ar_once := c\<rparr>) = live r"
  "live (r\<lparr>ar_parent := w\<rparr>) = live r"
  "live (r\<lparr>ar_timer := w\<rparr>) = live r"
  "live (r\<lparr>ar_await := a\<rparr>) = live r"
  by (simp_all add: live_def)

lemma once_returns_frame [simp]:
  "once_returns (r\<lparr>ar_pace := g\<rparr>) = once_returns r"
  "once_returns (r\<lparr>ar_stats := s\<rparr>) = once_returns r"
  "once_returns (r\<lparr>ar_stopped := b\<rparr>) = once_returns r"
  "once_returns (r\<lparr>ar_finalErr := e\<rparr>) = once_returns r"
  "once_returns (r\<lparr>ar_parent := w\<rparr>) = once_returns r"
  "once_returns (r\<lparr>ar_timer := w\<rparr>) = once_returns r"
  "once_returns (r\<lparr>ar_await := a\<rparr>) = once_returns r"
  by (simp_all add: once_returns_def)

lemma within_int_frame [simp]:
  "within_int (r\<lparr>ar_pace := g\<rparr>) = within_int r"
  "within_int (r\<lparr>ar_stats := s\<rparr>) = within_int r"
  "within_int (r\<lparr>ar_stopped := b\<rparr>) = within_int r"
  "within_int (r\<lparr>ar_finalErr := e\<rparr>) = within_int r"
  "within_int (r\<lparr>ar_once := c\<rparr>) = within_int r"
  "within_int (r\<lparr>ar_parent := w\<rparr>) = within_int r"
  "within_int (r\<lparr>ar_timer := w\<rparr>) = within_int r"
  "within_int (r\<lparr>ar_await := a\<rparr>) = within_int r"
  by (simp_all add: within_int_def)

lemma pool_ids_frame [simp]:
  "pool_ids (r\<lparr>ar_pace := g\<rparr>) = pool_ids r"
  "pool_ids (r\<lparr>ar_stats := s\<rparr>) = pool_ids r"
  "pool_ids (r\<lparr>ar_stopped := b\<rparr>) = pool_ids r"
  "pool_ids (r\<lparr>ar_finalErr := e\<rparr>) = pool_ids r"
  "pool_ids (r\<lparr>ar_once := c\<rparr>) = pool_ids r"
  "pool_ids (r\<lparr>ar_parent := w\<rparr>) = pool_ids r"
  "pool_ids (r\<lparr>ar_timer := w\<rparr>) = pool_ids r"
  "pool_ids (r\<lparr>ar_await := a\<rparr>) = pool_ids r"
  by (simp_all add: pool_ids_def)

lemma pool_count_frame [simp]:
  "pool_count (r\<lparr>ar_pace := g\<rparr>) = pool_count r"
  "pool_count (r\<lparr>ar_stopped := b\<rparr>) = pool_count r"
  "pool_count (r\<lparr>ar_finalErr := e\<rparr>) = pool_count r"
  "pool_count (r\<lparr>ar_once := c\<rparr>) = pool_count r"
  "pool_count (r\<lparr>ar_parent := w\<rparr>) = pool_count r"
  "pool_count (r\<lparr>ar_timer := w\<rparr>) = pool_count r"
  "pool_count (r\<lparr>ar_await := a\<rparr>) = pool_count r"
  by (simp_all add: pool_count_def)

lemma pool_open_frame [simp]:
  "pool_open (r\<lparr>ar_pace := g\<rparr>) = pool_open r"
  "pool_open (r\<lparr>ar_stats := s\<rparr>) = pool_open r"
  "pool_open (r\<lparr>ar_finalErr := e\<rparr>) = pool_open r"
  "pool_open (r\<lparr>ar_parent := w\<rparr>) = pool_open r"
  "pool_open (r\<lparr>ar_timer := w\<rparr>) = pool_open r"
  by (simp_all add: pool_open_def)

lemma pool_some_frame [simp]:
  "pool_some (r\<lparr>ar_pace := g\<rparr>) = pool_some r"
  "pool_some (r\<lparr>ar_stats := s\<rparr>) = pool_some r"
  "pool_some (r\<lparr>ar_stopped := b\<rparr>) = pool_some r"
  "pool_some (r\<lparr>ar_finalErr := e\<rparr>) = pool_some r"
  "pool_some (r\<lparr>ar_parent := w\<rparr>) = pool_some r"
  "pool_some (r\<lparr>ar_timer := w\<rparr>) = pool_some r"
  "pool_some (r\<lparr>ar_await := a\<rparr>) = pool_some r"
  by (simp_all add: pool_some_def)

lemma pool_finish_frame [simp]:
  "pool_finish (r\<lparr>ar_pace := g\<rparr>) = pool_finish r"
  "pool_finish (r\<lparr>ar_await := a\<rparr>) = pool_finish r"
  by (simp_all add: pool_finish_def)

lemma pool_inv_pace:
  "pool_inv r \<Longrightarrow> gate_inv g \<Longrightarrow> pool_inv (r\<lparr>ar_pace := g\<rparr>)"
  by (simp add: pool_inv_def)

lemma pool_inv_alter [run_inv]:
  assumes inv: "pool_inv r" and alter: "ar_Alter options r = Some (r', res)" and w: "within_int r'"
  shows "pool_inv r'"
proof (cases "validateAlterOptions options")
  case (Some err)
  then have "r' = r" using alter by (auto simp: ar_Alter_def validateAlterOptions_def split: if_splits)
  with inv show ?thesis by simp
next
  case None
  then have v: "\<And>c. ao_Clients options = Some c \<Longrightarrow> 1 \<le> c" "\<And>t. ao_TargetTPS options = Some t \<Longrightarrow> 1 \<le> t"
    by (auto simp: validateAlterOptions_def split: if_splits)
  obtain pace where p: "(if ao_TargetTPS options \<noteq> None then gate_Update (ao_TargetTPS options) (ar_pace r)
      else Some (ar_pace r)) = Some pace"
    and r': "r' = (case ao_Clients options of None \<Rightarrow> r\<lparr>ar_pace := pace\<rparr> | Some target \<Rightarrow> resizeWorkers target (r\<lparr>ar_pace := pace\<rparr>))"
    using alter None unfolding ar_Alter_def validateAlterOptions_def
    by (auto simp: Let_def split: option.splits if_splits)
  have "gate_inv pace"
    using p gate_Update_inv [of "ar_pace r" "ao_TargetTPS options" pace] v(2) inv
    by (auto simp: pool_inv_def split: if_splits)
  from pool_inv_pace [OF inv this] r' w v(1) pool_inv_resize show ?thesis by (auto split: option.splits)
qed

text \<open>A goroutine that moves on without leaving the pool.\<close>

lemma pool_inv_set_pc [run_inv]:
  assumes inv: "pool_inv r" and i: "ar_threads r i = Some old" "old \<noteq> WStopped" and pc: "pc \<noteq> WStopped"
    and ret: "pc = WReturned \<Longrightarrow> ctx_done i r \<or> once_returns r"
    and fin: "\<And>err. pc = WFinish err \<Longrightarrow> uncounted err"
  shows "pool_inv (set_pc i pc r)"
proof -
  have l: "live (set_pc i pc r) = live r" using i pc by (auto simp: live_def set_pc_def)
  have d: "dom (ar_threads (set_pc i pc r)) = dom (ar_threads r)" using i by (auto simp: set_pc_def)
  have ids: "pool_ids (set_pc i pc r)"
    using inv unfolding pool_ids_def l d by (simp add: pool_inv_def pool_ids_def) (simp add: set_pc_def)
  have cnt: "pool_count (set_pc i pc r)"
    using inv unfolding pool_count_def l by (simp add: pool_inv_def pool_count_def set_pc_def)
  have op: "pool_open (set_pc i pc r)"
    using inv ret pc by (auto simp: pool_inv_def pool_open_def set_pc_def once_returns_def ctx_done_def)
  have so: "pool_some (set_pc i pc r)"
    using inv by (simp add: pool_inv_def pool_some_def set_pc_def once_returns_def)
  have fi: "pool_finish (set_pc i pc r)"
    using inv fin by (auto simp: pool_inv_def pool_finish_def set_pc_def)
  show ?thesis using inv ids cnt op so fi by (simp add: pool_inv_def within_int_def set_pc_def)
qed

lemma pool_inv_paced [run_inv]:
  assumes "pool_inv r" and "ar_threads r i = Some WLoop" and "gate_Wait (ar_pace r) (ctx_done i r) err"
  shows "pool_inv (after_pace i err now r)"
  using assms by (auto simp: after_pace_def gate_Wait_simps split: option.splits intro!: pool_inv_set_pc)

lemma pool_inv_stats:
  assumes "pool_inv r" and "rs_activeClients s = rs_activeClients (ar_stats r)"
    and "rs_finishedAt s = rs_finishedAt (ar_stats r)"
  shows "pool_inv (r\<lparr>ar_stats := s\<rparr>)"
  using assms by (simp add: pool_inv_def pool_count_def pool_finish_def)

lemma record_frame:
  "rs_activeClients (stats_record s k l t err) = rs_activeClients s"
  "rs_finishedAt (stats_record s k l t err) = rs_finishedAt s"
  by (auto simp: stats_record_def Let_def split: option.splits)

lemma pool_inv_ran [run_inv]:
  assumes "pool_inv r" and "ar_threads r i = Some (WRunning t)"
  shows "pool_inv (after_RunOnce i t kind err now r)"
proof (cases "err \<noteq> None \<and> ctx_done i r")
  case True
  then show ?thesis using assms by (auto simp: after_RunOnce_def intro!: pool_inv_set_pc)
next
  case False
  let ?r = "r\<lparr>ar_stats := stats_record (ar_stats r) kind (time_sub now t) now err\<rparr>"
  have "pool_inv ?r" using assms(1) by (rule pool_inv_stats) (simp_all add: record_frame)
  then show ?thesis using False assms(2) pool_inv_set_pc [of ?r i "WRunning t" "WRecorded err"]
    unfolding after_RunOnce_def by auto
qed

lemma pool_inv_checked [run_inv]:
  assumes "pool_inv r" and "ar_threads r i = Some (WRecorded err)"
  shows "pool_inv (after_record i err r)"
  using assms by (auto simp: after_record_def uncounted_def split: option.splits intro!: pool_inv_set_pc)

lemma pool_inv_enter [run_inv]:
  assumes inv: "pool_inv r" and e: "uncounted err"
  shows "pool_inv (once_enter err r)"
proof -
  show ?thesis
  proof (cases "ar_once r = OnceNew")
    case True
    then have "\<not> once_returns r" by (simp add: once_returns_def)
    with True inv e have "pool_open (r\<lparr>ar_once := OnceBegun err\<rparr>)" "pool_some (r\<lparr>ar_once := OnceBegun err\<rparr>)"
      "pool_finish (r\<lparr>ar_once := OnceBegun err\<rparr>)"
      by (simp_all add: pool_inv_def pool_open_def pool_some_def pool_finish_def once_ok_def)
    with True inv show ?thesis by (simp add: once_enter_def pool_inv_def)
  qed (simp add: once_enter_def inv)
qed

lemma pool_inv_finish_step [run_inv]:
  assumes inv: "pool_inv r" and step: "finish_step now r = Some r'"
  shows "pool_inv r'"
proof -
  have stats: "rs_activeClients (stats_finish s now e) = rs_activeClients s"
    "rs_finishedAt (stats_finish s now e) \<noteq> None" for s e
    by (auto simp: stats_finish_def Let_def split: option.splits)
  have n: "\<not> once_returns r"
    using step by (auto simp: finish_step_def once_returns_def split: once_pc.splits)
  have parts: "pool_ids r" "pool_count r" "pool_open r" "pool_some r" "pool_finish r" "within_int r" "gate_inv (ar_pace r)"
    using inv by (simp_all add: pool_inv_def)
  have "pool_ids r' \<and> within_int r' \<and> gate_inv (ar_pace r') \<and> pool_some r' \<and> pool_open r'"
    using step parts n by (auto simp: finish_step_def pool_some_def pool_open_def once_returns_def split: once_pc.splits)
  moreover have "pool_count r'"
    using step parts(2) by (auto simp: finish_step_def pool_count_def stats split: once_pc.splits)
  moreover have "pool_finish r'"
    using step parts(5) stats(2) by (auto simp: finish_step_def pool_finish_def once_ok_def split: once_pc.splits)
  ultimately show ?thesis by (simp add: pool_inv_def)
qed

lemma pool_inv_worker_stopped [run_inv]:
  assumes inv: "pool_inv r" and i: "ar_threads r i = Some WReturned"
  shows "pool_inv (set_pc i WStopped (ar_workerStopped i r))"
proof -
  let ?r = "set_pc i WStopped (ar_workerStopped i r)"
  have ids0: "pool_ids r" using inv by (simp add: pool_inv_def)
  have l: "live ?r = live r - {i}" by (auto simp: live_def set_pc_def ar_workerStopped_def)
  have il: "i \<in> live r" using i by (simp add: live_def)
  have d: "dom (ar_threads ?r) = dom (ar_threads r)" using i by (auto simp: set_pc_def ar_workerStopped_def)
  have w: "ar_workers ?r = ar_workers r - {i}" by (simp add: set_pc_def ar_workerStopped_def)
  have ids: "pool_ids ?r"
    using ids0 unfolding pool_ids_def d l w by (auto simp: set_pc_def ar_workerStopped_def)
  have "0 < card (live r)" using il pool_ids_finite [OF ids0] card_gt_0_iff by blast
  then have cnt: "pool_count ?r"
    using inv il pool_ids_finite [OF ids0] unfolding pool_count_def l
    by (simp add: pool_inv_def pool_count_def set_pc_def ar_workerStopped_def stats_workerStopped_def)
  have op: "pool_open ?r"
    using inv i by (auto simp: pool_inv_def pool_open_def set_pc_def ar_workerStopped_def once_returns_def)
  have "i \<notin> ar_workers r" if "\<not> once_returns r"
    using inv i that by (auto simp: pool_inv_def pool_open_def pool_ids_def)
  then have so: "pool_some ?r"
    using inv unfolding pool_some_def w by (auto simp: pool_inv_def pool_some_def set_pc_def ar_workerStopped_def once_returns_def)
  have fi: "pool_finish ?r"
    using inv by (auto simp: pool_inv_def pool_finish_def set_pc_def ar_workerStopped_def stats_workerStopped_def)
  show ?thesis using inv ids cnt op so fi
    by (simp add: pool_inv_def within_int_def set_pc_def ar_workerStopped_def)
qed

lemma pool_inv_wg_done [run_inv]:
  assumes inv: "pool_inv r" and i: "ar_threads r i = Some WStopped"
  shows "pool_inv (r\<lparr>ar_wg := ar_wg r - 1, ar_threads := (ar_threads r)(i := None)\<rparr>)" (is "pool_inv ?r")
proof -
  have ids0: "pool_ids r" using inv by (simp add: pool_inv_def)
  have l: "live ?r = live r" using i by (auto simp: live_def)
  have "card (dom (ar_threads r) - {i}) = card (dom (ar_threads r)) - 1"
    using i pool_ids_finite [OF ids0] by (simp add: domIff)
  then have ids: "pool_ids ?r" using ids0 unfolding pool_ids_def l by auto
  have cnt: "pool_count ?r" using inv unfolding pool_count_def l by (simp add: pool_inv_def pool_count_def)
  have rest: "pool_open ?r" "pool_some ?r" "pool_finish ?r"
    using inv by (auto simp: pool_inv_def pool_open_def pool_some_def pool_finish_def once_returns_def)
  show ?thesis using inv ids cnt rest by (simp add: pool_inv_def within_int_def)
qed

text \<open>Steps of the watchers and of \<open>awaitCompletion\<close>.\<close>

lemma pool_inv_watch [run_inv]:
  "pool_inv r \<Longrightarrow> \<forall>err. p = WatchFinish err \<longrightarrow> uncounted err \<Longrightarrow> pool_inv (r\<lparr>ar_parent := p\<rparr>)"
  "pool_inv r \<Longrightarrow> \<forall>err. p = WatchFinish err \<longrightarrow> uncounted err \<Longrightarrow> pool_inv (r\<lparr>ar_timer := p\<rparr>)"
  by (auto simp: pool_inv_def pool_finish_def)

lemma finish_calls_uncounted:
  assumes "pool_inv r"
  shows "ar_threads r i = Some (WFinish err) \<Longrightarrow> uncounted err" "ar_parent r = WatchFinish err \<Longrightarrow> uncounted err"
    "ar_timer r = WatchFinish err \<Longrightarrow> uncounted err"
  using assms by (auto simp: pool_inv_def pool_finish_def)

lemma all_stopped_finished: "pool_inv r \<Longrightarrow> ar_wg r = 0 \<Longrightarrow> once_returns r"
proof (rule ccontr)
  assume inv: "pool_inv r" and wg: "ar_wg r = 0" and o: "\<not> once_returns r"
  have ids: "pool_ids r" using inv by (simp add: pool_inv_def)
  then have "ar_threads r = Map.empty" using wg pool_ids_finite [OF ids] by (simp add: pool_ids_def)
  then have "ar_workers r = {}" using ids by (simp add: pool_ids_def live_def)
  then show False using inv o by (simp add: pool_inv_def pool_some_def)
qed

lemma pool_inv_await:
  assumes "pool_inv r" and "once_returns r"
  shows "pool_inv (r\<lparr>ar_await := a\<rparr>)"
  using assms by (simp add: pool_inv_def pool_open_def)

lemma pool_inv_step:
  assumes inv: "pool_inv r" and step: "pool_step r e r'"
  shows "pool_inv r'"
  using step
proof (cases rule: pool_step.cases)
  case (parent_done err)
  then show ?thesis using pool_inv_watch(1) [OF inv, of "WatchFinish err"] by (auto simp: uncounted_def)
next
  case (watchers_end)
  have "pool_inv (r\<lparr>ar_parent := (if ar_parent r = Watching then WatchEnded else ar_parent r)\<rparr>)" (is "pool_inv ?p")
    using inv finish_calls_uncounted [OF inv] by (intro pool_inv_watch(1)) (auto split: if_splits)
  then have "pool_inv (?p\<lparr>ar_timer := (if ar_timer r = Watching then WatchEnded else ar_timer r)\<rparr>)"
    using finish_calls_uncounted [OF inv] by (intro pool_inv_watch(2)) (auto split: if_splits)
  then show ?thesis unfolding watchers_end by simp
next
  case all_stopped
  then show ?thesis using inv all_stopped_finished [OF inv] pool_inv_await by simp
next
  case closed
  have "once_returns r" using closed inv by (auto simp: pool_inv_def pool_open_def)
  moreover have "gate_inv (gate_Close (ar_pace r))"
    using inv gate_Close_inv [of "ar_pace r"] by (simp add: pool_inv_def)
  ultimately show ?thesis unfolding closed
    using pool_inv_await [of "r\<lparr>ar_pace := gate_Close (ar_pace r)\<rparr>" AwaitDone] pool_inv_pace [OF inv]
    by (simp add: once_returns_def)
next
  case (alter options res)
  then show ?thesis using pool_inv_alter [OF inv] by blast
next
  case (finish_returned i err)
  then show ?thesis using pool_inv_set_pc [OF inv, of i "WFinish err" WReturned] by simp
next
  case (worker_stopped i)
  then show ?thesis using pool_inv_worker_stopped [OF inv] by simp
next
  case (wg_done i)
  then show ?thesis using pool_inv_wg_done [OF inv] by simp
next
  case (finish_body now)
  then show ?thesis using pool_inv_finish_step [OF inv] by blast
qed (simp_all add: inv pool_inv_paced pool_inv_ran pool_inv_checked pool_inv_enter pool_inv_watch uncounted_def
    finish_calls_uncounted [OF inv, unfolded uncounted_def])

lemma pool_inv_new:
  assumes v: "validateStartOptions options = None" "so_Clients options < 2 ^ 63"
    and p: "newRealPacingGate (so_TargetTPS options) = Some pace"
  shows "pool_inv (newActiveRun options pace now)"
proof -
  let ?c = "so_Clients options" and ?b = "blankRun options pace now" and ?r = "newActiveRun options pace now"
  let ?r1 = "?b\<lparr>ar_stats := setConfiguredClients (ar_stats ?b) ?c\<rparr>"
  have c: "1 \<le> ?c" "\<And>tps. so_TargetTPS options = Some tps \<Longrightarrow> 1 \<le> tps"
    using v(1) unfolding validateStartOptions_iff valid_start_def by (auto split: option.splits)
  have r0: "ar_workers ?b = {}" "ar_nextID ?b = 0" "ar_pace ?b = pace" by (simp_all add: blankRun_def)
  have ids: "pool_ids ?b" "pool_count ?b"
    by (simp_all add: pool_ids_def pool_count_def blankRun_def live_def newRunStats_def)
  have eq: "?r = resizeWorkers ?c ?b" by (simp add: newActiveRun_def)
  have "?r = grow_loop (nat ?c) ?c ?r1"
    unfolding eq using resizeWorkers_eq [OF ids(1), of ?c] c(1) r0(1) by (simp add: Let_def)
  then have w: "ar_workers ?r = {0..<?c}" "ar_nextID ?r = ?c"
    using grow_loop_workers [of ?r1 ?c "nat ?c"] ids(1) c(1) r0 by simp_all
  have k: "pool_ids ?r" "pool_count ?r" "same_control ?b ?r"
    using resize_keeps [OF ids, of ?c] c(1) w(2) v(2) unfolding eq by simp_all
  have "pool_open ?b" "pool_finish ?b"
    by (simp_all add: pool_open_def pool_finish_def blankRun_def once_ok_def uncounted_def newRunStats_def)
  then have "pool_open ?r" "pool_finish ?r" using same_control_open [OF k(3)] same_control_finish [OF k(3)] by simp_all
  moreover have "gate_inv (ar_pace ?r)"
    using newRealPacingGate_inv [OF c(2) p] k(3) r0(3) by (simp add: same_control_def)
  ultimately show ?thesis using k w v(2) c(1) by (simp add: pool_inv_def within_int_def pool_some_def)
qed

lemma pool_inv_init: "pool_init r \<Longrightarrow> pool_inv r"
  unfolding pool_init_def using pool_inv_new by blast

interpretation pool: invariant_system pool_init pool_step pool_inv
  by unfold_locales (auto intro: pool_inv_init pool_inv_step)


section \<open>What a run guarantees\<close>

text \<open>
  A reachable state for concrete instances: a run of two clients that has just been created.
\<close>

definition demo_start :: StartOptions where
  "demo_start = \<lparr>so_Scale = 10, so_Clients = 2, so_DurationSeconds = 60, so_WarmupSeconds = 10,
      so_Reset = False, so_Profile = ProfileRead, so_ReadPercent = None, so_TransactionMix = [],
      so_TargetTPS = None\<rparr>"

definition demo_gate :: realPacingGate where
  "demo_gate = \<lparr>pg_ticker = None, pg_tickers = []\<rparr>"

definition demo_run :: activeRun where
  "demo_run = newActiveRun demo_start demo_gate 0"

lemma demo_run_init: "pool_init demo_run"
  unfolding pool_init_def demo_run_def
  by (intro exI [of _ demo_start] exI [of _ demo_gate] exI [of _ 0])
    (simp add: demo_start_def demo_gate_def validateStartOptions_def isValidProfile_def profile_defs
      newRealPacingGate_def gate_Update_def)

lemma demo_run_reach: "reach pool_init pool_step demo_run"
  by (intro reach_init demo_run_init)

lemma demo_run_fields: "ar_workers demo_run = {0, 1}" "ar_threads demo_run = [0 \<mapsto> WLoop, 1 \<mapsto> WLoop]"
  "ar_once demo_run = OnceNew" "ar_await demo_run = AwaitWorkers" "ar_timer demo_run = Watching"
  "ar_stopped demo_run = False" "ar_wg demo_run = 2" "ar_pace demo_run = demo_gate" "ar_cancelled demo_run = {}"
  by (auto simp: demo_run_def newActiveRun_def blankRun_def resizeWorkers_def startWorkerLocked_def Let_def
      demo_start_def numeral_2_eq_2)

text \<open>
  C21. The active clients a sample reports are exactly the worker goroutines that have not
  stopped: no interleaving of resizes, failures and stops makes the count drift, and the
  guard against a negative count in \<open>workerStopped\<close> never hides a lost decrement. The wait
  group counts the goroutines that have not ended.
\<close>
theorem active_clients_exact:
  assumes "reach pool_init pool_step r"
  shows "sa_ActiveClients (ar_Sample r now)
      = int (card {i. \<exists>pc. ar_threads r i = Some pc \<and> pc \<noteq> WStopped})
    \<and> ar_wg r = card (dom (ar_threads r))
    \<and> ar_workers r = {i. \<exists>pc. ar_threads r i = Some pc \<and> pc \<noteq> WStopped} - ar_cancelled r"
proof -
  have inv: "pool_inv r" using assms by (rule pool.reach_inv)
  have l: "live r = {i. \<exists>pc. ar_threads r i = Some pc \<and> pc \<noteq> WStopped}" by (auto simp: live_def)
  then show ?thesis using inv unfolding l [symmetric]
    by (simp add: pool_inv_def pool_count_def pool_ids_def ar_Sample_def stats_sample_def sampleLocked_def)
qed

theorem active_clients_exact_witness:
  "sa_ActiveClients (ar_Sample demo_run 5) = 2"
proof -
  have "{i. \<exists>pc. ar_threads demo_run i = Some pc \<and> pc \<noteq> WStopped} = {0, 1}"
    by (auto simp: demo_run_fields split: if_splits)
  then show ?thesis using active_clients_exact [OF demo_run_reach, of 5] by simp
qed

text \<open>
  C4. \<open>Wait\<close> cannot return early: once it returns, \<open>finish\<close> has run to its end, the error
  it returns is the one of the first \<open>finish\<close> call, the statistics carry the end time and
  the workers' context is cancelled. Until then the pool always holds a worker that is not
  on its way out.
\<close>
theorem wait_returns_after_finish:
  assumes "reach pool_init pool_step r"
  shows "case ar_Wait r of
      Some err \<Rightarrow> ar_once r = OnceDone err \<and> rs_finishedAt (ar_stats r) \<noteq> None \<and> ar_stopped r
    | None \<Rightarrow> once_returns r \<or> (\<exists>i \<in> ar_workers r. ar_threads r i \<noteq> None
               \<and> ar_threads r i \<noteq> Some WReturned \<and> ar_threads r i \<noteq> Some WStopped)"
proof -
  have inv: "pool_inv r" using assms by (rule pool.reach_inv)
  show ?thesis
  proof (cases "ar_done r")
    case True
    then have "once_returns r" using inv by (auto simp: pool_inv_def pool_open_def ar_done_def)
    moreover have "once_ok (ar_once r) (ar_finalErr r) (rs_finishedAt (ar_stats r)) (ar_stopped r)"
      using inv by (simp add: pool_inv_def pool_finish_def)
    ultimately show ?thesis using True
      by (cases "ar_once r") (simp_all add: ar_Wait_def once_returns_def once_ok_def)
  next
    case False
    have "\<exists>i \<in> ar_workers r. ar_threads r i \<noteq> None \<and> ar_threads r i \<noteq> Some WReturned \<and> ar_threads r i \<noteq> Some WStopped"
      if n: "\<not> once_returns r"
    proof -
      obtain i where "i \<in> ar_workers r" using inv n by (auto simp: pool_inv_def pool_some_def)
      moreover from this have "i \<in> live r" "i \<notin> ar_cancelled r" using inv by (auto simp: pool_inv_def pool_ids_def)
      moreover have "ar_threads r i \<noteq> Some WReturned" using inv n calculation(3) by (auto simp: pool_inv_def pool_open_def)
      ultimately show ?thesis by (auto simp: live_def)
    qed
    then show ?thesis using False unfolding ar_Wait_def by simp blast
  qed
qed

theorem wait_returns_after_finish_witness:
  "ar_Wait demo_run = None \<and> (\<exists>i \<in> {0, 1}. ar_threads demo_run i \<noteq> None)"
  using wait_returns_after_finish [OF demo_run_reach]
  by (auto simp: ar_Wait_def ar_done_def demo_run_fields once_returns_def)

text \<open>
  C29. A counted failure, such as a lock that was not available, never ends a run: the
  error a run ends with is never a counted operation error.
\<close>
theorem counted_errors_never_end_run:
  assumes "reach pool_init pool_step r" and "ar_finalErr r = Some e"
  shows "\<not> isCountedOperationError e"
proof -
  have "pool_inv r" using assms(1) by (rule pool.reach_inv)
  then have "uncounted (ar_finalErr r)"
    by (cases "ar_once r") (simp_all add: pool_inv_def pool_finish_def once_ok_def uncounted_def [of None])
  then show ?thesis using assms(2) by (simp add: uncounted_def)
qed

text \<open>The first worker of the run above fails with an error of the database.\<close>

definition demo_error :: goerror where
  "demo_error = Errorf ''connection lost''"

definition demo_failed :: activeRun where
  "demo_failed = (let r = after_pace 0 None 1 demo_run;
                      r = after_RunOnce 0 1 0 (Some demo_error) 2 r;
                      r = after_record 0 (Some demo_error) r;
                      r = once_enter (Some demo_error) r
                  in r\<lparr>ar_finalErr := Some demo_error, ar_once := OnceErrSet (Some demo_error)\<rparr>)"

lemmas reach_pool_step = reach_step [where init = pool_init and step = pool_step]

lemma demo_failed_reach: "reach pool_init pool_step demo_failed"
proof -
  let ?e = "Some demo_error"
  let ?a = "after_pace 0 None 1 demo_run"
  let ?b = "after_RunOnce 0 1 0 ?e 2 ?a"
  let ?c = "after_record 0 ?e ?b"
  let ?d = "once_enter ?e ?c"
  have u: "\<not> isCountedOperationError demo_error" by (simp add: demo_error_def)
  have a: "ar_threads ?a 0 = Some (WRunning 1)" "\<not> ctx_done 0 ?a" "ar_once ?a = OnceNew"
    by (simp_all add: after_pace_def set_pc_def ctx_done_def demo_run_fields)
  then have b: "ar_threads ?b 0 = Some (WRecorded ?e)" "\<not> ctx_done 0 ?b" "ar_once ?b = OnceNew"
    by (simp_all add: after_RunOnce_def set_pc_def ctx_done_def)
  then have c: "ar_threads ?c 0 = Some (WFinish ?e)" "ar_once ?c = OnceNew"
    using u by (simp_all add: after_record_def set_pc_def)
  have "gate_Wait (ar_pace demo_run) (ctx_done 0 demo_run) None"
    by (simp add: demo_run_fields gate_Wait_simps demo_gate_def)
  from reach_pool_step [OF demo_run_reach paced [OF _ this]] have "reach pool_init pool_step ?a"
    by (simp add: demo_run_fields)
  from reach_pool_step [OF this ran [OF a(1)]] have "reach pool_init pool_step ?b" .
  from reach_pool_step [OF this checked [OF b(1)]] have "reach pool_init pool_step ?c" .
  from reach_pool_step [OF this finish_called [OF c(1)]] have d: "reach pool_init pool_step ?d" .
  have "ar_once ?d = OnceBegun ?e" using c(2) by (simp add: once_enter_def)
  then have "finish_step 3 ?d = Some demo_failed" by (simp add: finish_step_def demo_failed_def)
  from reach_pool_step [OF d finish_body [OF this]] show ?thesis .
qed

theorem counted_errors_never_end_run_witness:
  "ar_finalErr demo_failed = Some demo_error \<and> \<not> isCountedOperationError demo_error"
proof -
  have "ar_finalErr demo_failed = Some demo_error" by (simp add: demo_failed_def Let_def)
  with counted_errors_never_end_run [OF demo_failed_reach] show ?thesis by blast
qed

subsection \<open>A finished run drains\<close>

text \<open>The goroutine \<open>i\<close> can run to its end, touching nothing that keeps the others from it.\<close>

definition exits :: "int \<Rightarrow> activeRun \<Rightarrow> bool" where
  "exits i r \<longleftrightarrow> (\<exists>es r'. steps pool_step r es r' \<and> ar_threads r' = (ar_threads r)(i := None)
     \<and> ar_wg r' = ar_wg r - 1 \<and> ar_once r' = ar_once r \<and> ar_stopped r' = ar_stopped r \<and> ar_await r' = ar_await r)"

lemma exits_back:
  assumes "pool_step r e r'" and "exits i r'" and "\<And>j. j \<noteq> i \<Longrightarrow> ar_threads r' j = ar_threads r j"
    and "ar_wg r' = ar_wg r" and "ar_once r' = ar_once r" and "ar_stopped r' = ar_stopped r"
    and "ar_await r' = ar_await r"
  shows "exits i r"
proof -
  obtain es r'' where s: "steps pool_step r' es r''" "ar_threads r'' = (ar_threads r')(i := None)"
    "ar_wg r'' = ar_wg r' - 1" "ar_once r'' = ar_once r'" "ar_stopped r'' = ar_stopped r'" "ar_await r'' = ar_await r'"
    using assms(2) unfolding exits_def by blast
  have "(ar_threads r')(i := None) = (ar_threads r)(i := None)" using assms(3) by (auto simp: fun_eq_iff)
  with s assms(4-7) show ?thesis unfolding exits_def
    by (intro exI [of _ "e # es"] exI [of _ r'']) (auto intro: steps_Cons [where step = pool_step, OF assms(1)])
qed

lemma exits_WStopped: "ar_threads r i = Some WStopped \<Longrightarrow> exits i r"
  unfolding exits_def
  by (rule exI [of _ "[PvWgDone i]"], rule exI, rule conjI, rule steps_one, erule wg_done) simp

lemma exits_WReturned: "ar_threads r i = Some WReturned \<Longrightarrow> exits i r"
  by (rule exits_back [OF worker_stopped exits_WStopped]) (auto simp: set_pc_def ar_workerStopped_def)

lemma exits_WRunning: "ar_threads r i = Some (WRunning t) \<Longrightarrow> ctx_done i r \<Longrightarrow> exits i r"
  by (rule exits_back [OF ran [where err = "Some (Sentinel Canceled)"] exits_WReturned])
    (auto simp: after_RunOnce_def set_pc_def)

lemma exits_WLoop: "ar_threads r i = Some WLoop \<Longrightarrow> ctx_done i r \<Longrightarrow> exits i r"
  by (rule exits_back [OF paced [where err = None] exits_WRunning])
    (auto simp: after_pace_def set_pc_def ctx_done_def gate_Wait_simps)

lemma exits_WRecorded: "ar_threads r i = Some (WRecorded err) \<Longrightarrow> ctx_done i r \<Longrightarrow> exits i r"
proof (cases err)
  case None
  assume "ar_threads r i = Some (WRecorded err)" "ctx_done i r"
  then show ?thesis using None
    by (intro exits_back [OF checked exits_WLoop]) (auto simp: after_record_def set_pc_def ctx_done_def)
next
  case (Some e)
  assume "ar_threads r i = Some (WRecorded err)" "ctx_done i r"
  then show ?thesis using Some
    by (intro exits_back [OF checked exits_WReturned]) (auto simp: after_record_def set_pc_def)
qed

lemma exits_WFinish: "ar_threads r i = Some (WFinish err) \<Longrightarrow> once_returns r \<Longrightarrow> exits i r"
  by (rule exits_back [OF finish_returned exits_WReturned]) (auto simp: set_pc_def)

lemma exits_all: "ar_threads r i = Some pc \<Longrightarrow> ar_stopped r \<Longrightarrow> once_returns r \<Longrightarrow> exits i r"
  by (cases pc) (auto simp: ctx_done_def intro: exits_WStopped exits_WReturned exits_WRunning exits_WLoop
      exits_WRecorded exits_WFinish)

lemma drain_workers:
  assumes "pool_inv r" and "once_returns r" and "card (dom (ar_threads r)) = n"
  shows "\<exists>es r'. steps pool_step r es r' \<and> ar_threads r' = Map.empty \<and> pool_inv r' \<and> ar_await r' = ar_await r"
  using assms
proof (induction n arbitrary: r)
  case 0
  have "finite (dom (ar_threads r))" using pool_ids_finite 0(1) by (simp add: pool_inv_def)
  with 0 have "ar_threads r = Map.empty" by simp
  with 0(1) show ?case by (intro exI [of _ "[]"] exI [of _ r]) (auto intro: steps_Nil)
next
  case (Suc n)
  have fin: "finite (dom (ar_threads r))" using pool_ids_finite Suc.prems(1) by (simp add: pool_inv_def)
  from Suc.prems(3) have "dom (ar_threads r) \<noteq> {}" by auto
  then obtain i pc where i: "ar_threads r i = Some pc" by (metis domD ex_in_conv)
  have "ar_stopped r" using Suc.prems(1,2)
    by (auto simp: pool_inv_def pool_finish_def once_ok_def once_returns_def split: once_pc.splits)
  from exits_all [OF i this Suc.prems(2)] obtain es r' where
    s: "steps pool_step r es r'" "ar_threads r' = (ar_threads r)(i := None)" "ar_once r' = ar_once r"
      "ar_await r' = ar_await r"
    unfolding exits_def by blast
  have "card (dom (ar_threads r')) = n" using s(2) i fin Suc.prems(3) by (simp add: domIff)
  moreover have "once_returns r'" using Suc.prems(2) s(3) by (simp add: once_returns_def)
  moreover have "pool_inv r'" using pool.steps_inv [OF s(1)] Suc.prems(1) by simp
  ultimately obtain es' r'' where "steps pool_step r' es' r''" "ar_threads r'' = Map.empty" "pool_inv r''"
    "ar_await r'' = ar_await r'" using Suc.IH by blast
  with steps_append [OF s(1)] s(4) show ?case by fastforce
qed

lemma finish_completes:
  assumes "pool_inv r" and "ar_once r \<noteq> OnceNew"
  shows "\<exists>es r'. steps pool_step r es r' \<and> once_returns r' \<and> pool_inv r'"
proof -
  have step: "\<exists>r'. pool_step r (PvFinishBody 0) r' \<and> ar_once r' = pc'"
    if "finish_step 0 r = Some r1" "ar_once r1 = pc'" for r r1 pc' using that finish_body by blast
  have fin: "\<exists>es r'. steps pool_step r es r' \<and> once_returns r'" if "ar_once r = OnceDone e" for r e
    using that by (intro exI [of _ "[]"] exI [of _ r]) (auto simp: once_returns_def intro: steps_Nil)
  have c: "\<exists>es r'. steps pool_step r es r' \<and> once_returns r'" if o: "ar_once r = OnceStatsDone e" for r e
  proof -
    obtain r1 where "pool_step r (PvFinishBody 0) r1" "ar_once r1 = OnceDone e"
      using step [of r "r\<lparr>ar_stopped := True, ar_once := OnceDone e\<rparr>"] o by (auto simp: finish_step_def)
    then show ?thesis using fin by (meson steps_Cons)
  qed
  have b: "\<exists>es r'. steps pool_step r es r' \<and> once_returns r'" if o: "ar_once r = OnceErrSet e" for r e
  proof -
    obtain r1 where "pool_step r (PvFinishBody 0) r1" "ar_once r1 = OnceStatsDone e"
      using step [of r "r\<lparr>ar_stats := stats_finish (ar_stats r) 0 e, ar_once := OnceStatsDone e\<rparr>"] o
      by (auto simp: finish_step_def)
    then show ?thesis using c by (meson steps_Cons)
  qed
  have a: "\<exists>es r'. steps pool_step r es r' \<and> once_returns r'" if o: "ar_once r = OnceBegun e" for r e
  proof -
    obtain r1 where "pool_step r (PvFinishBody 0) r1" "ar_once r1 = OnceErrSet e"
      using step [of r "r\<lparr>ar_finalErr := e, ar_once := OnceErrSet e\<rparr>"] o by (auto simp: finish_step_def)
    then show ?thesis using b by (meson steps_Cons)
  qed
  from assms a b c fin have "\<exists>es r'. steps pool_step r es r' \<and> once_returns r'" by (cases "ar_once r") blast+
  then show ?thesis using pool.steps_inv assms(1) by blast
qed

text \<open>
  C22. A run that was told to finish can always end: from every reachable state in which
  \<open>finish\<close> has been called there is an execution that closes \<open>done\<close>, so that \<open>Wait\<close>
  returns with the error of that call. No interleaving of resizes and failures leaves a
  goroutine that keeps the wait group from reaching zero.
\<close>
theorem finished_run_can_end:
  assumes "reach pool_init pool_step r" and "ar_once r \<noteq> OnceNew"
  shows "\<exists>es r' err. steps pool_step r es r' \<and> ar_Wait r' = Some err \<and> ar_once r' = OnceDone err"
proof -
  have inv: "pool_inv r" using assms(1) by (rule pool.reach_inv)
  obtain es1 r1 where r1: "steps pool_step r es1 r1" "once_returns r1" "pool_inv r1"
    using finish_completes [OF inv assms(2)] by blast
  obtain es2 r2 where r2: "steps pool_step r1 es2 r2" "ar_threads r2 = Map.empty" "pool_inv r2"
    using drain_workers [OF r1(3,2) refl] by blast
  have wg: "ar_wg r2 = 0" using r2(2,3) by (simp add: pool_inv_def pool_ids_def)
  have "\<exists>es r3. steps pool_step r2 es r3 \<and> ar_await r3 = AwaitDone"
  proof (cases "ar_await r2")
    case AwaitWorkers
    let ?a = "r2\<lparr>ar_await := AwaitClose\<rparr>"
    have "pool_step r2 PvAllStopped ?a" using AwaitWorkers wg by (rule all_stopped)
    moreover have "pool_step ?a PvClosed (?a\<lparr>ar_pace := gate_Close (ar_pace ?a), ar_await := AwaitDone\<rparr>)"
      (is "pool_step _ _ ?b") by (rule closed) simp
    ultimately have "steps pool_step r2 [PvAllStopped, PvClosed] ?b"
      by (meson steps_Cons steps_Nil)
    then show ?thesis by (intro exI conjI) (assumption, simp)
  next
    case AwaitClose
    from steps_one [where step = pool_step, OF closed, OF this] show ?thesis by (intro exI conjI) (assumption, simp)
  next
    case AwaitDone
    then show ?thesis by (intro exI [of _ "[]"] exI [of _ r2]) (auto intro: steps_Nil)
  qed
  then obtain es3 r3 where r3: "steps pool_step r2 es3 r3" "ar_done r3" by (auto simp: ar_done_def)
  have all: "steps pool_step r (es1 @ es2 @ es3) r3"
    by (rule steps_append [OF r1(1) steps_append [OF r2(1) r3(1)]])
  have inv3: "pool_inv r3" using pool.steps_inv [OF all inv] .
  then have "once_returns r3" using r3(2) by (auto simp: pool_inv_def pool_open_def ar_done_def)
  then have "ar_Wait r3 = Some (ar_finalErr r3) \<and> ar_once r3 = OnceDone (ar_finalErr r3)"
    using inv3 r3(2) by (auto simp: ar_Wait_def once_returns_def pool_inv_def pool_finish_def once_ok_def split: once_pc.splits)
  with all show ?thesis by blast
qed

theorem finished_run_can_end_witness:
  "\<exists>es r' err. steps pool_step demo_failed es r' \<and> ar_Wait r' = Some err"
proof -
  have "ar_once demo_failed \<noteq> OnceNew" by (simp add: demo_failed_def Let_def)
  from finished_run_can_end [OF demo_failed_reach this] show ?thesis by blast
qed

subsection \<open>The duration of a run\<close>

text \<open>
  C32. A run lasts as long as its options say exactly when the duration has at most
  9223372036 seconds, the range of \<open>time.Duration\<close>; there is no upper limit on
  \<open>duration_seconds\<close>, and one second more already gives a negative delay, with which the
  run ends at once.
\<close>
theorem run_duration_exact_iff:
  "validateStartOptions options = None \<Longrightarrow>
     (run_duration options = so_DurationSeconds options * 1000000000 \<longleftrightarrow> so_DurationSeconds options \<le> 9223372036)
   \<and> run_duration (options\<lparr>so_DurationSeconds := 9223372037\<rparr>) < 0"
proof -
  assume "validateStartOptions options = None"
  then have d: "1 \<le> so_DurationSeconds options"
    unfolding validateStartOptions_iff valid_start_def by simp
  let ?x = "so_DurationSeconds options * 1000000000"
  have "wrap64 ?x = ?x \<longleftrightarrow> in_i64 ?x" using wrap64_id wrap64_range [of ?x] by metis
  moreover have "in_i64 ?x \<longleftrightarrow> so_DurationSeconds options \<le> 9223372036" using d by (auto simp: in_i64_def)
  ultimately show ?thesis by (simp add: run_duration_def seconds_def second_def wrap64_def)
qed

theorem run_duration_exact_iff_witness: "run_duration (demo_start\<lparr>so_DurationSeconds := 9223372037\<rparr>) < 0"
proof -
  have "validateStartOptions demo_start = None"
    by (simp add: demo_start_def validateStartOptions_def isValidProfile_def profile_defs)
  from run_duration_exact_iff [OF this] show ?thesis by simp
qed

end
