(* ===== verification/Runner.thy ===== *)
theory Runner
  imports Workload Worker_Pool
begin

text \<open>
  The runner, \<open>internal/benchrunner/runner.go\<close>: the guards of \<open>Start\<close>, the choice of the
  plan, the statements that create and seed the schema, and the start of the run. The
  database is the parameter of \<open>Workload\<close>; \<open>now\<close> is the instant the clock returns. A panic
  of the pacing gate is \<^const>\<open>None\<close>.
\<close>

abbreviation tab2 :: string where "tab2 \<equiv> [CHR 0x09, CHR 0x09]"
abbreviation tab3 :: string where "tab3 \<equiv> [CHR 0x09, CHR 0x09, CHR 0x09]"
abbreviation quot :: string where "quot \<equiv> [CHR 0x27]"

text \<open>A column or a clause on a line of its own inside a raw string.\<close>

definition line3 :: "string \<Rightarrow> string" where
  "line3 s = tab3 @ s @ nl"

definition createBranches :: string where
  "createBranches = ''CREATE TABLE IF NOT EXISTS '' @ benchmarkTable ''branches'' @ '' ('' @ nl
     @ line3 ''id integer PRIMARY KEY,'' @ line3 ''balance bigint NOT NULL,'' @ line3 ''name text NOT NULL'' @ tab2 @ '')''"

definition createTellers :: string where
  "createTellers = ''CREATE TABLE IF NOT EXISTS '' @ benchmarkTable ''tellers'' @ '' ('' @ nl
     @ line3 ''id integer PRIMARY KEY,''
     @ line3 (''branch_id integer NOT NULL REFERENCES '' @ benchmarkTable ''branches'' @ ''(id),'')
     @ line3 ''balance bigint NOT NULL,'' @ line3 ''name text NOT NULL'' @ tab2 @ '')''"

definition createAccounts :: string where
  "createAccounts = ''CREATE TABLE IF NOT EXISTS '' @ benchmarkTable ''accounts'' @ '' ('' @ nl
     @ line3 ''id bigint PRIMARY KEY,''
     @ line3 (''branch_id integer NOT NULL REFERENCES '' @ benchmarkTable ''branches'' @ ''(id),'')
     @ line3 ''balance bigint NOT NULL,'' @ line3 ''name text NOT NULL'' @ tab2 @ '')''"

definition createHistory :: string where
  "createHistory = ''CREATE TABLE IF NOT EXISTS '' @ benchmarkTable ''history'' @ '' ('' @ nl
     @ line3 ''id bigint GENERATED ALWAYS AS IDENTITY PRIMARY KEY,''
     @ line3 (''account_id bigint NOT NULL REFERENCES '' @ benchmarkTable ''accounts'' @ ''(id),'')
     @ line3 (''teller_id integer NOT NULL REFERENCES '' @ benchmarkTable ''tellers'' @ ''(id),'')
     @ line3 (''branch_id integer NOT NULL REFERENCES '' @ benchmarkTable ''branches'' @ ''(id),'')
     @ line3 ''amount bigint NOT NULL,'' @ line3 ''note text NOT NULL,''
     @ line3 ''created_at timestamptz NOT NULL'' @ tab2 @ '')''"

definition createIndexes :: "string list" where
  "createIndexes =
     [''CREATE INDEX IF NOT EXISTS bench_accounts_branch_id_id_idx'' @ nl @ tab3
        @ ''ON '' @ benchmarkTable ''accounts'' @ '' (branch_id, id)'',
      ''CREATE INDEX IF NOT EXISTS bench_tellers_branch_id_id_idx'' @ nl @ tab3
        @ ''ON '' @ benchmarkTable ''tellers'' @ '' (branch_id, id)'',
      ''CREATE INDEX IF NOT EXISTS bench_history_account_id_created_at_idx'' @ nl @ tab3
        @ ''ON '' @ benchmarkTable ''history'' @ '' (account_id, created_at)'']"

definition seedBranches :: "ScaleModel \<Rightarrow> string" where
  "seedBranches scale = ''INSERT INTO '' @ benchmarkTable ''branches'' @ '' (id, balance, name)'' @ nl
     @ ''SELECT id, 0, format('' @ quot @ ''branch-%s'' @ quot @ '', id)'' @ nl
     @ ''FROM generate_series(1, '' @ decimal_int (Branches scale) @ '') AS id'' @ nl
     @ ''WHERE NOT EXISTS (SELECT 1 FROM '' @ benchmarkTable ''branches'' @ '' LIMIT 1)''"

definition seedTellers :: "ScaleModel \<Rightarrow> string" where
  "seedTellers scale = ''INSERT INTO '' @ benchmarkTable ''tellers'' @ '' (id, branch_id, balance, name)'' @ nl
     @ ''SELECT id, ((id - 1) / 10) + 1, 0, format('' @ quot @ ''teller-%s'' @ quot @ '', id)'' @ nl
     @ ''FROM generate_series(1, '' @ decimal_int (Tellers scale) @ '') AS id'' @ nl
     @ ''WHERE NOT EXISTS (SELECT 1 FROM '' @ benchmarkTable ''tellers'' @ '' LIMIT 1)''"

definition seedAccounts :: "ScaleModel \<Rightarrow> string" where
  "seedAccounts scale = ''INSERT INTO '' @ benchmarkTable ''accounts'' @ '' (id, branch_id, balance, name)'' @ nl
     @ ''SELECT id, ((id - 1) % '' @ decimal_int (Branches scale) @ '') + 1, 0, format('' @ quot @ ''account-%s'' @ quot
     @ '', id)'' @ nl
     @ ''FROM generate_series(1, '' @ decimal_int (Accounts scale) @ '') AS id'' @ nl
     @ ''WHERE NOT EXISTS (SELECT 1 FROM '' @ benchmarkTable ''accounts'' @ '' LIMIT 1)''"

definition dropSchema :: string where
  "dropSchema = ''DROP SCHEMA IF EXISTS '' @ benchmarkSchema @ '' CASCADE''"

definition setupStatements :: "StartOptions \<Rightarrow> ScaleModel \<Rightarrow> string list" where
  "setupStatements options scale =
     (let statements = [];
          statements = (if so_Reset options then statements @ [dropSchema] else statements)
      in statements @ [''CREATE SCHEMA IF NOT EXISTS '' @ benchmarkSchema,
                       createBranches, createTellers, createAccounts, createHistory]
           @ createIndexes @ [seedBranches scale, seedTellers scale, seedAccounts scale])"

section \<open>Start\<close>

record 'w runner =
  ru_db :: "'w sqldb option"
  ru_newPlan :: "(StartOptions \<Rightarrow> ScaleModel \<Rightarrow> goerror + workloadPlan) option"
  ru_newPaceGate :: "(int option \<Rightarrow> realPacingGate option) option"

definition newRunner :: "'w sqldb \<Rightarrow> 'w runner" where
  "newRunner db = \<lparr>ru_db = Some db, ru_newPlan = Some newSQLWorkloadPlan, ru_newPaceGate = Some newRealPacingGate\<rparr>"

definition withDefaults :: "'w runner \<Rightarrow> 'w runner" where
  "withDefaults r =
     (let r = (if ru_newPlan r = None then r\<lparr>ru_newPlan := Some newSQLWorkloadPlan\<rparr> else r)
      in if ru_newPaceGate r = None then r\<lparr>ru_newPaceGate := Some newRealPacingGate\<rparr> else r)"

text \<open>The loop over the setup statements.\<close>

fun exec_setup :: "'w sqldb \<Rightarrow> string list \<Rightarrow> 'w \<Rightarrow> 'w \<times> goerror option" where
  "exec_setup db [] w = (w, None)"
| "exec_setup db (statement # statements) w =
     (case db_ExecContext db OnDB statement [] w of
        (w, Some execErr) \<Rightarrow> (w, Some (Wrap ''setup benchmark schema'' execErr))
      | (w, None) \<Rightarrow> exec_setup db statements w)"

definition start_guard_error :: "StartOptions \<Rightarrow> goerror option" where
  "start_guard_error options =
     (if so_Scale options < 1 then Some (Errorf ''scale must be at least 1'')
      else if so_Clients options < 1 then Some (Errorf ''clients must be at least 1'')
      else if so_DurationSeconds options < 1 then Some (Errorf ''duration_seconds must be at least 1'')
      else if so_WarmupSeconds options < 0 then Some (Errorf ''warmup_seconds must be at least 0'')
      else if so_WarmupSeconds options \<ge> so_DurationSeconds options
        then Some (Errorf ''warmup_seconds must be less than duration_seconds'')
      else None)"

definition runner_Start ::
  "'w runner \<Rightarrow> StartOptions \<Rightarrow> gotime \<Rightarrow> 'w \<Rightarrow> ('w \<times> (goerror + activeRun \<times> workloadPlan)) option" where
  "runner_Start r0 options now w =
     (let r = withDefaults r0 in
      case ru_db r of
        None \<Rightarrow> Some (w, Inl (Errorf ''setup benchmark schema: database handle is nil''))
      | Some db \<Rightarrow>
          (case start_guard_error options of
             Some err \<Rightarrow> Some (w, Inl err)
           | None \<Rightarrow>
               (let scale = ResolveScale (so_Scale options) in
                case the (ru_newPlan r) options scale of
                  Inl err \<Rightarrow> Some (w, Inl err)
                | Inr plan \<Rightarrow>
                    (case exec_setup db (setupStatements options scale) w of
                       (w, Some err) \<Rightarrow> Some (w, Inl err)
                     | (w, None) \<Rightarrow>
                         (case the (ru_newPaceGate r) (so_TargetTPS options) of
                            None \<Rightarrow> None
                          | Some pace \<Rightarrow> Some (w, Inr (newActiveRun options pace now, plan)))))))"

text \<open>What a run that was started is.\<close>

lemma runner_Start_run:
  assumes "runner_Start (newRunner db) options now w = Some (w', Inr (run, plan))"
  shows "newSQLWorkloadPlan options (ResolveScale (so_Scale options)) = Inr plan
    \<and> (\<exists>pace. newRealPacingGate (so_TargetTPS options) = Some pace \<and> run = newActiveRun options pace now)"
  using assms by (auto simp: runner_Start_def newRunner_def withDefaults_def Let_def
      split: option.splits sum.splits prod.splits)

section \<open>Properties\<close>

text \<open>
  C39. The runner starts whatever the option contract accepts: for validated options with a
  scale in range, \<open>Start\<close> neither panics nor refuses the options. It returns the error of
  the first setup statement the database rejects, or else a run in its initial state with
  the workload of the profile.
\<close>
theorem start_accepts_valid_options:
  assumes "validateStartOptions options = None" and "scale_in_range (so_Scale options)"
    and "so_Clients options < 2 ^ 63"
  shows "case exec_setup db (setupStatements options (ResolveScale (so_Scale options))) w of
      (w', Some err) \<Rightarrow> runner_Start (newRunner db) options now w = Some (w', Inl err)
    | (w', None) \<Rightarrow> (\<exists>run plan. runner_Start (newRunner db) options now w = Some (w', Inr (run, plan))
        \<and> pool_init run \<and> plan_ok plan)"
proof -
  let ?scale = "ResolveScale (so_Scale options)"
  have v: "start_guard_error options = None" "\<And>tps. so_TargetTPS options = Some tps \<Longrightarrow> 1 \<le> tps"
    using assms(1) unfolding validateStartOptions_iff valid_start_def
    by (auto simp: start_guard_error_def split: option.splits)
  obtain plan where plan: "newSQLWorkloadPlan options ?scale = Inr plan" and ok: "plan_ok plan"
    using valid_plan_ok [OF assms(1,2)] by blast
  obtain pace where pace: "newRealPacingGate (so_TargetTPS options) = Some pace"
    using gate_Update_eq [OF v(2)] unfolding newRealPacingGate_def by (cases "so_TargetTPS options") (auto simp: Let_def)
  have init: "pool_init (newActiveRun options pace now)"
    unfolding pool_init_def using assms(1,3) pace by blast
  show ?thesis
    using v(1) plan ok pace init
    by (simp add: runner_Start_def newRunner_def withDefaults_def Let_def split: prod.splits option.splits)
qed

theorem start_accepts_valid_options_witness:
  "\<exists>w' run plan. runner_Start (newRunner quiet_db) demo_start 0 () = Some (w', Inr (run, plan)) \<and> pool_init run"
proof -
  have quiet: "exec_setup quiet_db sts w = (w, None)" for sts w
    by (induction sts) (simp_all add: quiet_db_def)
  have "validateStartOptions demo_start = None" "scale_in_range (so_Scale demo_start)" "so_Clients demo_start < 2 ^ 63"
    by (simp_all add: demo_start_def validateStartOptions_def isValidProfile_def profile_defs scale_in_range_def)
  from start_accepts_valid_options [OF this, where db = quiet_db and w = "()" and now = 0] show ?thesis by (auto simp: quiet)
qed

text \<open>The calls of the setup, logged.\<close>

lemma exec_setup_log:
  "\<exists>k w'. k \<le> length sts \<and> (case snd (exec_setup db sts w) of None \<Rightarrow> k = length sts | Some err \<Rightarrow> 1 \<le> k)
    \<and> exec_setup (log_db db) sts (w, l) =
        ((w', l @ map (\<lambda>s. CallExec OnDB s []) (take k sts)), snd (exec_setup db sts w))"
proof (induction sts arbitrary: w l)
  case Nil
  then show ?case by simp
next
  case (Cons s sts)
  obtain w1 e where e: "db_ExecContext db OnDB s [] w = (w1, e)" by fastforce
  show ?case
  proof (cases e)
    case (Some err)
    then show ?thesis using e by (intro exI [of _ 1] exI [of _ w1]) (simp add: log_db_def logged_def)
  next
    case None
    have eq: "exec_setup (log_db db) (s # sts) (w, l) = exec_setup (log_db db) sts (w1, l @ [CallExec OnDB s []])"
      "exec_setup db (s # sts) w = exec_setup db sts w1"
      using e None by (simp_all add: log_db_def logged_def)
    from Cons.IH [of w1 "l @ [CallExec OnDB s []]"] show ?thesis
    proof (elim exE conjE)
      fix k w'
      assume "k \<le> length sts" "case snd (exec_setup db sts w1) of None \<Rightarrow> k = length sts | Some err \<Rightarrow> 1 \<le> k"
        "exec_setup (log_db db) sts (w1, l @ [CallExec OnDB s []]) =
          ((w', (l @ [CallExec OnDB s []]) @ map (\<lambda>s. CallExec OnDB s []) (take k sts)), snd (exec_setup db sts w1))"
      then show ?thesis unfolding eq by (intro exI [of _ "Suc k"] exI [of _ w']) (auto split: option.splits)
    qed
  qed
qed

text \<open>
  The setup runs its statements in order and stops at the first one that fails: what
  reaches the database is a prefix of the setup statements, all of them when no error is
  reported. The schema is dropped exactly when a reset was requested, and then before
  anything else.
\<close>
theorem setup_runs_in_order:
  "let statements = setupStatements options scale; r = exec_setup (log_db db) statements (w, []) in
     (\<exists>k \<le> length statements. snd (fst r) = map (\<lambda>s. CallExec OnDB s []) (take k statements)
        \<and> (case snd r of None \<Rightarrow> k = length statements | Some err \<Rightarrow> 1 \<le> k))
   \<and> length statements = (if so_Reset options then 12 else 11)
   \<and> (hd statements = dropSchema \<longleftrightarrow> so_Reset options) \<and> dropSchema \<notin> set (tl statements)"
proof -
  let ?sts = "setupStatements options scale"
  have order: "\<exists>k \<le> length ?sts. snd (fst (exec_setup (log_db db) ?sts (w, []))) = map (\<lambda>s. CallExec OnDB s []) (take k ?sts)
      \<and> (case snd (exec_setup (log_db db) ?sts (w, [])) of None \<Rightarrow> k = length ?sts | Some err \<Rightarrow> 1 \<le> k)"
    using exec_setup_log [where db = db and sts = ?sts and w = w and l = "[]"] by auto
  have "dropSchema \<noteq> ''CREATE SCHEMA IF NOT EXISTS '' @ benchmarkSchema" by (simp add: dropSchema_def)
  moreover have "dropSchema \<notin> set (tl ?sts)"
    by (simp add: setupStatements_def Let_def dropSchema_def createBranches_def createTellers_def createAccounts_def
        createHistory_def createIndexes_def seedBranches_def seedTellers_def seedAccounts_def)
  ultimately show ?thesis using order
    by (simp add: Let_def) (simp add: setupStatements_def Let_def createIndexes_def)
qed


section \<open>Seeding an existing schema\<close>




























end
