(* ===== verification/Bench_System.thy ===== *)
theory Bench_System
  imports Coordinator Runner
begin

text \<open>
  The coordinator with the runner of \<open>internal/benchrunner\<close> behind its \<open>Runner\<close> and \<open>Run\<close>
  interfaces, as \<open>internal/app\<close> wires them. The world holds the database, the runs that
  were started, each with its plan and the context it watches, and the clock. The runs move
  on their own: the clock advances, a goroutine of a run takes a step, or a worker completes
  a turn of the plan against the database.
\<close>

section \<open>The world of the runs\<close>

record 'd world =
  bw_db :: 'd
  bw_runs :: "nat \<rightharpoonup> activeRun \<times> workloadPlan \<times> nat"
  bw_next :: nat
  bw_now :: gotime

definition bench_Start ::
  "'d runner \<Rightarrow> nat \<Rightarrow> StartOptions \<Rightarrow> 'd world \<Rightarrow> goerror + nat \<Rightarrow> 'd world \<Rightarrow> bool" where
  "bench_Start rn ctx options bw result bw' \<longleftrightarrow>
     (case runner_Start rn options (bw_now bw) (bw_db bw) of
        None \<Rightarrow> False
      | Some (d, Inl err) \<Rightarrow> result = Inl err \<and> bw' = bw\<lparr>bw_db := d\<rparr>
      | Some (d, Inr (run, plan)) \<Rightarrow>
          result = Inr (bw_next bw) \<and>
          bw' = bw\<lparr>bw_db := d, bw_runs := (bw_runs bw)(bw_next bw \<mapsto> (run, plan, ctx)), bw_next := Suc (bw_next bw)\<rparr>)"

definition bench_Alter :: "nat \<Rightarrow> AlterOptions \<Rightarrow> 'd world \<Rightarrow> 'd world \<times> goerror option" where
  "bench_Alter r options bw =
     (case bw_runs bw r of
        None \<Rightarrow> (bw, Some (Errorf ''no such run''))
      | Some (run, plan, ctx) \<Rightarrow>
          (case ar_Alter options run of
             None \<Rightarrow> (bw, Some (Errorf ''panic''))
           | Some (run', err) \<Rightarrow> (bw\<lparr>bw_runs := (bw_runs bw)(r \<mapsto> (run', plan, ctx))\<rparr>, err)))"

definition bench_Sample :: "nat \<Rightarrow> 'd world \<Rightarrow> Sample" where
  "bench_Sample r bw =
     (case bw_runs bw r of None \<Rightarrow> zeroSample | Some (run, plan, ctx) \<Rightarrow> ar_Sample run (bw_now bw))"

definition bench_Wait :: "nat \<Rightarrow> 'd world \<Rightarrow> goerror option \<Rightarrow> bool" where
  "bench_Wait r bw err \<longleftrightarrow>
     (case bw_runs bw r of None \<Rightarrow> False | Some (run, plan, ctx) \<Rightarrow> ar_Wait run = Some err)"

definition bench_api :: "'d runner \<Rightarrow> (nat, 'd world) run_api" where
  "bench_api rn = \<lparr>api_Start = bench_Start rn, api_Alter = bench_Alter, api_Sample = bench_Sample,
                   api_Wait = bench_Wait\<rparr>"

text \<open>The events of a pool that the goroutines of a run take by themselves.\<close>

definition internal :: "nat \<Rightarrow> nat set \<Rightarrow> pool_event \<Rightarrow> bool" where
  "internal ctx cancelled e \<longleftrightarrow>
     (case e of PvAlter _ \<Rightarrow> False | PvRan _ _ _ _ \<Rightarrow> False | PvParentDone _ \<Rightarrow> ctx \<in> cancelled | _ \<Rightarrow> True)"

inductive bench_env :: "'d sqldb \<Rightarrow> nat set \<Rightarrow> 'd world \<Rightarrow> 'd world \<Rightarrow> bool" for db cancelled where
  clock: "bw_now bw \<le> t \<Longrightarrow> bench_env db cancelled bw (bw\<lparr>bw_now := t\<rparr>)"
| goroutine: "bw_runs bw r = Some (run, plan, ctx) \<Longrightarrow> pool_step run e run' \<Longrightarrow> internal ctx cancelled e \<Longrightarrow>
    bench_env db cancelled bw (bw\<lparr>bw_runs := (bw_runs bw)(r \<mapsto> (run', plan, ctx))\<rparr>)"
| turn: "bw_runs bw r = Some (run, plan, ctx) \<Longrightarrow>
    RunOnce db (bw_now bw) plan (bw_db bw) = Some (plan', d, kind, err) \<Longrightarrow>
    pool_step run (PvRan i kind err (bw_now bw)) run' \<Longrightarrow>
    bench_env db cancelled bw (bw\<lparr>bw_db := d, bw_runs := (bw_runs bw)(r \<mapsto> (run', plan', ctx))\<rparr>)"

section \<open>Configured clients\<close>

definition bench_clients :: "nat \<Rightarrow> 'd world \<Rightarrow> int" where
  "bench_clients r bw =
     (case bw_runs bw r of None \<Rightarrow> 0 | Some (run, plan, ctx) \<Rightarrow> rs_configuredClients (ar_stats run))"

lemma grow_configured: "rs_configuredClients (ar_stats (grow_loop f t r)) = rs_configuredClients (ar_stats r)"
  by (induction f t r rule: grow_loop.induct) (simp_all add: workerStarted_def)

lemma shrink_stats: "ar_stats (shrink_loop t ids r) = ar_stats r"
  by (induction t ids r rule: shrink_loop.induct) simp_all

lemma resize_configured: "rs_configuredClients (ar_stats (resizeWorkers t r)) = t"
  by (simp add: resizeWorkers_def Let_def grow_configured shrink_stats setConfiguredClients_def)

lemma record_configured: "rs_configuredClients (stats_record s k l t err) = rs_configuredClients s"
  by (auto simp: stats_record_def Let_def split: option.splits)

lemma internal_configured:
  assumes "pool_step r e r'" and "\<And>options. e \<noteq> PvAlter options"
  shows "rs_configuredClients (ar_stats r') = rs_configuredClients (ar_stats r)"
  using assms
  by (cases rule: pool_step.cases)
    (auto simp: after_pace_def after_RunOnce_def after_record_def set_pc_def once_enter_def ar_workerStopped_def
      stats_workerStopped_def record_configured finish_step_def stats_finish_def Let_def
      split: option.splits once_pc.splits if_splits)

lemma alter_configured:
  assumes "ar_Alter options r = Some (r', err)"
  shows "rs_configuredClients (ar_stats r') =
    (case (err, ao_Clients options) of (None, Some n) \<Rightarrow> n | _ \<Rightarrow> rs_configuredClients (ar_stats r))"
  using assms by (auto simp: ar_Alter_def Let_def resize_configured split: if_splits option.splits)

lemma ar_Alter_total: "\<exists>r' err. ar_Alter options r = Some (r', err)"
proof (cases "validateAlterOptions options")
  case (Some e)
  then show ?thesis by (auto simp: ar_Alter_def validateAlterOptions_def split: if_splits)
next
  case None
  then have "1 \<le> t" if "ao_TargetTPS options = Some t" for t
    using that by (auto simp: validateAlterOptions_def split: if_splits)
  then have "\<exists>g. gate_Update (ao_TargetTPS options) (ar_pace r) = Some g"
    using gate_Update_eq [of "ao_TargetTPS options" "ar_pace r"] by (cases "ao_TargetTPS options") (auto simp: Let_def)
  then show ?thesis by (auto simp: ar_Alter_def Let_def)
qed

interpretation clients: run_contract "bench_api rn" "bench_env db" bench_clients for rn db
proof unfold_locales
  fix ctx options and w w' :: "'a world" and run
  assume "api_Start (bench_api rn) ctx options w (Inr run) w'"
  then show "bench_clients run w' = so_Clients options"
    by (auto simp: bench_api_def bench_Start_def runner_Start_def bench_clients_def newActiveRun_def
        resize_configured Let_def split: option.splits sum.splits prod.splits)
next
  fix run a and w w' :: "'a world"
  assume "api_Alter (bench_api rn) run a w = (w', None)"
  then show "bench_clients run w' = (case ao_Clients a of None \<Rightarrow> bench_clients run w | Some n \<Rightarrow> n)"
    by (auto simp: bench_api_def bench_Alter_def bench_clients_def alter_configured split: option.splits prod.splits)
next
  fix run a e and w w' :: "'a world"
  assume "api_Alter (bench_api rn) run a w = (w', Some e)"
  then show "bench_clients run w' = bench_clients run w"
    by (auto simp: bench_api_def bench_Alter_def bench_clients_def alter_configured split: option.splits prod.splits)
next
  fix cancelled run and w w' :: "'a world"
  assume "bench_env db cancelled w w'"
  then show "bench_clients run w' = bench_clients run w"
  proof (cases rule: bench_env.cases)
    case (goroutine r ar plan ctx e ar')
    then have "rs_configuredClients (ar_stats ar') = rs_configuredClients (ar_stats ar)"
      by (intro internal_configured) (auto simp: internal_def)
    with goroutine show ?thesis by (auto simp: bench_clients_def)
  next
    case (turn r ar plan ctx plan' d kind err i ar')
    then have "rs_configuredClients (ar_stats ar') = rs_configuredClients (ar_stats ar)"
      by (intro internal_configured) auto
    with turn show ?thesis by (auto simp: bench_clients_def)
  qed (auto simp: bench_clients_def)
qed

text \<open>
  C33. What the API reports about clients is one and the same number: as long as the
  coordinator holds a run, the \<open>configured_clients\<close> of its samples equals the \<open>clients\<close> of
  the options the coordinator reports, through every interleaving of starts, alterations,
  stops and the steps of the runs.
\<close>
theorem reported_clients_agree:
  assumes "reach sy_init (co_step (bench_api rn) (bench_env db)) s" and "co_run (sy_co s) = Some r"
    and "bw_runs (sy_world s) r = Some (run, plan, ctx)"
  shows "sa_ConfiguredClients (bench_Sample r (sy_world s)) = so_Clients (cs_Options (co_State (sy_co s)))
    \<and> st_ConfiguredClients (re_Stats (co_Results (bench_api rn) (sy_world s) (sy_co s)))
      = so_Clients (cs_Options (co_State (sy_co s)))"
proof -
  have "bench_clients r (sy_world s) = so_Clients (cs_Options (co_state (sy_co s)))"
    using clients.reach_in_step [OF assms(1)] assms(2) by (simp add: clients.in_step_def)
  then have c: "sa_ConfiguredClients (bench_Sample r (sy_world s)) = so_Clients (cs_Options (co_State (sy_co s)))"
    using assms(3) by (simp add: bench_clients_def bench_Sample_def ar_Sample_def stats_sample_def sampleLocked_def co_State_def)
  have "st_ConfiguredClients (re_Stats (co_Results (bench_api rn) (sy_world s) (sy_co s)))
      = sa_ConfiguredClients (bench_Sample r (sy_world s))"
    using assms(2) by (simp add: co_Results_def stateToResults_def Let_def Sample_Stats_def
        normalizeResultsSample_def currentSample_def bench_api_def)
  with c show ?thesis by simp
qed

section \<open>Every run of the system is a run of the pool\<close>

lemma grow_loop_nextID: "ar_nextID r \<le> ar_nextID (resizeWorkers t r)"
proof -
  have "ar_nextID (shrink_loop t ids r) = ar_nextID r" for t ids r
    by (induction t ids r rule: shrink_loop.induct) simp_all
  then show ?thesis
    using grow_nextID [of "r\<lparr>ar_stats := setConfiguredClients (ar_stats r) t\<rparr>" "nat t" t]
    by (simp add: resizeWorkers_def Let_def)
qed

lemma alter_nextID:
  assumes "ar_Alter options r = Some (r', err)"
  shows "ar_nextID r \<le> ar_nextID r'"
proof -
  have "ar_nextID (r\<lparr>ar_pace := p\<rparr>) \<le> ar_nextID (resizeWorkers t (r\<lparr>ar_pace := p\<rparr>))" for p t
    by (rule grow_loop_nextID)
  then show ?thesis using assms grow_loop_nextID [of r]
    by (auto simp: ar_Alter_def Let_def split: if_splits option.splits)
qed

lemma pool_step_nextID:
  assumes "pool_step r e r'"
  shows "ar_nextID r \<le> ar_nextID r'"
  using assms
proof (cases rule: pool_step.cases)
  case (alter options res)
  then show ?thesis using alter_nextID by blast
qed (auto simp: after_pace_def after_RunOnce_def after_record_def set_pc_def once_enter_def ar_workerStopped_def
    finish_step_def split: option.splits once_pc.splits if_splits)

text \<open>
  Unless it has started \<open>2\<^sup>63\<close> workers, a run of the world is a reachable state of the pool,
  and its plan works.
\<close>

definition run_good :: "activeRun \<times> workloadPlan \<times> nat \<Rightarrow> bool" where
  "run_good x \<longleftrightarrow> (case x of (run, plan, ctx) \<Rightarrow>
     (within_int run \<longrightarrow> reach pool_init pool_step run) \<and> plan_ok plan)"

definition world_good :: "'d world \<Rightarrow> bool" where
  "world_good bw \<longleftrightarrow> (\<forall>r x. bw_runs bw r = Some x \<longrightarrow> run_good x)"

definition acceptable_start :: "StartOptions \<Rightarrow> bool" where
  "acceptable_start options \<longleftrightarrow> validateStartOptions options = None \<and> scale_in_range (so_Scale options)
     \<and> so_Clients options < 2 ^ 63"

lemma within_int_back: "ar_nextID r \<le> ar_nextID r' \<Longrightarrow> within_int r' \<Longrightarrow> within_int r"
  by (simp add: within_int_def)

lemma run_good_step:
  assumes "run_good (run, plan, ctx)" and "pool_step run e run'" and "plan_ok plan'"
  shows "run_good (run', plan', ctx)"
  using assms reach_pool_step [OF _ assms(2)] within_int_back [OF pool_step_nextID [OF assms(2)]]
  by (simp add: run_good_def)

lemma world_good_upd: "world_good bw \<Longrightarrow> run_good x \<Longrightarrow> world_good (bw\<lparr>bw_db := d, bw_runs := (bw_runs bw)(r \<mapsto> x)\<rparr>)"
  "world_good bw \<Longrightarrow> run_good x \<Longrightarrow> world_good (bw\<lparr>bw_runs := (bw_runs bw)(r \<mapsto> x)\<rparr>)"
  by (auto simp: world_good_def)

lemma started_run_good:
  assumes "acceptable_start options" and "runner_Start (newRunner db) options now d = Some (d', Inr (run, plan))"
  shows "run_good (run, plan, ctx)"
proof -
  have v: "validateStartOptions options = None" "scale_in_range (so_Scale options)" "so_Clients options < 2 ^ 63"
    using assms(1) by (simp_all add: acceptable_start_def)
  obtain pace where p: "newRealPacingGate (so_TargetTPS options) = Some pace" "run = newActiveRun options pace now"
    and plan: "newSQLWorkloadPlan options (ResolveScale (so_Scale options)) = Inr plan"
    using runner_Start_run [OF assms(2)] by blast
  have "pool_init run" unfolding pool_init_def using v(1,3) p by blast
  moreover have "plan_ok plan" using valid_plan_ok [OF v(1,2)] plan by auto
  ultimately show ?thesis by (simp add: run_good_def reach_init)
qed

interpretation bench_world: world_contract "bench_api (newRunner db)" "bench_env db" acceptable_start world_good for db
proof unfold_locales
  fix options ctx result and w w' :: "'a world"
  assume ok: "acceptable_start options" "world_good w" and start: "api_Start (bench_api (newRunner db)) ctx options w result w'"
  from start have "\<exists>d. w' = w\<lparr>bw_db := d\<rparr> \<or>
      (\<exists>run plan. runner_Start (newRunner db) options (bw_now w) (bw_db w) = Some (d, Inr (run, plan))
        \<and> w' = w\<lparr>bw_db := d, bw_runs := (bw_runs w)(bw_next w \<mapsto> (run, plan, ctx)), bw_next := Suc (bw_next w)\<rparr>)"
  proof (cases "runner_Start (newRunner db) options (bw_now w) (bw_db w)")
    case None
    with start show ?thesis by (simp add: bench_api_def bench_Start_def)
  next
    case (Some x)
    obtain d res where x: "x = (d, res)" by (cases x)
    show ?thesis
    proof (cases res)
      case (Inl err)
      with start Some x show ?thesis by (auto simp: bench_api_def bench_Start_def)
    next
      case (Inr y)
      with start Some x show ?thesis by (cases y) (auto simp: bench_api_def bench_Start_def)
    qed
  qed
  with ok started_run_good show "world_good w'" by (fastforce simp: world_good_def)
next
  fix run a and w :: "'a world"
  assume ok: "world_good w"
  show "world_good (fst (api_Alter (bench_api (newRunner db)) run a w))"
  proof (cases "bw_runs w run")
    case None
    with ok show ?thesis by (simp add: bench_api_def bench_Alter_def)
  next
    case (Some x)
    obtain ar plan ctx where x: "x = (ar, plan, ctx)" by (cases x)
    obtain ar' err where a: "ar_Alter a ar = Some (ar', err)" using ar_Alter_total by blast
    have good: "run_good (ar, plan, ctx)" using ok Some x by (simp add: world_good_def)
    have "within_int ar' \<Longrightarrow> pool_step ar (PvAlter a) ar'" by (rule alter [OF a])
    then have "run_good (ar', plan, ctx)"
      using good reach_pool_step within_int_back [OF alter_nextID [OF a]] unfolding run_good_def by blast
    with ok Some x a show ?thesis by (simp add: bench_api_def bench_Alter_def world_good_upd)
  qed
next
  fix cancelled and w w' :: "'a world"
  assume ok: "world_good w" and "bench_env db cancelled w w'"
  from this(2) show "world_good w'"
  proof (cases rule: bench_env.cases)
    case clock
    with ok show ?thesis by (simp add: world_good_def)
  next
    case (goroutine r ar plan ctx e ar')
    have good: "run_good (ar, plan, ctx)" using ok goroutine(2) by (simp add: world_good_def)
    then have "run_good (ar', plan, ctx)"
      using goroutine(3) by (rule run_good_step) (use good in \<open>simp add: run_good_def\<close>)
    with ok goroutine(1) show ?thesis by (simp add: world_good_upd)
  next
    case (turn r ar plan ctx plan' d kind err i ar')
    have good: "run_good (ar, plan, ctx)" using ok turn(2) by (simp add: world_good_def)
    then have "plan_ok plan'" using turn(3) RunOnce_total [of plan db "bw_now w" "bw_db w"] by (auto simp: run_good_def)
    then have "run_good (ar', plan', ctx)" using run_good_step [OF good turn(4)] by blast
    with ok turn(1) show ?thesis by (simp add: world_good_upd)
  qed
qed

section \<open>Guarantees of the whole system\<close>

definition system_start :: "(nat, 'd world) system \<Rightarrow> bool" where
  "system_start s \<longleftrightarrow> sy_init s \<and> bw_runs (sy_world s) = Map.empty"

text \<open>
  C34. The coordinator reports the end of a run only after that run has really ended: when
  \<open>Wait\<close> returns to it, the \<open>finish\<close> of the run is complete, the error is the one of its
  first call and is not a counted operation error, and the final sample it keeps has the
  elapsed time fixed at that \<open>finish\<close>; in every execution whose start requests carry
  validated options.
\<close>
theorem run_end_is_real:
  assumes "system_start s0" and "steps (co_step (bench_api (newRunner db)) (bench_env db)) s0 es s"
    and "\<forall>ctx_err options. EvStart ctx_err options \<in> set es \<longrightarrow> acceptable_start options"
    and "co_step (bench_api (newRunner db)) (bench_env db) s (EvDone err now) t"
    and "\<forall>r x. bw_runs (sy_world s) r = Some x \<longrightarrow> within_int (fst x)"
  shows "\<exists>r run plan ctx finishedAt. co_run (sy_co s) = Some r
    \<and> bw_runs (sy_world s) r = Some (run, plan, ctx)
    \<and> ar_once run = OnceDone err \<and> rs_finishedAt (ar_stats run) = Some finishedAt
    \<and> \<not> counted err
    \<and> co_sample (sy_co t) = ar_Sample run (bw_now (sy_world s))
    \<and> (\<forall>later. sa_ElapsedSeconds (ar_Sample run later) = sa_ElapsedSeconds (co_sample (sy_co t)))"
proof -
  have "bench_world.good_system s0"
    using assms(1) by (simp add: system_start_def sy_init_def bench_world.good_system_def world_good_def)
  from bench_world.good_steps [OF assms(2) _ this] assms(3)
  have good: "world_good (sy_world s)" by (auto simp: bench_world.good_system_def bench_world.requests_ok_def)
  have inv: "co_inv s" using coord.steps_inv [OF assms(2)] co_inv_init assms(1) by (auto simp: system_start_def)
  show ?thesis
    using assms(4)
  proof (cases rule: EvDoneE)
    case (1 xs runID r ys)
    have "phase_running s" using done_effect [OF inv assms(4)] by simp
    then have r: "runID = co_runID (sy_co s)" "co_run (sy_co s) = Some r"
      using 1(2) by (auto simp: phase_running_def)
    from 1(3) obtain run plan ctx where run: "bw_runs (sy_world s) r = Some (run, plan, ctx)" "ar_Wait run = Some err"
      by (auto simp: bench_api_def bench_Wait_def split: option.splits)
    have "run_good (run, plan, ctx)" "within_int run"
      using good assms(5) [rule_format, OF run(1)] run(1) by (simp_all add: world_good_def)
    then have inv: "pool_inv run" using pool.reach_inv by (simp add: run_good_def)
    have "once_returns run" using inv run(2)
      by (auto simp: pool_inv_def pool_open_def ar_Wait_def ar_done_def split: if_splits)
    moreover have "once_ok (ar_once run) (ar_finalErr run) (rs_finishedAt (ar_stats run)) (ar_stopped run)"
      "uncounted (once_error (ar_once run))" "ar_finalErr run = err"
      using inv run(2) by (simp_all add: pool_inv_def pool_finish_def ar_Wait_def split: if_splits)
    ultimately obtain f where f: "ar_once run = OnceDone err" "rs_finishedAt (ar_stats run) = Some f" "uncounted err"
      by (cases "ar_once run") (auto simp: once_returns_def once_ok_def)
    have sample: "co_sample (sy_co t) = ar_Sample run (bw_now (sy_world s))"
      unfolding 1(1) using r run(1)
      by (auto simp: waitForRun_def Let_def bench_api_def bench_Sample_def split: option.splits)
    have "sa_ElapsedSeconds (ar_Sample run later) = sa_ElapsedSeconds (ar_Sample run now')" for later now'
      using f(2) by (simp add: ar_Sample_def stats_sample_def sampleLocked_def elapsedSecondsAt_def)
    with sample r(2) run(1) f show ?thesis by (auto simp: uncounted_def counted_def split: option.splits)
  qed
qed


subsection \<open>A concrete execution\<close>

text \<open>
  One client, paced, against a database that answers everything: the start, the end of the
  duration, the worker leaving at the pacing gate, and the coordinator noticing.
\<close>

lemma single_worker_ends:
  assumes "ar_threads r = [0 \<mapsto> WLoop]" and "ar_once r = OnceNew" and "ar_timer r = Watching"
    and "ar_await r = AwaitWorkers" and "ar_wg r = 1" and "pg_ticker (ar_pace r) = Some tk"
  shows "\<exists>es r'. steps pool_step r es r' \<and> (\<forall>e \<in> set es. internal ctx {} e) \<and> ar_Wait r' = Some None
    \<and> ar_nextID r' = ar_nextID r"
proof -
  define r1 where "r1 = r\<lparr>ar_timer := WatchFinish None\<rparr>"
  define r2 where "r2 = once_enter None r1"
  define r3 where "r3 = r2\<lparr>ar_finalErr := None, ar_once := OnceErrSet None\<rparr>"
  define r4 where "r4 = r3\<lparr>ar_stats := stats_finish (ar_stats r3) 5 None, ar_once := OnceStatsDone None\<rparr>"
  define r5 where "r5 = r4\<lparr>ar_stopped := True, ar_once := OnceDone None\<rparr>"
  define r6 where "r6 = after_pace 0 (Some (Sentinel Canceled)) 5 r5"
  define r7 where "r7 = set_pc 0 WStopped (ar_workerStopped 0 r6)"
  define r8 where "r8 = r7\<lparr>ar_wg := ar_wg r7 - 1, ar_threads := (ar_threads r7)(0 := None)\<rparr>"
  define r9 where "r9 = r8\<lparr>ar_await := AwaitClose\<rparr>"
  define r10 where "r10 = r9\<lparr>ar_pace := gate_Close (ar_pace r9), ar_await := AwaitDone\<rparr>"
  note ds = r1_def r2_def r3_def r4_def r5_def r6_def r7_def r8_def r9_def r10_def once_enter_def after_pace_def
    set_pc_def ar_workerStopped_def ctx_done_def
  have "pool_step r PvTimerFired r1" unfolding r1_def by (rule timer_fired [OF assms(3)])
  moreover have "pool_step r1 PvTimerFinish r2" unfolding r2_def by (rule timer_finish) (simp add: r1_def)
  moreover have "pool_step r2 (PvFinishBody 5) r3" by (rule finish_body) (simp add: ds assms finish_step_def)
  moreover have "pool_step r3 (PvFinishBody 5) r4" by (rule finish_body) (simp add: r3_def r4_def finish_step_def)
  moreover have "pool_step r4 (PvFinishBody 5) r5" by (rule finish_body) (simp add: r4_def r5_def finish_step_def)
  moreover have "pool_step r5 (PvPaced 0 (Some (Sentinel Canceled)) 5) r6"
    unfolding r6_def by (rule paced) (simp_all add: ds assms gate_Wait_simps)
  moreover have "pool_step r6 (PvWorkerStopped 0) r7"
    unfolding r7_def by (rule worker_stopped) (simp add: ds assms)
  moreover have "pool_step r7 (PvWgDone 0) r8" unfolding r8_def by (rule wg_done) (simp add: ds assms)
  moreover have "pool_step r8 PvAllStopped r9" unfolding r9_def by (rule all_stopped) (simp_all add: ds assms)
  moreover have "pool_step r9 PvClosed r10" unfolding r10_def by (rule closed) (simp add: r9_def)
  ultimately have "steps pool_step r [PvTimerFired, PvTimerFinish, PvFinishBody 5, PvFinishBody 5, PvFinishBody 5,
      PvPaced 0 (Some (Sentinel Canceled)) 5, PvWorkerStopped 0, PvWgDone 0, PvAllStopped, PvClosed] r10"
    by (blast intro: steps_Cons steps_Nil)
  moreover have "ar_Wait r10 = Some None" "ar_nextID r10 = ar_nextID r"
    by (simp_all add: ds assms ar_Wait_def ar_done_def)
  ultimately show ?thesis
    by (intro exI conjI) (assumption, simp_all add: internal_def)
qed

text \<open>Steps of a run are steps of the system.\<close>

lemma lift_steps:
  assumes "steps pool_step run es run'" and "\<forall>e \<in> set es. internal ctx (sy_cancelled s) e"
    and "bw_runs (sy_world s) r = Some (run, plan, ctx)"
  shows "steps (co_step api (bench_env db)) s (map (\<lambda>_. EvWorld) es)
    (s\<lparr>sy_world := (sy_world s)\<lparr>bw_runs := (bw_runs (sy_world s))(r \<mapsto> (run', plan, ctx))\<rparr>\<rparr>)"
  using assms
proof (induction arbitrary: s rule: steps.induct)
  case (steps_Nil run)
  then have "(bw_runs (sy_world s))(r \<mapsto> (run, plan, ctx)) = bw_runs (sy_world s)" by (simp add: fun_upd_idem)
  then show ?case by (simp add: steps.steps_Nil)
next
  case (steps_Cons run e run1 es run')
  let ?w = "(sy_world s)\<lparr>bw_runs := (bw_runs (sy_world s))(r \<mapsto> (run1, plan, ctx))\<rparr>"
  let ?s = "s\<lparr>sy_world := ?w\<rparr>"
  have "bench_env db (sy_cancelled s) (sy_world s) ?w"
    using steps_Cons.prems steps_Cons.hyps(1) by (intro goroutine) auto
  then have step: "co_step api (bench_env db) s EvWorld ?s" by (rule world)
  let ?t = "s\<lparr>sy_world := (sy_world s)\<lparr>bw_runs := (bw_runs (sy_world s))(r \<mapsto> (run', plan, ctx))\<rparr>\<rparr>"
  have eq: "?s\<lparr>sy_world := (sy_world ?s)\<lparr>bw_runs := (bw_runs (sy_world ?s))(r \<mapsto> (run', plan, ctx))\<rparr>\<rparr> = ?t"
    by simp
  have "steps (co_step api (bench_env db)) ?s (map (\<lambda>_. EvWorld) es)
      (?s\<lparr>sy_world := (sy_world ?s)\<lparr>bw_runs := (bw_runs (sy_world ?s))(r \<mapsto> (run', plan, ctx))\<rparr>\<rparr>)"
    using steps_Cons.prems by (intro steps_Cons.IH) auto
  then have "steps (co_step api (bench_env db)) ?s (map (\<lambda>_. EvWorld) es) ?t" unfolding eq .
  from steps.steps_Cons [where step = "co_step api (bench_env db)", OF step this] show ?case by (simp only: list.map)
qed

definition one_client :: StartOptions where
  "one_client = demo_start\<lparr>so_Clients := 1, so_TargetTPS := Some 100\<rparr>"

definition bench0 :: "(nat, unit world) system" where
  "bench0 = \<lparr>sy_co = New True, sy_world = \<lparr>bw_db = (), bw_runs = Map.empty, bw_next = 0, bw_now = 0\<rparr>,
     sy_starting = [], sy_waiting = [], sy_cancelled = {}, sy_next = 0\<rparr>"

definition one_gate :: realPacingGate where
  "one_gate = \<lparr>pg_ticker = Some 0, pg_tickers = [(10000000, False)]\<rparr>"

definition one_run :: activeRun where
  "one_run = newActiveRun one_client one_gate 0"

definition bench1 :: "(nat, unit world) system" where
  "bench1 = bench0\<lparr>sy_co := fst (Start_begin None one_client 0 (sy_co bench0)),
     sy_starting := [(1, one_client, 0)], sy_next := 1\<rparr>"

definition bench2 :: "(nat, unit world) system" where
  "bench2 = bench1\<lparr>sy_co := fst (Start_continue 1 one_client (Inr 0) 3 (sy_co bench1)),
     sy_world := (sy_world bench1)\<lparr>bw_runs := [0 \<mapsto> (one_run, readWorkload (ResolveScale 10) 0, 0)], bw_next := 1\<rparr>,
     sy_starting := [], sy_waiting := [(1, 0)]\<rparr>"

lemma one_client_ok: "acceptable_start one_client"
  by (simp add: acceptable_start_def one_client_def demo_start_def validateStartOptions_def isValidProfile_def
      profile_defs scale_in_range_def)

lemma one_start: "runner_Start (newRunner quiet_db) one_client 0 () = Some ((), Inr (one_run, readWorkload (ResolveScale 10) 0))"
proof -
  have quiet: "exec_setup quiet_db sts w = (w, None)" for sts w
    by (induction sts) (simp_all add: quiet_db_def)
  have "pacing_interval 100 = Some 10000000"
    using pacing_interval_pos [of 100] by (simp add: second_def)
  then have "newRealPacingGate (Some 100) = Some one_gate"
    by (simp add: newRealPacingGate_def gate_Update_def NewTicker_def one_gate_def)
  then show ?thesis
    by (simp add: runner_Start_def newRunner_def withDefaults_def start_guard_error_def one_client_def demo_start_def
        newSQLWorkloadPlan_def quiet one_run_def)
qed

lemma bench01: "co_step (bench_api (newRunner quiet_db)) (bench_env quiet_db) bench0 (EvStart None one_client) bench1"
proof -
  have "Start_begin None one_client (sy_next bench0) (sy_co bench0) =
      (fst (Start_begin None one_client 0 (sy_co bench0)), Inr 1)"
    by (simp add: Start_begin_def bench0_def New_def idleState_def Let_def)
  from start_begun [OF this, of "bench_api (newRunner quiet_db)" "bench_env quiet_db"] show ?thesis
    by (simp add: bench1_def bench0_def)
qed

lemma bench12: "co_step (bench_api (newRunner quiet_db)) (bench_env quiet_db) bench1 (EvStarted (Inr 0) 3) bench2"
proof -
  let ?w = "(sy_world bench1)\<lparr>bw_runs := [0 \<mapsto> (one_run, readWorkload (ResolveScale 10) 0, 0)], bw_next := 1\<rparr>"
  have c: "Start_continue 1 one_client (Inr 0) 3 (sy_co bench1) =
      (fst (Start_continue 1 one_client (Inr 0) 3 (sy_co bench1)),
       (co_state (fst (Start_continue 1 one_client (Inr 0) 3 (sy_co bench1))), None), Some (1, 0))"
    by (simp add: Start_continue_def start_outcome_def Start_finish_def bench1_def bench0_def Start_begin_def New_def
        idleState_def Let_def)
  have p1: "sy_starting bench1 = [] @ (1, one_client, 0) # []" by (simp add: bench1_def)
  have "bench_Start (newRunner quiet_db) 0 one_client (sy_world bench1) (Inr 0) ?w"
    using one_start by (simp add: bench_Start_def bench1_def bench0_def)
  then have p2: "if co_runner (sy_co bench1)
      then api_Start (bench_api (newRunner quiet_db)) 0 (cloneStartOptions one_client) (sy_world bench1) (Inr 0) ?w
      else ?w = sy_world bench1"
    by (simp add: bench_api_def bench1_def bench0_def Start_begin_def New_def idleState_def Let_def)
  have waiting: "sy_waiting bench1 = []" by (simp add: bench1_def bench0_def)
  from started [OF p1 p2 c, of "bench_env quiet_db"] show ?thesis
    by (simp add: bench2_def waiting)
qed

lemma bench_start: "system_start bench0"
  by (auto simp: system_start_def sy_init_def bench0_def)

lemma bench2_fields: "co_run (sy_co bench2) = Some 0" "co_runID (sy_co bench2) = 1" "sy_waiting bench2 = [(1, 0)]"
  "bw_runs (sy_world bench2) = [0 \<mapsto> (one_run, readWorkload (ResolveScale 10) 0, 0)]" "sy_cancelled bench2 = {}"
  by (simp_all add: bench2_def bench1_def bench0_def Start_continue_def start_outcome_def Start_finish_def
      Start_begin_def New_def idleState_def Let_def)

lemma bench2_reach: "reach sy_init (co_step (bench_api (newRunner quiet_db)) (bench_env quiet_db)) bench2"
  by (rule reach_step [where s = bench1, OF reach_step [where s = bench0]])
    (use bench_start in \<open>auto intro: reach_init bench01 bench12 simp: system_start_def\<close>)

theorem reported_clients_agree_witness:
  "sa_ConfiguredClients (bench_Sample 0 (sy_world bench2)) = so_Clients (cs_Options (co_State (sy_co bench2)))"
  using reported_clients_agree [OF bench2_reach bench2_fields(1)] by (simp add: bench2_fields)

lemma one_run_fields: "ar_threads one_run = [0 \<mapsto> WLoop]" "ar_once one_run = OnceNew" "ar_timer one_run = Watching"
  "ar_await one_run = AwaitWorkers" "ar_wg one_run = 1" "pg_ticker (ar_pace one_run) = Some 0" "ar_nextID one_run = 1"
  by (simp_all add: one_run_def newActiveRun_def blankRun_def resizeWorkers_def startWorkerLocked_def Let_def
      one_client_def demo_start_def one_gate_def)

theorem run_end_is_real_witness:
  "\<exists>s t r run plan ctx. co_step (bench_api (newRunner quiet_db)) (bench_env quiet_db) s (EvDone None 9) t
    \<and> bw_runs (sy_world s) r = Some (run, plan, ctx) \<and> ar_once run = OnceDone None"
proof -
  obtain es run' where e: "steps pool_step one_run es run'" "\<forall>e \<in> set es. internal 0 {} e"
    "ar_Wait run' = Some None" "ar_nextID run' = 1"
    using single_worker_ends [where r = one_run and ctx = 0] one_run_fields by auto
  let ?api = "bench_api (newRunner quiet_db)"
  let ?s = "bench2\<lparr>sy_world := (sy_world bench2)\<lparr>bw_runs := (bw_runs (sy_world bench2))(0 \<mapsto> (run', readWorkload (ResolveScale 10) 0, 0))\<rparr>\<rparr>"
  have "steps (co_step ?api (bench_env quiet_db)) bench2 (map (\<lambda>_. EvWorld) es) ?s"
    using e(1,2) bench2_fields by (intro lift_steps) auto
  then have all: "steps (co_step ?api (bench_env quiet_db)) bench0
      (EvStart None one_client # EvStarted (Inr 0) 3 # map (\<lambda>_. EvWorld) es) ?s"
    by (intro steps_Cons [where step = "co_step ?api (bench_env quiet_db)", OF bench01]
        steps_Cons [where step = "co_step ?api (bench_env quiet_db)", OF bench12])
  have w: "sy_waiting ?s = [] @ (1, 0) # []" by (simp add: bench2_fields)
  have "api_Wait ?api 0 (sy_world ?s) None" using e(3) by (simp add: bench_api_def bench_Wait_def)
  note d = run_ended [OF w this, of "bench_env quiet_db" 9]
  have req: "\<forall>ctx_err options. EvStart ctx_err options \<in> set (EvStart None one_client # EvStarted (Inr 0) 3 # map (\<lambda>_. EvWorld) es)
      \<longrightarrow> acceptable_start options" using one_client_ok by auto
  have win: "\<forall>r x. bw_runs (sy_world ?s) r = Some x \<longrightarrow> within_int (fst x)"
    using e(4) by (simp add: bench2_fields within_int_def)
  from run_end_is_real [OF bench_start all req d win] d show ?thesis by blast
qed

end
