(* ===== verification/Http_System.thy ===== *)
theory Http_System
  imports Http_Server Bench_System
begin

text \<open>
  The HTTP server over the coordinator, as \<open>app.Run\<close> connects them. A call of \<open>Start\<close>
  through the interface is two sections under the lock with \<open>runner.Start\<close>, outside the lock,
  in between; \<open>Alter\<close> and \<open>Stop\<close> are one section each.

  The package \<open>net/http\<close> runs every handler on a goroutine of its own. So in \<open>server_step\<close> a
  start request is two steps, the call and the return, and between them the server takes
  other requests, further start requests among them, while the runs go on. The other
  handlers enter the lock at most once and are one step.
\<close>

section \<open>The coordinator behind the interface\<close>

text \<open>A call of \<open>Start\<close> up to the release of the lock, and from the call of \<open>runner.Start\<close> to its return.\<close>

definition sys_Start_begin ::
  "goerror option \<Rightarrow> StartOptions \<Rightarrow> ('r, 'w) system \<Rightarrow> ('r, 'w) system \<times> (response + u64 \<times> StartOptions \<times> nat)" where
  "sys_Start_begin ctx_err options s =
     (case Start_begin ctx_err options (sy_next s) (sy_co s) of
        (c, Inl r) \<Rightarrow> (s\<lparr>sy_co := c\<rparr>, Inl r)
      | (c, Inr runID) \<Rightarrow>
          (s\<lparr>sy_co := c, sy_starting := (runID, options, sy_next s) # sy_starting s, sy_next := Suc (sy_next s)\<rparr>,
           Inr (runID, options, sy_next s)))"

definition sys_Start_return ::
  "(nat \<Rightarrow> StartOptions \<Rightarrow> 'w \<Rightarrow> 'w \<times> (goerror + 'r)) \<Rightarrow> ('w \<Rightarrow> gotime)
   \<Rightarrow> u64 \<times> StartOptions \<times> nat \<Rightarrow> ('r, 'w) system \<Rightarrow> ('r, 'w) system \<times> response" where
  "sys_Start_return start now call s =
     (case call of (runID, options, ctx) \<Rightarrow>
       (case (if co_runner (sy_co s) then start ctx (cloneStartOptions options) (sy_world s)
              else (sy_world s, Inl (Errorf []))) of
          (w, result) \<Rightarrow>
            (case Start_continue runID options result (now w) (sy_co s) of
               (c, r, spawned) \<Rightarrow>
                 (s\<lparr>sy_co := c, sy_world := w, sy_starting := remove1 call (sy_starting s),
                    sy_waiting := (case spawned of None \<Rightarrow> sy_waiting s | Some t \<Rightarrow> t # sy_waiting s)\<rparr>, r))))"

text \<open>The whole call, when nothing else happens in its window.\<close>

definition sys_Start ::
  "(nat \<Rightarrow> StartOptions \<Rightarrow> 'w \<Rightarrow> 'w \<times> (goerror + 'r)) \<Rightarrow> ('w \<Rightarrow> gotime)
   \<Rightarrow> goerror option \<Rightarrow> StartOptions \<Rightarrow> ('r, 'w) system \<Rightarrow> ('r, 'w) system \<times> response" where
  "sys_Start start now ctx_err options s =
     (case sys_Start_begin ctx_err options s of
        (s, Inl r) \<Rightarrow> (s, r)
      | (s, Inr call) \<Rightarrow> sys_Start_return start now call s)"

definition sys_Alter ::
  "('r, 'w) run_api \<Rightarrow> AlterOptions \<Rightarrow> ('r, 'w) system \<Rightarrow> ('r, 'w) system \<times> response" where
  "sys_Alter api options s =
     (case Alter api options (sy_world s) (sy_co s) of (w, c, r) \<Rightarrow> (s\<lparr>sy_co := c, sy_world := w\<rparr>, r))"

definition sys_Stop :: "('r, 'w) system \<Rightarrow> ('r, 'w) system \<times> response" where
  "sys_Stop s =
     (case Stop (sy_co s) of
        (c, r, cancel) \<Rightarrow>
          (s\<lparr>sy_co := c,
             sy_cancelled := (case cancel of None \<Rightarrow> sy_cancelled s | Some ctx \<Rightarrow> insert ctx (sy_cancelled s))\<rparr>, r))"

definition coordinator_api ::
  "('r, 'w) run_api \<Rightarrow> (nat \<Rightarrow> StartOptions \<Rightarrow> 'w \<Rightarrow> 'w \<times> (goerror + 'r)) \<Rightarrow> ('w \<Rightarrow> gotime)
   \<Rightarrow> ('r, 'w) system Benchmark" where
  "coordinator_api api start now =
     \<lparr>bm_Start = sys_Start start now, bm_Alter = sys_Alter api, bm_Stop = sys_Stop,
      bm_State = (\<lambda>s. co_State (sy_co s)),
      bm_Results = (\<lambda>s. co_Results api (sy_world s) (sy_co s)),
      bm_Metrics = (\<lambda>s. co_Metrics api (sy_world s) (sy_co s))\<rparr>"

text \<open>A valid start request, and the exchange its handler writes the response to.\<close>

definition start_request :: "('b, 'c) lib \<Rightarrow> 'b request \<Rightarrow> StartOptions \<Rightarrow> bool" where
  "start_request lib rq options \<longleftrightarrow>
     rq_Method rq = MethodPost \<and> rq_Path rq = ''/benchmark/start'' \<and>
     DecodeStartOptions (lib_decodeStart lib) (lib_trailing lib) (rq_Body rq) = Inr options"

definition start_response :: "('b, 'c) lib \<Rightarrow> 'c \<Rightarrow> response \<Rightarrow> 'c exchange" where
  "start_response lib conn r =
     snd (write_outcome lib ''/benchmark/start'' ((), r) (setBrowserAccessHeaders MethodPost (fresh conn)))"

text \<open>
  The steps of the server: a request that is answered, a start request whose call goes on, the
  return of such a call with its response, the end of a run, or the runs moving on.
\<close>

datatype ('b, 'r, 'c) server_event =
    Answered "'b request" "'c exchange"
  | Called "'b request" "u64 \<times> StartOptions \<times> nat"
  | Returned "u64 \<times> StartOptions \<times> nat" "'c exchange"
  | Background "'r event"

inductive server_step ::
  "('b, 'c) lib \<Rightarrow> ('r, 'w) system handler \<Rightarrow> ('b, ('r, 'w) system, 'c) handle \<Rightarrow> ('r, 'w) run_api
   \<Rightarrow> (nat set \<Rightarrow> 'w \<Rightarrow> 'w \<Rightarrow> bool) \<Rightarrow> (nat \<Rightarrow> StartOptions \<Rightarrow> 'w \<Rightarrow> 'w \<times> (goerror + 'r)) \<Rightarrow> ('w \<Rightarrow> gotime)
   \<Rightarrow> ('r, 'w) system \<Rightarrow> ('b, 'r, 'c) server_event \<Rightarrow> ('r, 'w) system \<Rightarrow> bool"
  for lib h fallback api env start now where
  answered: "\<nexists>options. start_request lib rq options \<Longrightarrow> serve lib h fallback rq s (fresh conn) = (t, ex) \<Longrightarrow>
    server_step lib h fallback api env start now s (Answered rq ex) t"
| refused: "start_request lib rq options \<Longrightarrow> sys_Start_begin (rq_ctx_err rq) options s = (t, Inl r) \<Longrightarrow>
    server_step lib h fallback api env start now s (Answered rq (start_response lib conn r)) t"
| called: "start_request lib rq options \<Longrightarrow> sys_Start_begin (rq_ctx_err rq) options s = (t, Inr call) \<Longrightarrow>
    server_step lib h fallback api env start now s (Called rq call) t"
| returned: "call \<in> set (sy_starting s) \<Longrightarrow> sys_Start_return start now call s = (t, r) \<Longrightarrow>
    server_step lib h fallback api env start now s (Returned call (start_response lib conn r)) t"
| background: "co_step api env s e t \<Longrightarrow> e = EvDone err time \<or> e = EvWorld \<Longrightarrow>
    server_step lib h fallback api env start now s (Background e) t"

section \<open>Requests are steps of the coordinator\<close>

lemma call_step: "co_step api env s (EvStart ctx_err options) (fst (sys_Start_begin ctx_err options s))"
proof (cases "Start_begin ctx_err options (sy_next s) (sy_co s)")
  case (Pair c out)
  then show ?thesis
    using start_rejected [of ctx_err options s c] start_begun [of ctx_err options s c]
    by (cases out) (simp_all add: sys_Start_begin_def)
qed

lemma call_pending:
  "sys_Start_begin ctx_err options s = (t, out) \<Longrightarrow>
     sy_starting t = (case out of Inl r \<Rightarrow> sy_starting s | Inr call \<Rightarrow> call # sy_starting s)"
  "sys_Start_begin ctx_err options s = (t, Inr call) \<Longrightarrow> fst (snd call) = options"
  by (auto simp: sys_Start_begin_def split: prod.splits sum.splits)

text \<open>The calls that have not returned carry options that were validated.\<close>

definition calls_valid :: "('r, 'w) system \<Rightarrow> bool" where
  "calls_valid s \<longleftrightarrow> (\<forall>call \<in> set (sy_starting s). validateStartOptions (fst (snd call)) = None)"

lemma decoded_valid:
  "DecodeStartOptions decode trailing body = Inr options \<Longrightarrow> validateStartOptions options = None"
  by (auto simp: DecodeStartOptions_def Let_def split: sum.splits option.splits)

text \<open>
  What the server relies on: a start with validated options does what the runner's \<open>Start\<close>
  may do, and the multiplexer leaves the benchmark alone on other paths.
\<close>

locale http_backend =
  fixes api :: "('r, 'w) run_api"
    and env :: "nat set \<Rightarrow> 'w \<Rightarrow> 'w \<Rightarrow> bool"
    and start :: "nat \<Rightarrow> StartOptions \<Rightarrow> 'w \<Rightarrow> 'w \<times> (goerror + 'r)"
    and now :: "'w \<Rightarrow> gotime"
  assumes start_runs: "validateStartOptions options = None \<Longrightarrow> start ctx options w = (w', result) \<Longrightarrow>
      api_Start api ctx options w result w'"
begin

lemma return_step:
  assumes "call \<in> set (sy_starting s)" and "validateStartOptions (fst (snd call)) = None"
  shows "\<exists>result time. co_step api env s (EvStarted result time) (fst (sys_Start_return start now call s))"
proof -
  obtain runID options ctx where call: "call = (runID, options, ctx)" by (cases call)
  obtain xs ys where split: "sy_starting s = xs @ call # ys" "remove1 call (sy_starting s) = xs @ ys"
    using assms(1) by (metis remove1_split)
  obtain w result where run: "(if co_runner (sy_co s) then start ctx (cloneStartOptions options) (sy_world s)
      else (sy_world s, Inl (Errorf []))) = (w, result)" by fastforce
  obtain c r spawned where cont: "Start_continue runID options result (now w) (sy_co s) = (c, r, spawned)"
    by (metis prod_cases3)
  have "if co_runner (sy_co s) then api_Start api ctx (cloneStartOptions options) (sy_world s) result w else w = sy_world s"
    using run assms(2) start_runs [of options ctx "sy_world s" w result] by (auto simp: call split: if_splits)
  from started [OF split(1) [unfolded call] this cont] show ?thesis
    using run cont split(2) unfolding call by (intro exI) (simp add: sys_Start_return_def)
qed

lemma sys_Alter_step: "co_step api env s (EvAlter options) (fst (sys_Alter api options s))"
  using altered [of api options s] by (auto simp: sys_Alter_def split: prod.splits)

lemma sys_Stop_step: "co_step api env s EvStop (fst (sys_Stop s))"
  using stopped [of s] by (auto simp: sys_Stop_def split: prod.splits)

lemma request_steps:
  assumes "h_benchmark h = Some (coordinator_api api start now)" and "\<nexists>options. start_request lib rq options"
  shows "\<exists>es. steps (co_step api env) s es (request_state lib h rq s) \<and> (\<forall>e \<in> set es. carries_valid e)
    \<and> sy_starting (request_state lib h rq s) = sy_starting s"
proof -
  have none: "\<exists>es. steps (co_step api env) s es s \<and> (\<forall>e \<in> set es. carries_valid e)"
    by (rule exI [of _ "[]"]) (simp add: steps_Nil)
  have alter: "\<exists>es. steps (co_step api env) s es (fst (sys_Alter api options s)) \<and> (\<forall>e \<in> set es. carries_valid e)" for options
    using steps_one [where step = "co_step api env", OF sys_Alter_step]
    by (intro exI [of _ "[EvAlter options]"]) (simp add: carries_valid_def)
  have stop: "\<exists>es. steps (co_step api env) s es (fst (sys_Stop s)) \<and> (\<forall>e \<in> set es. carries_valid e)"
    using steps_one [where step = "co_step api env", OF sys_Stop_step]
    by (intro exI [of _ "[EvStop]"]) (simp add: carries_valid_def)
  have same: "sy_starting (fst (sys_Alter api options s)) = sy_starting s" "sy_starting (fst (sys_Stop s)) = sy_starting s" for options
    by (simp_all add: sys_Alter_def sys_Stop_def split: prod.splits)
  show ?thesis
    using none alter stop same assms
    by (simp add: request_state_def coordinator_api_def start_request_def split: sum.splits) blast
qed

text \<open>Every step of the server is a sequence of steps of the coordinator.\<close>

lemma server_steps:
  assumes "h_benchmark h = Some (coordinator_api api start now)" and "\<And>rq s ex. fst (fallback rq s ex) = s"
    and "calls_valid s" and "server_step lib h fallback api env start now s e t"
  shows "\<exists>es. steps (co_step api env) s es t \<and> (\<forall>e \<in> set es. carries_valid e) \<and> calls_valid t"
  using assms(4)
proof (cases rule: server_step.cases)
  case (answered rq conn ex)
  have "t = request_state lib h rq s" using serve_state [of fallback lib h rq s "fresh conn"] assms(2) answered(3) by simp
  then show ?thesis using request_steps [OF assms(1) answered(2), of s] assms(3) unfolding calls_valid_def by metis
next
  case (refused rq options r conn)
  have "co_step api env s (EvStart (rq_ctx_err rq) options) t"
    using call_step [of api env s "rq_ctx_err rq" options] refused(3) by simp
  moreover have "calls_valid t" using assms(3) call_pending(1) [OF refused(3)] by (simp add: calls_valid_def)
  ultimately show ?thesis
    using steps_one [where step = "co_step api env"] decoded_valid refused(2)
    by (intro exI [of _ "[EvStart (rq_ctx_err rq) options]"]) (auto simp: carries_valid_def start_request_def)
next
  case (called rq options call)
  have "co_step api env s (EvStart (rq_ctx_err rq) options) t"
    using call_step [of api env s "rq_ctx_err rq" options] called(3) by simp
  moreover have v: "validateStartOptions options = None" using decoded_valid called(2) by (auto simp: start_request_def)
  moreover have "calls_valid t"
    using assms(3) call_pending(1) [OF called(3)] call_pending(2) [OF called(3)] v by (simp add: calls_valid_def)
  ultimately show ?thesis
    using steps_one [where step = "co_step api env"]
    by (intro exI [of _ "[EvStart (rq_ctx_err rq) options]"]) (auto simp: carries_valid_def)
next
  case (returned call r conn)
  then obtain result time where "co_step api env s (EvStarted result time) t"
    using return_step [of call s] assms(3) by (auto simp: calls_valid_def)
  moreover have "calls_valid t"
    using assms(3) returned(3) set_remove1_subset [of call "sy_starting s"]
    by (auto simp: calls_valid_def sys_Start_return_def split: prod.splits if_splits)
  ultimately show ?thesis
    using steps_one [where step = "co_step api env"]
    by (intro exI [of _ "[EvStarted result time]"]) (auto simp: carries_valid_def)
next
  case (background e' err time)
  have "steps (co_step api env) s [e'] t" using background(2) by (rule steps_one [where step = "co_step api env"])
  moreover have "carries_valid e'" using background(3) by (auto simp: carries_valid_def)
  moreover have "sy_starting t = sy_starting s" using background(2,3) by (auto elim: EvDoneE EvWorldE)
  ultimately show ?thesis using assms(3) by (intro exI [of _ "[e']"]) (simp add: calls_valid_def)
qed

lemma server_reach:
  assumes "h_benchmark h = Some (coordinator_api api start now)" and "\<And>rq s ex. fst (fallback rq s ex) = s"
    and "reach sy_init (server_step lib h fallback api env start now) s"
  shows "\<exists>s0 es. sy_init s0 \<and> steps (co_step api env) s0 es s \<and> (\<forall>e \<in> set es. carries_valid e) \<and> calls_valid s"
  using assms(3)
proof (induction rule: reach.induct)
  case (reach_init s)
  then have "calls_valid s" by (simp add: sy_init_def calls_valid_def)
  with reach_init show ?case by (intro exI [of _ s] exI [of _ "[]"]) (simp add: steps_Nil)
next
  case (reach_step s e t)
  obtain s0 es where a: "sy_init s0" "steps (co_step api env) s0 es s" "\<forall>e \<in> set es. carries_valid e" "calls_valid s"
    using reach_step.IH by blast
  obtain es' where b: "steps (co_step api env) s es' t" "\<forall>e \<in> set es'. carries_valid e" "calls_valid t"
    using server_steps [OF assms(1,2) a(4) reach_step.hyps(2)] by blast
  from steps_append [OF a(2) b(1)] a b show ?case by (intro exI [of _ s0] exI [of _ "es @ es'"]) auto
qed

lemma server_invariants:
  assumes "h_benchmark h = Some (coordinator_api api start now)" and "\<And>rq s ex. fst (fallback rq s ex) = s"
    and "reach sy_init (server_step lib h fallback api env start now) s"
  shows "co_inv s" "options_ok (co_state (sy_co s))"
proof -
  obtain s0 es where a: "sy_init s0" "steps (co_step api env) s0 es s" "\<forall>e \<in> set es. carries_valid e"
    using server_reach [OF assms] by blast
  show "co_inv s" by (rule coord.steps_inv [OF a(2) co_inv_init [OF a(1)]])
  have "options_ok (co_state (sy_co s0))" using a(1) by (auto simp: sy_init_def New_def idleState_def options_ok_def)
  then show "options_ok (co_state (sy_co s))"
    by (rule coord.steps_rel [OF a(2) co_inv_init [OF a(1)]]) (use a(3) in \<open>auto intro: options_ok_step\<close>)
qed

end

section \<open>The runner behind the coordinator\<close>

text \<open>\<open>runner.Start\<close> on the world of the runs; it panics on no validated options.\<close>

definition bench_start ::
  "'d sqldb \<Rightarrow> nat \<Rightarrow> StartOptions \<Rightarrow> 'd world \<Rightarrow> 'd world \<times> (goerror + nat)" where
  "bench_start db ctx options bw =
     (case runner_Start (newRunner db) options (bw_now bw) (bw_db bw) of
        None \<Rightarrow> (bw, Inl (Errorf ''panic''))
      | Some (d, Inl err) \<Rightarrow> (bw\<lparr>bw_db := d\<rparr>, Inl err)
      | Some (d, Inr (run, plan)) \<Rightarrow>
          (bw\<lparr>bw_db := d, bw_runs := (bw_runs bw)(bw_next bw \<mapsto> (run, plan, ctx)), bw_next := Suc (bw_next bw)\<rparr>,
           Inr (bw_next bw)))"

lemma runner_Start_total:
  assumes "validateStartOptions options = None"
  shows "runner_Start (newRunner db) options t w \<noteq> None"
proof -
  have "\<And>tps. so_TargetTPS options = Some tps \<Longrightarrow> 1 \<le> tps"
    using assms unfolding validateStartOptions_iff valid_start_def by auto
  then have "newRealPacingGate (so_TargetTPS options) \<noteq> None"
    using gate_Update_eq [of "so_TargetTPS options"] unfolding newRealPacingGate_def
    by (cases "so_TargetTPS options") (auto simp: Let_def)
  then show ?thesis
    by (auto simp: runner_Start_def newRunner_def withDefaults_def Let_def split: option.splits sum.splits prod.splits)
qed

interpretation bench_http: http_backend "bench_api (newRunner db)" "bench_env db" "bench_start db" bw_now for db
proof
  fix options ctx and w w' :: "'a world" and result
  assume "validateStartOptions options = None" "bench_start db ctx options w = (w', result)"
  moreover from runner_Start_total [OF this(1)] obtain d out
    where "runner_Start (newRunner db) options (bw_now w) (bw_db w) = Some (d, out)" by fastforce
  ultimately show "api_Start (bench_api (newRunner db)) ctx options w result w'"
    by (auto simp: bench_api_def bench_Start_def bench_start_def split: sum.splits prod.splits)
qed

text \<open>The handler \<open>app.Run\<close> builds; \<open>ready\<close> is the readiness probe.\<close>

definition bench_handler :: "'d sqldb \<Rightarrow> ((nat, 'd world) system \<Rightarrow> goerror option) option \<Rightarrow> (nat, 'd world) system handler" where
  "bench_handler db ready =
     \<lparr>h_benchmark = Some (coordinator_api (bench_api (newRunner db)) (bench_start db) bw_now), h_ready = ready\<rparr>"

section \<open>Guarantees of the service\<close>

text \<open>The two steps of a start request are what its handler does, in that order.\<close>

lemma serve_start_composed:
  assumes "h_benchmark h = Some (coordinator_api api start now)" and "start_request lib rq options"
  shows "serve lib h fallback rq s (fresh conn) =
    (case sys_Start_begin (rq_ctx_err rq) options s of
       (t, Inl r) \<Rightarrow> (t, start_response lib conn r)
     | (t, Inr call) \<Rightarrow>
         (case sys_Start_return start now call t of (u, r) \<Rightarrow> (u, start_response lib conn r)))"
proof -
  define ex0 where "ex0 = setBrowserAccessHeaders MethodPost (fresh conn)"
  have rq: "rq_Method rq = MethodPost" "rq_Path rq = ''/benchmark/start''"
    "DecodeStartOptions (lib_decodeStart lib) (lib_trailing lib) (rq_Body rq) = Inr options"
    using assms(2) by (simp_all add: start_request_def)
  have "MethodPost \<noteq> MethodOptions" by (simp add: method_defs)
  moreover have "map_of route_table ''/benchmark/start'' = Some MethodPost" by (simp add: route_table_def)
  ultimately have "serve lib h fallback rq s (fresh conn) = handleBenchmarkStart lib h rq s ex0"
    using rq unfolding serve_def newBrowserCompatibleHandler_def allowedMethods_routes
    by (simp add: Let_def mux_ServeHTTP_def routes_def flip: ex0_def)
  also have "\<dots> = write_outcome lib ''/benchmark/start'' (sys_Start start now (rq_ctx_err rq) options s) ex0"
    using rq assms(1) by (simp add: handleBenchmarkStart_def with_benchmark_def allowMethod_simps(1) coordinator_api_def)
  finally show ?thesis
    by (auto simp: sys_Start_def start_response_def write_outcome_def ex0_def split: prod.splits sum.splits option.splits)
qed

lemma start_response_code:
  "ex_status (start_response lib conn r) = Some (case snd r of None \<Rightarrow> 200 | Some err \<Rightarrow> statusForBenchmarkError err)"
  using write_outcome_answers [of "setBrowserAccessHeaders MethodPost (fresh conn)" "((), r)" lib "''/benchmark/start''"]
    browser_headers(1) [OF refl, of MethodPost conn]
  by (simp add: start_response_def answered_def)

lemma server_in_flight:
  assumes "co_inv s"
  shows "length (sy_starting s) + length (sy_waiting s) \<le> 1
    \<and> (length (sy_starting s) + length (sy_waiting s) = 1 \<longleftrightarrow>
         cs_Status (co_state (sy_co s)) \<in> {StatusStarting, StatusRunning, StatusStopping})"
  using assms by (cases rule: co_inv_cases) (auto simp: phase_idle_def active_def phase_starting_def phase_running_def)

text \<open>
  C2. The server keeps the coordinator's guarantees with any number of handlers at work: in
  every state it reaches through any requests, interleaved in any way with each other, with
  start calls that have not returned, and with the progress of the runs, at most one run is
  being started or running, and one is exactly while the reported status is starting,
  running or stopping; the options of the current run are valid; and the state it reports
  has its time stamps and its error exactly in the statuses they belong to.
\<close>
theorem server_keeps_invariants:
  assumes "\<And>rq s ex. fst (fallback rq s ex) = s"
    and "reach sy_init (server_step lib (bench_handler db ready) fallback (bench_api (newRunner db)) (bench_env db) (bench_start db) bw_now) s"
  shows "let st = co_State (sy_co s) in
      length (sy_starting s) + length (sy_waiting s) \<le> 1
    \<and> (length (sy_starting s) + length (sy_waiting s) = 1 \<longleftrightarrow>
         cs_Status st \<in> {StatusStarting, StatusRunning, StatusStopping})
    \<and> (cs_Status st = StatusIdle \<or> validateStartOptions (cs_Options st) = None)
    \<and> (cs_StoppedAt st \<noteq> None \<longleftrightarrow> cs_Status st \<in> {StatusStopped, StatusFailed})
    \<and> (cs_Error st = [] \<or> cs_Status st = StatusFailed)"
proof -
  have h: "h_benchmark (bench_handler db ready) = Some (coordinator_api (bench_api (newRunner db)) (bench_start db) bw_now)"
    by (simp add: bench_handler_def)
  note inv = bench_http.server_invariants [OF h assms]
  note server_in_flight [OF inv(1)]
  moreover have "state_wf (co_state (sy_co s))" using inv(1) by (simp add: co_inv_def)
  ultimately show ?thesis using inv(2)
    by (auto simp: Let_def co_State_def state_wf_def options_ok_def)
qed

text \<open>
  C3. Overlapping start requests are told apart: in every state the server reaches, a start
  request whose client has not gone away begins a call exactly when no call and no run is in
  flight; otherwise it is answered at once with 409 and changes nothing. In particular, of
  two start requests that arrive together the second is refused, even though the first has
  not returned.
\<close>
theorem overlapping_starts_refused:
  assumes "\<And>rq s ex. fst (fallback rq s ex) = s"
    and "reach sy_init (server_step lib (bench_handler db ready) fallback (bench_api (newRunner db)) (bench_env db) (bench_start db) bw_now) s"
    and "start_request lib rq options" and "rq_ctx_err rq = None"
    and "server_step lib (bench_handler db ready) fallback (bench_api (newRunner db)) (bench_env db) (bench_start db) bw_now s e t"
    and "e = Answered rq ex \<or> e = Called rq call"
  shows "if sy_starting s = [] \<and> sy_waiting s = []
    then e = Called rq call \<and> sy_starting t = [call] \<and> cs_Status (co_State (sy_co t)) = StatusStarting
    else e = Answered rq ex \<and> ex_status ex = Some 409 \<and> t = s"
proof -
  have h: "h_benchmark (bench_handler db ready) = Some (coordinator_api (bench_api (newRunner db)) (bench_start db) bw_now)"
    by (simp add: bench_handler_def)
  have idle: "sy_starting s = [] \<and> sy_waiting s = [] \<longleftrightarrow>
      cs_Status (co_state (sy_co s)) \<notin> {StatusStarting, StatusRunning, StatusStopping}"
    using server_in_flight [OF bench_http.server_invariants(1) [OF h assms(1,2)]]
    by (cases "sy_starting s"; cases "sy_waiting s") auto
  have unique: "options' = options" if "start_request lib rq options'" for options'
    using that assms(3) by (simp add: start_request_def)
  note unfold = sys_Start_begin_def Start_begin_def Let_def
  from assms(5) show ?thesis
  proof (cases rule: server_step.cases)
    case (answered rq' conn ex')
    with assms(3,6) show ?thesis by auto
  next
    case (refused rq' options' r conn)
    then have "rq' = rq" "ex = start_response lib conn r" using assms(6) by auto
    with refused(2,3) unique assms(4) have
      "cs_Status (co_state (sy_co s)) \<in> {StatusStarting, StatusRunning, StatusStopping}"
      "t = s" "snd r = Some (Sentinel ErrRunActive)"
      by (auto simp: unfold split: if_splits)
    with idle refused(1) \<open>rq' = rq\<close> \<open>ex = start_response lib conn r\<close> show ?thesis
      by (simp add: start_response_code statusForBenchmarkError_def)
  next
    case (called rq' options' call')
    then have eq: "rq' = rq" "call' = call" using assms(6) by auto
    with called(2,3) unique assms(4) have
      "cs_Status (co_state (sy_co s)) \<notin> {StatusStarting, StatusRunning, StatusStopping}"
      "cs_Status (co_State (sy_co t)) = StatusStarting"
      by (auto simp: unfold co_State_def cloneState_def split: if_splits)
    with idle called(1) eq call_pending(1) [OF called(3)] show ?thesis by simp
  qed (use assms(6) in auto)
qed

lemma one_client_decoded: "DecodeStartOptions (one_value (payloadOf one_client)) at_eof () = Inr one_client"
proof -
  have "startOptionsOf (payloadOf one_client) = one_client"
    by (intro StartOptions.equality)
      (simp_all add: payloadOf_def one_client_def demo_start_def profile_defs mix_defs split: option.splits)
  moreover have "valid_start one_client"
    using one_client_ok by (simp add: acceptable_start_def validateStartOptions_iff)
  ultimately show ?thesis by (simp add: DecodeStartOptions_Inr)
qed

lemma demo_start_served:
  "fst (serve (demo_lib (payloadOf one_client) no_alter) (bench_handler quiet_db None) not_found (post ''/benchmark/start'') bench0 ex)
     = fst (sys_Start (bench_start quiet_db) bw_now None one_client bench0)"
  by (subst serve_state) (simp_all add: not_found_def request_state_def bench_handler_def post_def demo_lib_def
      one_client_decoded coordinator_api_def)

lemma demo_start_state:
  "cs_Status (co_state (sy_co (fst (sys_Start (bench_start quiet_db) bw_now None one_client bench0)))) = StatusRunning"
  by (simp add: sys_Start_def sys_Start_begin_def sys_Start_return_def Start_begin_def bench0_def New_def idleState_def Let_def
      bench_start_def one_start Start_continue_def start_outcome_def Start_finish_def)

text \<open>A start request whose call has not returned, and a second one that meets it.\<close>

abbreviation demo_step :: "(nat, unit world) system \<Rightarrow> (unit, nat, string) server_event \<Rightarrow> (nat, unit world) system \<Rightarrow> bool" where
  "demo_step \<equiv> server_step (demo_lib (payloadOf one_client) no_alter) (bench_handler quiet_db None) not_found
     (bench_api (newRunner quiet_db)) (bench_env quiet_db) (bench_start quiet_db) bw_now"

lemma demo_request: "start_request (demo_lib (payloadOf one_client) no_alter) (post ''/benchmark/start'') one_client"
  by (simp add: start_request_def demo_lib_def post_def one_client_decoded)

lemma demo_call: "sys_Start_begin None one_client bench0 = (bench1, Inr (1, one_client, 0))"
  by (simp add: sys_Start_begin_def Start_begin_def bench0_def bench1_def New_def idleState_def Let_def)

lemma demo_called: "demo_step bench0 (Called (post ''/benchmark/start'') (1, one_client, 0)) bench1"
  by (rule called [OF demo_request]) (simp add: post_def demo_call)

lemma demo_reach: "reach sy_init demo_step bench1"
  by (rule reach_step [where s = bench0]) (use bench_start demo_called in \<open>auto intro: reach_init simp: system_start_def\<close>)

lemma not_found_state: "fst (not_found rq s ex) = s"
  by (simp add: not_found_def)

lemma bench1_starting: "cs_Status (co_state (sy_co bench1)) = StatusStarting" "sy_starting bench1 = [(1, one_client, 0)]"
  by (simp_all add: bench1_def Start_begin_def bench0_def New_def idleState_def Let_def)

theorem server_keeps_invariants_witness:
  "demo_step bench0 (Called (post ''/benchmark/start'') (1, one_client, 0)) bench1
    \<and> cs_Status (co_State (sy_co bench1)) = StatusStarting
    \<and> validateStartOptions (cs_Options (co_State (sy_co bench1))) = None
    \<and> length (sy_starting bench1) + length (sy_waiting bench1) = 1"
  using server_keeps_invariants [OF not_found_state demo_reach] demo_called
  by (auto simp: Let_def co_State_def cloneState_def bench1_starting)

theorem overlapping_starts_refused_witness:
  "\<exists>ex. demo_step bench1 (Answered (post ''/benchmark/start'') ex) bench1 \<and> ex_status ex = Some 409"
proof -
  have "sys_Start_begin (rq_ctx_err (post ''/benchmark/start'')) one_client bench1
      = (bench1, Inl (cloneState (co_state (sy_co bench1)), Some (Sentinel ErrRunActive)))"
    by (simp add: sys_Start_begin_def Start_begin_def post_def bench1_starting)
  from refused [OF demo_request this] obtain ex where step: "demo_step bench1 (Answered (post ''/benchmark/start'') ex) bench1"
    by blast
  have "rq_ctx_err (post ''/benchmark/start'') = None" by (simp add: post_def)
  from overlapping_starts_refused [OF not_found_state demo_reach demo_request this step disjI1 [OF refl]] step show ?thesis
    by (auto simp: bench1_starting)
qed

lemma ApplyAlter_error: "ApplyAlter opts a = Inl err \<Longrightarrow> \<exists>t. err = Errorf t"
proof -
  have "validateStartOptions opts = Some err \<Longrightarrow> \<exists>t. err = Errorf t" for opts
    by (auto simp: validateStartOptions_def split: if_splits)
  moreover have "validateAlterOptions a = Some err \<Longrightarrow> \<exists>t. err = Errorf t"
    by (auto simp: validateAlterOptions_def split: if_splits)
  ultimately show "ApplyAlter opts a = Inl err \<Longrightarrow> \<exists>t. err = Errorf t"
    by (auto simp: ApplyAlter_eq split: option.splits)
qed

text \<open>
  C14. The status codes of the control requests say what happened: a valid start request is
  answered with 409 exactly when a run is active, with 200 when the runner started one and
  otherwise with the code of its error; a valid alteration is answered with 409 when no run
  is running, with 500 when the altered options would not be valid, and with 200 when it
  took effect; a stop request is always answered with 200.
\<close>
theorem control_status_codes:
  assumes "h_benchmark h = Some (coordinator_api api start now)" and "co_runner (sy_co s)"
    and "rq_Method rq = MethodPost" and "rq_ctx_err rq = None"
  shows "let code = ex_status (snd (serve lib h fallback rq s (fresh conn)));
             st = co_state (sy_co s)
    in (rq_Path rq = ''/benchmark/start'' \<longrightarrow>
          (\<forall>options. DecodeStartOptions (lib_decodeStart lib) (lib_trailing lib) (rq_Body rq) = Inr options \<longrightarrow>
             code = Some (if cs_Status st \<in> {StatusStarting, StatusRunning, StatusStopping} then 409
                          else case snd (start (sy_next s) options (sy_world s)) of
                                 Inl err \<Rightarrow> statusForBenchmarkError err | Inr run \<Rightarrow> 200)))
     \<and> (rq_Path rq = ''/benchmark/alter'' \<longrightarrow>
          (\<forall>options. DecodeAlterOptions (lib_decodeAlter lib) (lib_trailing lib) (rq_Body rq) = Inr options \<longrightarrow>
             code = Some (if cs_Status st \<noteq> StatusRunning \<or> co_run (sy_co s) = None then 409
                          else case ApplyAlter (cs_Options st) options of
                                 Inl err \<Rightarrow> 500
                               | Inr updated \<Rightarrow>
                                   (case snd (api_Alter api (the (co_run (sy_co s))) options (sy_world s)) of
                                      None \<Rightarrow> 200 | Some err \<Rightarrow> statusForBenchmarkError err))))
     \<and> (rq_Path rq = ''/benchmark/stop'' \<longrightarrow> code = Some 200)"
proof -
  note code = control_code [OF assms(1,3), where fallback = fallback and s = s and conn = conn and lib = lib]
  note ops = outcome_code_def coordinator_api_def
  have start: "outcome_code (sys_Start start now None options s) =
      (if cs_Status (co_state (sy_co s)) \<in> {StatusStarting, StatusRunning, StatusStopping} then 409
       else case snd (start (sy_next s) options (sy_world s)) of Inl err \<Rightarrow> statusForBenchmarkError err | Inr run \<Rightarrow> 200)"
    for options
    using assms(2)
    by (auto simp: sys_Start_def sys_Start_begin_def sys_Start_return_def Start_begin_def Let_def Start_continue_def start_outcome_def Start_finish_def
        finishStartFailure_def outcome_code_def statusForBenchmarkError_def split: sum.splits prod.splits option.splits)
  have alter: "outcome_code (sys_Alter api options s) =
      (if cs_Status (co_state (sy_co s)) \<noteq> StatusRunning \<or> co_run (sy_co s) = None then 409
       else case ApplyAlter (cs_Options (co_state (sy_co s))) options of
              Inl err \<Rightarrow> 500
            | Inr updated \<Rightarrow>
                (case snd (api_Alter api (the (co_run (sy_co s))) options (sy_world s)) of
                   None \<Rightarrow> 200 | Some err \<Rightarrow> statusForBenchmarkError err))" for options
    using ApplyAlter_error [of "cs_Options (co_state (sy_co s))" options]
    by (cases "co_run (sy_co s)")
      (auto simp: sys_Alter_def Alter_def Let_def outcome_code_def statusForBenchmarkError_def
        split: sum.splits prod.splits option.splits bool.splits)
  have stop: "outcome_code (sys_Stop s) = 200"
    by (simp add: sys_Stop_def Stop_def Let_def outcome_code_def split: Status.splits)
  show ?thesis
    unfolding Let_def using code start alter stop assms(4) by (simp add: coordinator_api_def)
qed

text \<open>A run of the lock profile with two clients, and a request to leave it one.\<close>

definition lock_options :: StartOptions where
  "lock_options = one_client\<lparr>so_Clients := 2, so_Profile := ProfileLock, so_TargetTPS := None\<rparr>"

definition lock_state :: "(nat, unit world) system" where
  "lock_state = bench0\<lparr>sy_co := (New True)\<lparr>co_run := Some 0,
     co_state := \<lparr>cs_Status = StatusRunning, cs_Options = lock_options, cs_StartedAt = Some 1, cs_StoppedAt = None, cs_Error = []\<rparr>\<rparr>\<rparr>"

definition leave_one :: AlterOptions where
  "leave_one = \<lparr>ao_Clients = Some 1, ao_TargetTPS = None\<rparr>"

theorem control_status_codes_witness:
  "ex_status (snd (serve (demo_lib empty_payload leave_one) (bench_handler quiet_db None) not_found
     (post ''/benchmark/alter'') lock_state (fresh []))) = Some 500"
proof -
  have "DecodeAlterOptions (one_value leave_one) at_eof () = Inr leave_one"
    by (simp add: DecodeAlterOptions_def validateAlterOptions_def leave_one_def)
  moreover have "ApplyAlter lock_options leave_one = Inl (Errorf ''clients must be at least 2 for profile \"lock\"'')"
    by (simp add: ApplyAlter_eq validateAlterOptions_def leave_one_def altered_def lock_options_def one_client_def
        demo_start_def validateStartOptions_def isValidProfile_def profile_defs)
  ultimately show ?thesis
    using control_status_codes [where h = "bench_handler quiet_db None" and s = lock_state
        and rq = "post ''/benchmark/alter''" and lib = "demo_lib empty_payload leave_one" and fallback = not_found
        and conn = "[]" and api = "bench_api (newRunner quiet_db)" and start = "bench_start quiet_db" and now = bw_now]
    by (simp add: bench_handler_def post_def demo_lib_def lock_state_def New_def Let_def)
qed

theorem only_control_requests_change_state_witness:
  "fst (serve (demo_lib (payloadOf one_client) no_alter) (bench_handler quiet_db None) not_found
     (post ''/benchmark/start'') bench0 (fresh [])) \<noteq> bench0
   \<and> rq_Method (post ''/benchmark/start'') = MethodPost"
proof -
  let ?lib = "demo_lib (payloadOf one_client) no_alter" and ?h = "bench_handler quiet_db None"
  have "cs_Status (co_state (sy_co bench0)) = StatusIdle" by (simp add: bench0_def New_def idleState_def)
  then have changed: "fst (serve ?lib ?h not_found (post ''/benchmark/start'') bench0 (fresh [])) \<noteq> bench0"
    using demo_start_served [of "fresh []"] demo_start_state by auto
  from only_control_requests_change_state [OF _ changed] show ?thesis using changed by (auto simp: not_found_def)
qed

end
