(* ===== verification/Application.thy ===== *)
theory Application
  imports Database Http_System
begin

text \<open>
  The process: the command line and the life of the service, \<open>internal/app/app.go\<close>, and the exit
  code, \<open>cmd/pg_gobench/main.go\<close>.

  Command lines are parsed the way the \<open>flag\<close> package does for string flags. The listener, the
  HTTP server's loop and the signal are parameters: a value of \<open>outcome\<close> says what each of them
  returns and which case of the \<open>select\<close> is taken. A run is the list of what it did, in order,
  and the error it returns.
\<close>

section \<open>The flag package\<close>

text \<open>\<open>FlagSet.parseOne\<close> for string flags: end of the flags, an error, or a setting.\<close>

datatype parsed = FlagsEnd "string list" | FlagError goerror | FlagSetTo string string "string list"

definition split_value :: "string \<Rightarrow> string \<times> string option" where
  "split_value name =
     (let n = takeWhile (\<lambda>c. c \<noteq> CHR ''='') (tl name) in
      if length n = length (tl name) then (name, None)
      else (hd name # n, Some (drop (Suc (length n)) (tl name))))"

definition parseOne :: "string list \<Rightarrow> string list \<Rightarrow> parsed" where
  "parseOne formal args =
     (case args of
        [] \<Rightarrow> FlagsEnd []
      | s # rest \<Rightarrow>
          (if length s < 2 \<or> hd s \<noteq> CHR ''-'' then FlagsEnd args
           else if s = ''--'' then FlagsEnd rest
           else
             (let name = (if s ! 1 = CHR ''-'' then drop 2 s else drop 1 s) in
              if name = [] \<or> hd name = CHR ''-'' \<or> hd name = CHR ''=''
              then FlagError (Errorf (''bad flag syntax: '' @ s))
              else
                (case split_value name of
                   (name, v) \<Rightarrow>
                     (if name \<notin> set formal
                      then if name = ''help'' \<or> name = ''h'' then FlagError (Errorf ''flag: help requested'')
                           else FlagError (Errorf (''flag provided but not defined: -'' @ name))
                      else
                        (case (v, rest) of
                           (Some value, _) \<Rightarrow> FlagSetTo name value rest
                         | (None, value # rest') \<Rightarrow> FlagSetTo name value rest'
                         | (None, []) \<Rightarrow> FlagError (Errorf (''flag needs an argument: -'' @ name))))))))"

lemma parseOne_shrinks: "parseOne formal args = FlagSetTo name v rest \<Longrightarrow> length rest < length args"
  by (auto simp: parseOne_def Let_def split: list.splits if_splits prod.splits option.splits)

text \<open>\<open>FlagSet.Parse\<close>: the values of the flags and the remaining arguments.\<close>

function flags_Parse :: "string list \<Rightarrow> (string \<Rightarrow> string) \<Rightarrow> string list \<Rightarrow> goerror + (string \<Rightarrow> string) \<times> string list" where
  "flags_Parse formal vals args =
     (case parseOne formal args of
        FlagsEnd rest \<Rightarrow> Inr (vals, rest)
      | FlagError err \<Rightarrow> Inl err
      | FlagSetTo name v rest \<Rightarrow> flags_Parse formal (vals(name := v)) rest)"
  by pat_completeness auto
termination flags_Parse
  by (relation "measure (\<lambda>(_, _, args). length args)") (auto dest: parseOne_shrinks)

declare flags_Parse.simps [simp del]

section \<open>app.go\<close>

definition defaultAddr :: string where
  "defaultAddr = ''127.0.0.1:8080''"

record AppConfig =
  ac_Addr :: string
  ac_Source :: Source

definition flag_defaults :: "string \<Rightarrow> string" where
  "flag_defaults = (\<lambda>name. if name = ''addr'' then defaultAddr else [])"

definition ParseConfig :: "(string \<Rightarrow> (goerror + yamlNode) \<times> string) \<Rightarrow> host \<Rightarrow> string list \<Rightarrow> AppConfig result" where
  "ParseConfig yaml_Decode os args =
     (case flags_Parse [''addr'', ''config''] flag_defaults args of
        Inl err \<Rightarrow> Err (Wrap ''parse flags'' err)
      | Inr (vals, rest) \<Rightarrow>
          (if rest \<noteq> [] then Err (Errorf (''unexpected positional arguments: ['' @ strings_Join rest '' '' @ '']''))
           else if vals ''addr'' = [] then Err (Errorf ''addr must not be empty'')
           else if vals ''config'' = [] then Err (Errorf ''config must not be empty'')
           else
             bindR (wrapR ''load config'' (Load yaml_Decode os (vals ''config''))) (\<lambda>loaded.
               Ok \<lparr>ac_Addr = vals ''addr'', ac_Source = cfg_Source loaded\<rparr>)))"

text \<open>What the world answers during a run, and which case of the \<open>select\<close> is taken.\<close>

datatype ending =
    CtxDone (shutdown: "goerror option") (served: "goerror option")
  | ServeEnds (served: "goerror option")

text \<open>
  What is logged while serving: by the server, through the logger \<open>Run\<close> gives it on the error
  stream, and by the handlers, through the standard logger on the same stream.
\<close>

datatype log_line = ServerLog string | HandlerLog string

definition log_text :: "log_line \<Rightarrow> string" where
  "log_text l = (case l of ServerLog t \<Rightarrow> ''httpserver: '' @ t | HandlerLog t \<Rightarrow> t)"

record 'db outcome =
  oc_Close :: "'db \<Rightarrow> goerror option"
  oc_Listen :: "string \<Rightarrow> goerror + string"
  oc_stdout :: "string \<Rightarrow> goerror option"
  oc_listenerClose :: "goerror option"
  oc_logged :: "log_line list"
  oc_ending :: ending

datatype event =
    DatabaseOpened
  | DatabaseClosed
  | Listening string
  | ListenerClosed
  | Printed string
  | Serving string
  | ShutDown
  | Served
  | Logged string

text \<open>What the goroutine sends of the result of \<open>server.Serve\<close>.\<close>

definition serve_result :: "goerror option \<Rightarrow> goerror option" where
  "serve_result r =
     (case r of
        None \<Rightarrow> None
      | Some err \<Rightarrow> (if \<not> errors_Is err ErrServerClosed then Some (Wrap ''serve HTTP server'' err) else None))"

definition await_end :: "ending \<Rightarrow> event list \<times> goerror option" where
  "await_end e =
     (case e of
        CtxDone shut r \<Rightarrow>
          (case shut of
             Some err \<Rightarrow> ([ShutDown], Some (Wrap ''shutdown HTTP server'' err))
           | None \<Rightarrow> ([ShutDown, Served], serve_result r))
      | ServeEnds r \<Rightarrow> ([Served], serve_result r))"

definition startup_message :: "string \<Rightarrow> string" where
  "startup_message addr = ''listening on '' @ addr @ nl"

text \<open>The body of \<open>Run\<close> after the database is open, up to the deferred call.\<close>

definition run_body :: "'db outcome \<Rightarrow> AppConfig \<Rightarrow> event list \<times> goerror option" where
  "run_body oc cfg =
     (case oc_Listen oc (ac_Addr cfg) of
        Inl err \<Rightarrow> ([], Some (Wrap (''listen on '' @ go_quote (ac_Addr cfg)) err))
      | Inr addr \<Rightarrow>
          (case oc_stdout oc (startup_message addr) of
             Some err \<Rightarrow>
               (case oc_listenerClose oc of
                  Some closeErr \<Rightarrow>
                    ([Listening addr, ListenerClosed],
                     Some (Joined [Wrap ''write startup message'' err, Wrap ''close listener'' closeErr]))
                | None \<Rightarrow> ([Listening addr, ListenerClosed], Some (Wrap ''write startup message'' err)))
           | None \<Rightarrow>
               (case await_end (oc_ending oc) of
                  (evs, err) \<Rightarrow> ([Listening addr, Printed (startup_message addr), Serving addr] @ map (Logged \<circ> log_text) (oc_logged oc) @ evs, err))))"

definition close_database :: "goerror option \<Rightarrow> goerror option \<Rightarrow> goerror option" where
  "close_database closeErr runErr =
     (case closeErr of
        None \<Rightarrow> runErr
      | Some err \<Rightarrow>
          (case runErr of
             None \<Rightarrow> Some (Wrap ''close database'' err)
           | Some e \<Rightarrow> Some (Joined [e, Wrap ''close database'' err])))"

definition Run ::
  "('c, 'k, 'f, 's) dblib \<Rightarrow> (('c, 'k, 'f, 's) connConfig \<Rightarrow> 'db) \<Rightarrow> 'db outcome \<Rightarrow> AppConfig
    \<Rightarrow> (event list \<times> goerror option) option" where
  "Run lib stdlib_OpenDB oc cfg =
     (case Open lib stdlib_OpenDB (ac_Source cfg) of
        None \<Rightarrow> None
      | Some (Inl err) \<Rightarrow> Some ([], Some (Wrap ''open database'' err))
      | Some (Inr db) \<Rightarrow>
          (case run_body oc cfg of
             (evs, runErr) \<Rightarrow> Some ([DatabaseOpened] @ evs @ [DatabaseClosed], close_database (oc_Close oc db) runErr)))"

text \<open>The handler \<open>Run\<close> serves: the coordinator over the database, and the readiness probe.\<close>

definition app_handler :: "'d sqldb \<Rightarrow> ((nat, 'd world) system \<Rightarrow> goerror option) \<Rightarrow> (nat, 'd world) system handler" where
  "app_handler db db_PingContext = bench_handler db (Some (CheckReadiness db_PingContext))"

section \<open>main.go\<close>

text \<open>\<open>writeFatal\<close> panics when the message cannot be written; the process then ends with code 2.\<close>

datatype exit = Exit int | Panicked goerror

definition writeFatal :: "(string \<Rightarrow> goerror option) \<Rightarrow> string \<Rightarrow> goerror option" where
  "writeFatal w txt =
     (case w txt of Some err \<Rightarrow> Some (Wrap ''write fatal message'' err) | None \<Rightarrow> None)"

definition fatal :: "(string \<Rightarrow> goerror option) \<Rightarrow> string \<Rightarrow> goerror \<Rightarrow> int \<Rightarrow> string list \<times> exit" where
  "fatal stderr label err code =
     (let msg = label @ '': '' @ error_text err @ nl in
      case writeFatal stderr msg of
        Some e \<Rightarrow> ([], Panicked e)
      | None \<Rightarrow> ([msg], Exit code))"



section \<open>Command lines\<close>

text \<open>The four ways of giving a string flag: one dash or two, the value attached or next.\<close>

record setting =
  st_double :: bool
  st_attached :: bool
  st_name :: string
  st_value :: string

definition setting_args :: "setting \<Rightarrow> string list" where
  "setting_args st =
     (let f = (if st_double st then ''--'' else ''-'') @ st_name st in
      if st_attached st then [f @ ''='' @ st_value st] else [f, st_value st])"

definition set_value :: "(string \<Rightarrow> string) \<Rightarrow> setting \<Rightarrow> string \<Rightarrow> string" where
  "set_value vals st = vals(st_name st := st_value st)"

definition settings_values :: "setting list \<Rightarrow> string \<Rightarrow> string" where
  "settings_values sts = foldl set_value flag_defaults sts"

text \<open>A flag's name: not empty, and no dash and no equals sign in it.\<close>

definition plain_name :: "string \<Rightarrow> bool" where
  "plain_name n \<longleftrightarrow> n \<noteq> [] \<and> CHR ''-'' \<notin> set n \<and> CHR ''='' \<notin> set n"

lemma split_value_simps:
  assumes "plain_name n"
  shows "split_value n = (n, None)" "split_value (n @ CHR ''='' # v) = (n, Some v)"
proof -
  obtain c n' where n: "n = c # n'" using assms by (cases n) (auto simp: plain_name_def)
  then have "CHR ''='' \<notin> set n'" using assms by (simp add: plain_name_def)
  then have *: "takeWhile (\<lambda>c. c \<noteq> CHR ''='') n' = n'" "takeWhile (\<lambda>c. c \<noteq> CHR ''='') (n' @ CHR ''='' # v) = n'"
    by (auto simp: takeWhile_eq_all_conv takeWhile_append)
  show "split_value n = (n, None)" "split_value (n @ CHR ''='' # v) = (n, Some v)"
    by (simp_all add: split_value_def n Let_def *)
qed

lemma parseOne_setting:
  assumes "plain_name (st_name st)" "st_name st \<in> set formal"
  shows "parseOne formal (setting_args st @ rest) = FlagSetTo (st_name st) (st_value st) rest"
proof -
  obtain c n' where n: "st_name st = c # n'" and c: "c \<noteq> CHR ''-''" "c \<noteq> CHR ''=''"
    using assms by (cases "st_name st") (auto simp: plain_name_def)
  note sv = split_value_simps [OF assms(1), unfolded n append_Cons] and mem = assms(2) [unfolded n]
  show ?thesis
    by (cases "st_double st"; cases "st_attached st")
      (simp_all add: parseOne_def setting_args_def Let_def n c sv mem)
qed

lemma own_flags_plain: "n \<in> {''addr'', ''config''} \<Longrightarrow> plain_name n \<and> n \<in> set [''addr'', ''config'']"
  by (auto simp: plain_name_def)

text \<open>Conversely, whatever sets a flag is one of the four forms, and the flags end at the end or at \<open>--\<close>.\<close>

lemma split_value_inv:
  "split_value name = (n, v) \<Longrightarrow> name \<noteq> [] \<Longrightarrow> name = n @ (case v of None \<Rightarrow> [] | Some x \<Rightarrow> CHR ''='' # x)"
proof -
  assume sv: "split_value name = (n, v)" and "name \<noteq> []"
  then obtain c t where name: "name = c # t" by (cases name) auto
  show ?thesis
  proof (cases "CHR ''='' \<in> set t")
    case True
    then obtain a b where t: "t = a @ CHR ''='' # b" and "CHR ''='' \<notin> set a" by (meson split_list_first)
    then have "takeWhile (\<lambda>c. c \<noteq> CHR ''='') t = a" by (auto simp: takeWhile_append takeWhile_eq_all_conv)
    with sv name t show ?thesis by (auto simp: split_value_def Let_def)
  next
    case False
    then have "takeWhile (\<lambda>c. c \<noteq> CHR ''='') t = t" by (auto simp: takeWhile_eq_all_conv)
    with sv name show ?thesis by (auto simp: split_value_def Let_def)
  qed
qed

lemma parseOne_inv:
  assumes "parseOne formal args = FlagSetTo name v rest"
  shows "\<exists>st. args = setting_args st @ rest \<and> st_name st = name \<and> st_value st = v \<and> name \<in> set formal"
proof -
  obtain s args' where args: "args = s # args'" using assms by (cases args) (auto simp: parseOne_def)
  have dash: "\<not> (length s < 2 \<or> hd s \<noteq> CHR ''-'')" "s \<noteq> ''--''"
    using assms by (auto simp: args parseOne_def split: if_splits)
  define dbl where "dbl \<longleftrightarrow> s ! 1 = CHR ''-''"
  define body where "body = (if dbl then drop 2 s else drop 1 s)"
  have s: "s = (if dbl then ''--'' else ''-'') @ body"
    using dash by (cases s; cases "tl s") (auto simp: body_def dbl_def)
  obtain n x where sv: "split_value body = (n, x)" by fastforce
  have body: "body \<noteq> []" and set: "n \<in> set formal"
    and out: "case x of Some value \<Rightarrow> FlagSetTo n value args' = FlagSetTo name v rest
       | None \<Rightarrow> (\<exists>value. args' = value # rest \<and> FlagSetTo n value rest = FlagSetTo name v rest)"
  proof -
    have name: "(if s ! 1 = CHR ''-'' then drop 2 s else drop 1 s) = body" by (simp add: body_def dbl_def)
    have body: "body \<noteq> []" and set: "n \<in> set formal"
      and "(case (x, args') of (Some value, _) \<Rightarrow> FlagSetTo n value args' | (None, value # rest') \<Rightarrow> FlagSetTo n value rest'
         | (None, []) \<Rightarrow> FlagError (Errorf (''flag needs an argument: -'' @ n))) = FlagSetTo name v rest"
      using assms dash unfolding args parseOne_def Let_def name list.case sv prod.case by (auto split: if_splits)
    then show "body \<noteq> []" "n \<in> set formal"
      "case x of Some value \<Rightarrow> FlagSetTo n value args' = FlagSetTo name v rest
       | None \<Rightarrow> (\<exists>value. args' = value # rest \<and> FlagSetTo n value rest = FlagSetTo name v rest)"
      by (cases x; cases args'; simp)+
  qed
  define st where "st = \<lparr>st_double = dbl, st_attached = (x \<noteq> None), st_name = name, st_value = v\<rparr>"
  have "args = setting_args st @ rest"
    using out s split_value_inv [OF sv body] by (cases x) (auto simp: args setting_args_def st_def Let_def)
  with set out show ?thesis by (intro exI [of _ st]) (cases x; auto simp: st_def)
qed

text \<open>The command lines that are accepted: settings of the two flags, and at most a final \<open>--\<close>.\<close>

definition command_line :: "setting list \<Rightarrow> string list \<Rightarrow> bool" where
  "command_line sts args \<longleftrightarrow>
     (\<forall>st \<in> set sts. st_name st \<in> {''addr'', ''config''}) \<and>
     (args = concat (map setting_args sts) \<or> args = concat (map setting_args sts) @ [''--''])"

lemma flags_Parse_end:
  assumes "\<forall>st \<in> set sts. plain_name (st_name st) \<and> st_name st \<in> set formal" "parseOne formal rest = FlagsEnd rest'"
  shows "flags_Parse formal vals (concat (map setting_args sts) @ rest) = Inr (foldl set_value vals sts, rest')"
  using assms
proof (induction sts arbitrary: vals)
  case Nil
  then show ?case by (subst flags_Parse.simps) simp
next
  case (Cons st sts)
  then show ?case by (subst flags_Parse.simps) (simp add: parseOne_setting flip: set_value_def)
qed

lemma flags_Parse_inv:
  "flags_Parse formal vals args = Inr (vals', []) \<Longrightarrow>
     \<exists>sts. (\<forall>st \<in> set sts. st_name st \<in> set formal) \<and> vals' = foldl set_value vals sts \<and>
       (args = concat (map setting_args sts) \<or> args = concat (map setting_args sts) @ [''--''])"
proof (induction formal vals args rule: flags_Parse.induct)
  case (1 formal vals args)
  show ?case
  proof (cases "parseOne formal args")
    case (FlagsEnd rest)
    with "1.prems" have "rest = []" "vals' = vals" by (subst (asm) flags_Parse.simps, simp)+
    moreover from this FlagsEnd have "args = [] \<or> args = [''--'']"
      by (auto simp: parseOne_def Let_def split: list.splits if_splits prod.splits option.splits)
    ultimately show ?thesis by (intro exI [of _ "[]"]) simp
  next
    case (FlagError err)
    with "1.prems" show ?thesis by (subst (asm) flags_Parse.simps) simp
  next
    case (FlagSetTo name v rest)
    then obtain st where st: "args = setting_args st @ rest" "st_name st = name" "st_value st = v" "name \<in> set formal"
      using parseOne_inv by blast
    from "1.prems" FlagSetTo have "flags_Parse formal (vals(name := v)) rest = Inr (vals', [])"
      by (subst (asm) flags_Parse.simps) simp
    from "1.IH" [OF FlagSetTo this] obtain sts where "\<forall>st \<in> set sts. st_name st \<in> set formal"
      "vals' = foldl set_value (vals(name := v)) sts"
      "rest = concat (map setting_args sts) \<or> rest = concat (map setting_args sts) @ [''--'']"
      by blast
    moreover have "vals(name := v) = set_value vals st" by (simp add: set_value_def st)
    ultimately show ?thesis using st by (intro exI [of _ "st # sts"]) auto
  qed
qed

lemma flags_Parse_iff:
  "flags_Parse [''addr'', ''config''] flag_defaults args = Inr (vals, []) \<longleftrightarrow> (\<exists>sts. command_line sts args \<and> vals = settings_values sts)"
  (is "?l \<longleftrightarrow> ?r")
proof
  assume ?l
  then show ?r using flags_Parse_inv [of "[''addr'', ''config'']" flag_defaults args vals]
    by (auto simp: command_line_def settings_values_def)
next
  assume ?r
  then obtain sts where sts: "command_line sts args" "vals = settings_values sts" by blast
  have names: "\<forall>st \<in> set sts. plain_name (st_name st) \<and> st_name st \<in> set [''addr'', ''config'']"
    using sts(1) own_flags_plain unfolding command_line_def by blast
  have "parseOne [''addr'', ''config''] [] = FlagsEnd []" "parseOne [''addr'', ''config''] [''--''] = FlagsEnd []"
    by (simp_all add: parseOne_def)
  from flags_Parse_end [OF names this(1)] flags_Parse_end [OF names this(2)] sts show ?l
    by (auto simp: command_line_def settings_values_def)
qed

lemma ParseConfig_Ok_iff:
  assumes "flags_Parse [''addr'', ''config''] flag_defaults args = Inr (vals, [])"
  shows "ParseConfig yaml_Decode os args = Ok cfg \<longleftrightarrow>
    vals ''addr'' \<noteq> [] \<and> vals ''config'' \<noteq> [] \<and>
    (\<exists>loaded. Load yaml_Decode os (vals ''config'') = Ok loaded \<and> cfg = \<lparr>ac_Addr = vals ''addr'', ac_Source = cfg_Source loaded\<rparr>)"
  using assms by (cases "Load yaml_Decode os (vals ''config'')") (auto simp: ParseConfig_def)

lemma ParseConfig_refuses:
  assumes "\<nexists>sts. command_line sts args"
  shows "\<exists>err. \<forall>yaml_Decode os. ParseConfig yaml_Decode os args = Err err"
proof (cases "flags_Parse [''addr'', ''config''] flag_defaults args")
  case (Inl err)
  then show ?thesis by (intro exI [of _ "Wrap ''parse flags'' err"]) (simp add: ParseConfig_def)
next
  case (Inr out)
  obtain vals rest where out: "out = (vals, rest)" by (cases out)
  have "rest \<noteq> []" using assms flags_Parse_iff [of args vals] Inr out by blast
  with Inr out show ?thesis
    by (intro exI [of _ "Errorf (''unexpected positional arguments: ['' @ strings_Join rest '' '' @ '']'')"]) (simp add: ParseConfig_def)
qed

text \<open>
  C18. A command line is accepted exactly when it is a list of settings of the two flags, each with
  one dash or two and with the value attached or as the next argument, possibly closed by
  \<open>--\<close>, in which the address and the file name are not empty and the file holds a valid
  configuration; the last value of a flag counts and the address has its default. Every other
  command line, an undefined flag, a flag without a value and a further argument included, is
  refused, and before any file is read unless only the file is at fault.
\<close>

theorem command_line_accepted_iff:
  "(ParseConfig yaml_Decode os args = Ok cfg \<longleftrightarrow>
     (\<exists>sts loaded. command_line sts args \<and> settings_values sts ''addr'' \<noteq> [] \<and> settings_values sts ''config'' \<noteq> [] \<and>
        Load yaml_Decode os (settings_values sts ''config'') = Ok loaded \<and>
        cfg = \<lparr>ac_Addr = settings_values sts ''addr'', ac_Source = cfg_Source loaded\<rparr>))
   \<and> ((\<exists>sts. command_line sts args \<and> settings_values sts ''addr'' \<noteq> [] \<and> settings_values sts ''config'' \<noteq> [])
      \<or> (\<exists>err. \<forall>yaml_Decode os. ParseConfig yaml_Decode os args = Err err))"
proof (cases "\<exists>sts. command_line sts args")
  case False
  then obtain err where err: "\<forall>yaml_Decode os. ParseConfig yaml_Decode os args = Err err"
    using ParseConfig_refuses by blast
  then have "ParseConfig yaml_Decode os args \<noteq> Ok cfg" by simp
  with False err show ?thesis by blast
next
  case True
  then obtain sts where sts: "command_line sts args" by blast
  have parsed: "flags_Parse [''addr'', ''config''] flag_defaults args = Inr (settings_values sts, [])"
    using flags_Parse_iff sts by blast
  have unique: "settings_values sts' = settings_values sts" if "command_line sts' args" for sts'
    using flags_Parse_iff [of args "settings_values sts'"] that parsed by auto
  show ?thesis
  proof (cases "settings_values sts ''addr'' = [] \<or> settings_values sts ''config'' = []")
    case True
    then have "\<forall>yaml_Decode os. ParseConfig yaml_Decode os args =
        Err (Errorf (if settings_values sts ''addr'' = [] then ''addr must not be empty'' else ''config must not be empty''))"
      using parsed by (auto simp: ParseConfig_def)
    then obtain err where err: "\<forall>yaml_Decode os. ParseConfig yaml_Decode os args = Err err" by blast
    then have "ParseConfig yaml_Decode os args \<noteq> Ok cfg" by simp
    with True err unique show ?thesis by metis
  next
    case False
    then show ?thesis unfolding ParseConfig_Ok_iff [OF parsed] using sts unique by metis
  qed
qed

section \<open>The life of the service\<close>

lemma Open_total: "pem_progress lib \<Longrightarrow> Open lib stdlib_OpenDB source \<noteq> None"
  using newConnConfig_total [of lib source] by (auto simp: Open_def split: option.splits sum.splits)

lemma await_end_events:
  "await_end e = (evs, err) \<Longrightarrow>
     set evs \<subseteq> {ShutDown, Served} \<and> evs \<noteq> [] \<and> (err = None \<longleftrightarrow>
       (case e of CtxDone shut r \<Rightarrow> shut = None \<and> serve_result r = None | ServeEnds r \<Rightarrow> serve_result r = None))"
  by (auto simp: await_end_def split: ending.splits option.splits)

definition served_cleanly :: "'db outcome \<Rightarrow> AppConfig \<Rightarrow> bool" where
  "served_cleanly oc cfg \<longleftrightarrow>
     (\<exists>addr. oc_Listen oc (ac_Addr cfg) = Inr addr \<and> oc_stdout oc (startup_message addr) = None) \<and>
     (case oc_ending oc of CtxDone shut r \<Rightarrow> shut = None \<and> serve_result r = None | ServeEnds r \<Rightarrow> serve_result r = None)"

text \<open>A listener that was opened is closed by the body itself or handed to the server's loop.\<close>

lemma run_body_events:
  assumes "run_body oc cfg = (evs, err)"
  shows "DatabaseOpened \<notin> set evs" "DatabaseClosed \<notin> set evs" "err = None \<longleftrightarrow> served_cleanly oc cfg"
    and "Listening addr \<in> set evs \<Longrightarrow> ListenerClosed \<in> set evs \<or> ShutDown \<in> set evs \<or> Served \<in> set evs"
proof -
  obtain evs' err' where e: "await_end (oc_ending oc) = (evs', err')" by fastforce
  note E = await_end_events [OF e]
  have "evs' \<noteq> [] \<Longrightarrow> set evs' \<subseteq> {ShutDown, Served} \<Longrightarrow> ShutDown \<in> set evs' \<or> Served \<in> set evs'"
    by (cases evs') auto
  moreover have "d \<notin> Logged ` X" if "d \<in> {DatabaseOpened, DatabaseClosed}" for d X using that by auto
  ultimately show "DatabaseOpened \<notin> set evs" "DatabaseClosed \<notin> set evs" "err = None \<longleftrightarrow> served_cleanly oc cfg"
    "Listening addr \<in> set evs \<Longrightarrow> ListenerClosed \<in> set evs \<or> ShutDown \<in> set evs \<or> Served \<in> set evs"
    using E assms by (auto simp: run_body_def e served_cleanly_def split: sum.splits option.splits)
qed

lemma close_database_None [simp]: "close_database c r = None \<longleftrightarrow> c = None \<and> r = None"
  by (simp add: close_database_def split: option.split)

lemma Run_outcome:
  assumes "pem_progress lib"
  shows "\<exists>evs err. Run lib stdlib_OpenDB oc cfg = Some (evs, err) \<and>
    (case the (Open lib stdlib_OpenDB (ac_Source cfg)) of
       Inl e \<Rightarrow> evs = [] \<and> err = Some (Wrap ''open database'' e)
     | Inr db \<Rightarrow>
         hd evs = DatabaseOpened \<and> last evs = DatabaseClosed \<and>
         count_list evs DatabaseOpened = 1 \<and> count_list evs DatabaseClosed = 1 \<and>
         (\<forall>addr. Listening addr \<in> set evs \<longrightarrow> ListenerClosed \<in> set evs \<or> ShutDown \<in> set evs \<or> Served \<in> set evs) \<and>
         (err = None \<longleftrightarrow> served_cleanly oc cfg \<and> oc_Close oc db = None))"
proof -
  obtain evs err where body: "run_body oc cfg = (evs, err)" by fastforce
  note B = run_body_events [OF body]
  obtain r where r: "Open lib stdlib_OpenDB (ac_Source cfg) = Some r"
    using Open_total [OF assms] by blast
  show ?thesis
  proof (cases r)
    case (Inl e)
    with r show ?thesis by (simp add: Run_def)
  next
    case (Inr db)
    with r B body show ?thesis by (auto simp: Run_def)
  qed
qed

text \<open>
  C9. The service always ends with the database closed: opening it is the first thing a run does
  and closing it the last, each exactly once and on every path, failed starts and failed
  shutdowns included; when it cannot be opened nothing else is done. A listener that was opened
  is closed, or was served until the server ended. The run reports no error exactly when every
  step of it succeeded.
\<close>

theorem database_opened_and_closed_once:
  assumes "pem_progress lib"
  shows "\<exists>evs err. Run lib stdlib_OpenDB oc cfg = Some (evs, err) \<and>
    (case the (Open lib stdlib_OpenDB (ac_Source cfg)) of
       Inl e \<Rightarrow> evs = [] \<and> err = Some (Wrap ''open database'' e)
     | Inr db \<Rightarrow>
         hd evs = DatabaseOpened \<and> last evs = DatabaseClosed \<and>
         count_list evs DatabaseOpened = 1 \<and> count_list evs DatabaseClosed = 1 \<and>
         (\<forall>addr. Listening addr \<in> set evs \<longrightarrow> ListenerClosed \<in> set evs \<or> ShutDown \<in> set evs \<or> Served \<in> set evs) \<and>
         (err = None \<longleftrightarrow> served_cleanly oc cfg \<and> oc_Close oc db = None))"
  by (rule Run_outcome [OF assms])

section \<open>Exit codes\<close>




section \<open>Readiness\<close>

text \<open>
  The readiness probe reports the database: \<open>GET /readyz\<close> answers 200 when the database
  answers the ping and 503 otherwise, and the benchmark is left alone.
\<close>

theorem readyz_reports_ping:
  assumes "rq_Path rq = ''/readyz''" "rq_Method rq = MethodGet"
  shows "ex_status (snd (serve lib (app_handler db ping) fallback rq s (fresh conn))) = Some (if ping s = None then 200 else 503)
    \<and> fst (serve lib (app_handler db ping) fallback rq s (fresh conn)) = s"
proof -
  define ex0 where "ex0 = setBrowserAccessHeaders MethodGet (fresh conn)"
  have none: "ex_status ex0 = None" by (rule browser_headers(1) [OF ex0_def])
  have "MethodGet \<noteq> MethodOptions" by (simp add: method_defs)
  moreover have "map_of route_table ''/readyz'' = Some MethodGet" by (simp add: route_table_def)
  ultimately have "serve lib (app_handler db ping) fallback rq s (fresh conn) = handleReadyz lib (app_handler db ping) rq s ex0"
    using assms unfolding serve_def newBrowserCompatibleHandler_def allowedMethods_routes
    by (simp add: Let_def mux_ServeHTTP_def routes_def flip: ex0_def)
  then show ?thesis
    using assms none writeJSON_answers [of ex0 200 lib] writeError_answers [of ex0 503 lib]
    by (cases "ping s") (simp_all add: handleReadyz_def allowMethod_simps(1) app_handler_def bench_handler_def
      CheckReadiness_def answered_def)
qed

section \<open>Witnesses\<close>

theorem readyz_reports_ping_witness:
  "ex_status (snd (serve (demo_lib empty_payload leave_one) (app_handler quiet_db (\<lambda>s. Some (Errorf ''refused''))) not_found
     \<lparr>rq_Method = MethodGet, rq_Path = ''/readyz'', rq_Body = (), rq_ctx_err = None\<rparr> lock_state (fresh []))) = Some 503"
  using readyz_reports_ping [of "\<lparr>rq_Method = MethodGet, rq_Path = ''/readyz'', rq_Body = (), rq_ctx_err = None\<rparr>"
      "demo_lib empty_payload leave_one" quiet_db "\<lambda>s. Some (Errorf ''refused'')" not_found lock_state "[]"]
  by simp

definition demo_settings :: "setting list" where
  "demo_settings =
     [\<lparr>st_double = True, st_attached = True, st_name = ''addr'', st_value = '':1''\<rparr>,
      \<lparr>st_double = False, st_attached = False, st_name = ''config'', st_value = ''c.yaml''\<rparr>,
      \<lparr>st_double = False, st_attached = True, st_name = ''addr'', st_value = '':2''\<rparr>]"

definition demo_outcome :: "string outcome" where
  "demo_outcome = \<lparr>oc_Close = (\<lambda>db. None), oc_Listen = (\<lambda>a. Inr a), oc_stdout = (\<lambda>t. None), oc_listenerClose = None,
     oc_logged = [ServerLog ''TLS handshake error''], oc_ending = CtxDone None (Some (Sentinel ErrServerClosed))\<rparr>"

lemma demo_command_line: "concat (map setting_args demo_settings) = [''--addr=:1'', ''-config'', ''c.yaml'', ''-addr=:2'']"
  by (simp add: demo_settings_def setting_args_def)

lemma demo_values: "settings_values demo_settings ''addr'' = '':2''" "settings_values demo_settings ''config'' = ''c.yaml''"
  by (simp_all add: settings_values_def demo_settings_def set_value_def)

lemma demo_names: "command_line demo_settings [''--addr=:1'', ''-config'', ''c.yaml'', ''-addr=:2'']"
  unfolding command_line_def demo_command_line by (simp add: demo_settings_def)

theorem command_line_accepted_iff_witness:
  "ParseConfig demo_decode demo_host [''--addr=:1'', ''-config'', ''c.yaml'', ''-addr=:2''] =
     Ok \<lparr>ac_Addr = '':2'', ac_Source = cfg_Source demo_config\<rparr>"
  using command_line_accepted_iff [of demo_decode demo_host "[''--addr=:1'', ''-config'', ''c.yaml'', ''-addr=:2'']"
      "\<lparr>ac_Addr = '':2'', ac_Source = cfg_Source demo_config\<rparr>"] demo_names demo_loads demo_values
  by (metis list.distinct(1))

definition demo_app_config :: AppConfig where
  "demo_app_config = \<lparr>ac_Addr = '':2'', ac_Source = demo_tls_source\<rparr>"

lemma demo_Open: "Open demo_dblib (\<lambda>cc. cc_Settings cc) demo_tls_source = Some (Inr (URL_String (connURL demo_tls_source)))"
  by (simp add: Open_def demo_newConnConfig)

lemma demo_clean: "served_cleanly demo_outcome cfg"
  by (simp add: served_cleanly_def demo_outcome_def serve_result_def)

lemma demo_close: "oc_Close demo_outcome db = None"
  by (simp add: demo_outcome_def)

theorem database_opened_and_closed_once_witness:
  "\<exists>evs. Run demo_dblib (\<lambda>cc. cc_Settings cc) demo_outcome demo_app_config = Some (evs, None) \<and>
     hd evs = DatabaseOpened \<and> last evs = DatabaseClosed \<and> count_list evs DatabaseClosed = 1"
  using database_opened_and_closed_once [OF demo_pem_progress, of "\<lambda>cc. cc_Settings cc" demo_outcome demo_app_config]
  by (auto simp: demo_Open demo_app_config_def demo_clean demo_close)


end
